(* ===== verification/Prelude.thy ===== *)
theory Prelude
  imports Main "HOL-Library.Word" "HOL-Library.AList"
begin

text \<open>
  Shared vocabulary of the development: the machine integers of the C++ code, the ways an
  operation can leave other than by returning (C++ exceptions, failed assertions, undefined
  behaviour) as values of one datatype, sequencing of fallible operations, and the generic
  lemmas on association lists that the components share.

  A function that can fail returns \<open>exn + 'a\<close>: \<open>Inl\<close> carries the exception, \<open>Inr\<close> the value.
  A hash table whose iteration order the standard leaves open is an association list with
  distinct keys, held in the order an iteration visits it.
\<close>

section \<open>Machine integers\<close>

type_synonym u8 = "8 word"
type_synonym u32 = "32 word"
type_synonym u64 = "64 word"
type_synonym bytes = "u8 list"

section \<open>Numbers as text\<close>

text \<open>\<open>std::to_string\<close> of an unsigned number.\<close>

fun to_string :: "nat \<Rightarrow> string" where
  "to_string n =
     (if n < 10 then [char_of (48 + n)] else to_string (n div 10) @ [char_of (48 + n mod 10)])"

declare to_string.simps [simp del]

lemma to_string_not_Nil [simp]: "to_string n \<noteq> []"
  by (subst to_string.simps) simp

section \<open>Leaving an operation abnormally\<close>

text \<open>
  \<open>UndefinedBehaviour\<close> stands for an execution the C++ standard gives no meaning to (a read out of
  bounds, a use of a destroyed coroutine frame); \<open>AssertFailed\<close> for \<open>assert\<close> stopping the process.
\<close>

datatype exn =
    RuntimeError
  | TooManyResources
  | OutOfRange
  | BadVariantAccess
  | SdBusError
  | InvalidEnumString
  | TimeFailed
  | InternalFailure
  | AssertFailed
  | UndefinedBehaviour

definition bindR :: "'e + 'a \<Rightarrow> ('a \<Rightarrow> 'e + 'b) \<Rightarrow> 'e + 'b" where
  "bindR m f = (case m of Inl e \<Rightarrow> Inl e | Inr x \<Rightarrow> f x)"

lemma bindR_simps [simp]:
  "bindR (Inl e) f = Inl e"
  "bindR (Inr x) f = f x"
  by (simp_all add: bindR_def)

lemma bindR_eq_Inr: "bindR m f = Inr y \<longleftrightarrow> (\<exists>x. m = Inr x \<and> f x = Inr y)"
  by (cases m) simp_all

lemma bindR_eq_Inl: "bindR m f = Inl e \<longleftrightarrow> m = Inl e \<or> (\<exists>x. m = Inr x \<and> f x = Inl e)"
  by (cases m) simp_all

lemma bindR_eq_InrE:
  assumes "bindR m f = Inr y"
  obtains x where "m = Inr x" "f x = Inr y"
  using assms by (auto simp: bindR_eq_Inr)

lemma bindR_cong [fundef_cong]:
  "m = m' \<Longrightarrow> (\<And>x. m' = Inr x \<Longrightarrow> f x = f' x) \<Longrightarrow> bindR m f = bindR m' f'"
  by (cases m') simp_all

section \<open>Collections of facts\<close>

text \<open>
  \<open>frame\<close> gathers, for each operation, the parts of the state it leaves alone; \<open>inv_intro\<close> the
  preservation of each component's invariant.
\<close>

named_theorems frame "what an operation leaves unchanged"
named_theorems inv_intro "preservation of a component's invariant"

section \<open>Association lists\<close>

lemma map_of_delete_other [simp]: "k' \<noteq> k \<Longrightarrow> map_of (AList.delete k xs) k' = map_of xs k'"
  by (simp add: delete_conv')

lemma map_of_delete_same [simp]: "map_of (AList.delete k xs) k = None"
  by (simp add: delete_conv')

lemma set_delete: "set (AList.delete k xs) = {p \<in> set xs. fst p \<noteq> k}"
  by (auto simp: AList.delete_eq)

lemma map_of_map_entry_other [simp]:
  "k' \<noteq> k \<Longrightarrow> map_of (AList.map_entry k f xs) k' = map_of xs k'"
  by (induction xs) auto

lemma map_of_map_entry_same [simp]:
  "map_of (AList.map_entry k f xs) k = map_option f (map_of xs k)"
  by (induction xs) auto

lemma map_entry_twice [simp]:
  "AList.map_entry k f (AList.map_entry k g xs) = AList.map_entry k (\<lambda>v. f (g v)) xs"
  by (induction xs) auto

lemma keys_map_entry [simp]: "map fst (AList.map_entry k f xs) = map fst xs"
  by (induction xs) auto

text \<open>
  \<open>std::unordered_map::emplace\<close>: nothing happens when the key is present; otherwise the new entry is
  linked in and the table may rehash, so every later iteration may see the entries in another
  order. \<open>rank\<close> is the implementation's choice of that order, given the present keys and the new
  one; \<open>erase\<close> (\<open>AList.delete\<close>) keeps the relative order of the rest, as the standard demands.
\<close>

type_synonym 'k hash_order = "'k list \<Rightarrow> 'k \<Rightarrow> nat"

definition hash_emplace :: "'k hash_order \<Rightarrow> 'k \<Rightarrow> 'v \<Rightarrow> ('k \<times> 'v) list \<Rightarrow> ('k \<times> 'v) list" where
  "hash_emplace rank k v xs =
     (if k \<in> fst ` set xs then xs
      else sort_key (\<lambda>p. rank (map fst xs @ [k]) (fst p)) (xs @ [(k, v)]))"

lemma distinct_map_insort_key:
  "distinct (map g (insort_key f x xs)) \<longleftrightarrow> g x \<notin> g ` set xs \<and> distinct (map g xs)"
  by (induction xs) (auto simp: set_insort_key)

lemma distinct_map_sort_key: "distinct (map g (sort_key f xs)) \<longleftrightarrow> distinct (map g xs)"
  by (induction xs) (auto simp: distinct_map_insort_key)

lemma map_of_sort_key:
  assumes "distinct (map fst xs)"
  shows "map_of (sort_key f xs) = map_of xs"
proof (rule map_of_eqI)
  show "set (map fst (sort_key f xs)) = set (map fst xs)" by simp
next
  from assms have dist: "distinct (map fst (sort_key f xs))"
    by (simp only: distinct_map_sort_key)
  show "\<forall>k\<in>set (map fst (sort_key f xs)). map_of (sort_key f xs) k = map_of xs k"
  proof
    fix k assume "k \<in> set (map fst (sort_key f xs))"
    then obtain v where kv: "(k, v) \<in> set xs" by auto
    then have "(k, v) \<in> set (sort_key f xs)" by simp
    with kv assms dist show "map_of (sort_key f xs) k = map_of xs k"
      by (simp add: map_of_eq_Some_iff [THEN iffD2])
  qed
qed

lemma distinct_hash_emplace [simp]:
  "distinct (map fst xs) \<Longrightarrow> distinct (map fst (hash_emplace rank k v xs))"
  by (auto simp: hash_emplace_def distinct_map_sort_key)

lemma set_hash_emplace:
  "set (hash_emplace rank k v xs) = (if k \<in> fst ` set xs then set xs else insert (k, v) (set xs))"
  by (auto simp: hash_emplace_def)

lemma map_of_hash_emplace:
  assumes "distinct (map fst xs)"
  shows "map_of (hash_emplace rank k v xs) =
    (if k \<in> fst ` set xs then map_of xs else (map_of xs)(k \<mapsto> v))"
proof (cases "k \<in> fst ` set xs")
  case True
  then show ?thesis by (simp add: hash_emplace_def)
next
  case False
  with assms have dist: "distinct (map fst (xs @ [(k, v)]))" by auto
  from False have "map_of xs k = None" by (simp add: map_of_eq_None_iff)
  then have "map_of (xs @ [(k, v)]) = (map_of xs)(k \<mapsto> v)"
    by (auto simp: map_add_def fun_eq_iff split: option.splits)
  with False show ?thesis
    by (simp only: hash_emplace_def map_of_sort_key [OF dist] if_False)
qed

text \<open>A \<open>duration_cast\<close> to a unit that is \<open>k\<close> times coarser truncates towards zero.\<close>

definition duration_cast_down :: "int \<Rightarrow> int \<Rightarrow> int" where
  "duration_cast_down k n = (if n < 0 then - (- n div k) else n div k)"

lemma duration_cast_down_nat [simp]: "duration_cast_down (int k) (int n) = int (n div k)"
  by (simp add: duration_cast_down_def zdiv_int)

lemma duration_cast_down_ge: "0 < k \<Longrightarrow> n div k \<le> duration_cast_down k n"
  by (simp add: duration_cast_down_def div_minus_minus zdiv_zminus1_eq_if)

end
