(* ===== verification/InstanceId.thy ===== *)
theory InstanceId
  imports Prelude
begin

text \<open>
  Instance identifiers (\<open>oem/nvidia/instance_id.hpp\<close>). Every MCTP endpoint has a pool of 32
  identifiers, a \<open>std::bitset<32>\<close> in the code and a \<open>32 word\<close> here; the manager keeps one pool
  per endpoint in a \<open>std::map\<close>. The interface the requester relies on is the locale \<open>id_pool\<close>,
  interpreted on the manager's operations at the end.
\<close>

unbundle bit_operations_syntax

section \<open>One pool\<close>

type_synonym InstanceId = "32 word"

definition maxInstanceIds :: nat where
  "maxInstanceIds = 32"

text \<open>The scanning loop of \<open>InstanceId::next\<close>; the index is a \<open>uint8_t\<close>.\<close>

function next_scan :: "InstanceId \<Rightarrow> u8 \<Rightarrow> u8" where
  "next_scan ids idx =
     (if unat idx < maxInstanceIds \<and> bit ids (unat idx) then next_scan ids (idx + 1) else idx)"
  by pat_completeness auto

lemma unat_succ_idx: "unat (idx :: u8) < maxInstanceIds \<Longrightarrow> unat (idx + 1) = Suc (unat idx)"
  by (simp add: maxInstanceIds_def unat_word_ariths)

termination next_scan
  by (relation "measure (\<lambda>(ids, idx). maxInstanceIds - unat idx)") (auto simp: unat_succ_idx)

declare next_scan.simps [simp del]

definition InstanceId_next :: "InstanceId \<Rightarrow> exn + (u8 \<times> InstanceId)" where
  "InstanceId_next ids =
     (let idx = next_scan ids 0
      in if unat idx = maxInstanceIds then Inl RuntimeError
         else Inr (idx, set_bit (unat idx) ids))"

text \<open>\<open>bitset::set(pos, false)\<close> throws \<open>std::out_of_range\<close> past the last bit.\<close>

definition InstanceId_markFree :: "u8 \<Rightarrow> InstanceId \<Rightarrow> exn + InstanceId" where
  "InstanceId_markFree instanceId ids =
     (if unat instanceId < maxInstanceIds then Inr (unset_bit (unat instanceId) ids)
      else Inl OutOfRange)"

section \<open>The manager: one pool per endpoint\<close>

type_synonym InstanceIdMgr = "u8 \<rightharpoonup> InstanceId"

text \<open>\<open>ids[eid]\<close>: \<open>std::map::operator[]\<close> inserts an empty pool for a missing key.\<close>

definition ids_at :: "InstanceIdMgr \<Rightarrow> u8 \<Rightarrow> InstanceId" where
  "ids_at ids eid = (case ids eid of None \<Rightarrow> 0 | Some pool \<Rightarrow> pool)"

definition getInstanceId :: "u8 \<Rightarrow> InstanceIdMgr \<Rightarrow> (exn + u8) \<times> InstanceIdMgr" where
  "getInstanceId eid ids =
     (let ids1 = (if ids eid = None then ids(eid \<mapsto> 0) else ids)
      in case InstanceId_next (ids_at ids1 eid) of
           Inl e \<Rightarrow> (Inl TooManyResources, ids1)
         | Inr (i, pool) \<Rightarrow> (Inr i, ids1(eid \<mapsto> pool)))"

definition markFree :: "u8 \<Rightarrow> u8 \<Rightarrow> InstanceIdMgr \<Rightarrow> exn + InstanceIdMgr" where
  "markFree eid instanceId ids =
     (case InstanceId_markFree instanceId (ids_at ids eid) of
        Inl e \<Rightarrow> Inl e
      | Inr pool \<Rightarrow> Inr (ids(eid \<mapsto> pool)))"

section \<open>The scan finds the lowest free identifier\<close>

lemma next_scan_spec:
  assumes "unat idx \<le> maxInstanceIds"
  shows "unat idx \<le> unat (next_scan ids idx) \<and> unat (next_scan ids idx) \<le> maxInstanceIds
    \<and> (\<forall>j. unat idx \<le> j \<and> j < unat (next_scan ids idx) \<longrightarrow> bit ids j)
    \<and> (unat (next_scan ids idx) < maxInstanceIds \<longrightarrow> \<not> bit ids (unat (next_scan ids idx)))"
  using assms
proof (induction ids idx rule: next_scan.induct)
  case (1 ids idx)
  show ?case
  proof (cases "unat idx < maxInstanceIds \<and> bit ids (unat idx)")
    case True
    then have suc: "unat (idx + 1) = Suc (unat idx)" by (simp add: unat_succ_idx)
    with 1 True have IH: "Suc (unat idx) \<le> unat (next_scan ids (idx + 1))
      \<and> unat (next_scan ids (idx + 1)) \<le> maxInstanceIds
      \<and> (\<forall>j. Suc (unat idx) \<le> j \<and> j < unat (next_scan ids (idx + 1)) \<longrightarrow> bit ids j)
      \<and> (unat (next_scan ids (idx + 1)) < maxInstanceIds
          \<longrightarrow> \<not> bit ids (unat (next_scan ids (idx + 1))))"
      by simp
    from True have "next_scan ids idx = next_scan ids (idx + 1)"
      by (subst next_scan.simps) simp
    moreover have "bit ids j" if "unat idx \<le> j" "j < unat (next_scan ids (idx + 1))" for j
      using that IH True by (cases "j = unat idx") auto
    ultimately show ?thesis using IH by auto
  next
    case False
    then have "next_scan ids idx = idx" by (subst next_scan.simps) auto
    with False 1 show ?thesis by auto
  qed
qed

lemmas next_scan_from_0 = next_scan_spec [of 0, simplified]

definition pool_free :: "InstanceId \<Rightarrow> u8 set" where
  "pool_free ids = {i. unat i < maxInstanceIds \<and> \<not> bit ids (unat i)}"

lemma InstanceId_next_Inr:
  assumes "InstanceId_next ids = Inr (i, ids')"
  shows "i \<in> pool_free ids" "ids' = set_bit (unat i) ids" "\<And>j. j \<in> pool_free ids \<Longrightarrow> i \<le> j"
proof -
  let ?r = "next_scan ids 0"
  from assms have i: "i = ?r" and ids': "ids' = set_bit (unat i) ids"
    and ne: "unat ?r \<noteq> maxInstanceIds"
    by (auto simp: InstanceId_next_def Let_def split: if_splits)
  from next_scan_from_0 [of ids] ne have "unat ?r < maxInstanceIds" by auto
  with next_scan_from_0 [of ids] i show "i \<in> pool_free ids"
    by (auto simp: pool_free_def)
  show "ids' = set_bit (unat i) ids" by (rule ids')
  show "i \<le> j" if "j \<in> pool_free ids" for j
  proof -
    from that have "\<not> bit ids (unat j)" by (simp add: pool_free_def)
    with next_scan_from_0 [of ids] have "\<not> unat j < unat ?r" by blast
    with i show ?thesis by (simp add: word_le_nat_alt)
  qed
qed

lemma InstanceId_next_Inl:
  "InstanceId_next ids = Inl e \<longleftrightarrow> e = RuntimeError \<and> pool_free ids = {}"
proof
  assume "InstanceId_next ids = Inl e"
  then have e: "e = RuntimeError" and full: "unat (next_scan ids 0) = maxInstanceIds"
    by (auto simp: InstanceId_next_def Let_def split: if_splits)
  from full next_scan_from_0 [of ids] have "pool_free ids = {}"
    by (auto simp: pool_free_def)
  with e show "e = RuntimeError \<and> pool_free ids = {}" by simp
next
  assume rhs: "e = RuntimeError \<and> pool_free ids = {}"
  have "unat (next_scan ids 0) = maxInstanceIds"
  proof (rule ccontr)
    assume "unat (next_scan ids 0) \<noteq> maxInstanceIds"
    with next_scan_from_0 [of ids] have "next_scan ids 0 \<in> pool_free ids"
      by (auto simp: pool_free_def)
    with rhs show False by simp
  qed
  with rhs show "InstanceId_next ids = Inl e" by (simp add: InstanceId_next_def)
qed

section \<open>What the manager holds\<close>

text \<open>
  The abstraction: the identifiers of an endpoint that are in use. \<open>getInstanceId\<close> and \<open>markFree\<close>
  are insertion and removal on that set.
\<close>

definition held :: "InstanceIdMgr \<Rightarrow> u8 \<Rightarrow> u8 set" where
  "held ids eid = {i. unat i < maxInstanceIds \<and> bit (ids_at ids eid) (unat i)}"

lemma ids_at_upd [simp]: "ids_at (ids(eid \<mapsto> p)) eid' = (if eid' = eid then p else ids_at ids eid')"
  by (simp add: ids_at_def)

lemma held_upd: "held (ids(eid \<mapsto> p)) eid' =
  (if eid' = eid then {i. unat i < maxInstanceIds \<and> bit p (unat i)} else held ids eid')"
  by (simp add: held_def)

lemma held_empty [simp]: "held Map.empty eid = {}"
  by (simp add: held_def ids_at_def)

lemma held_default: "ids eid = None \<Longrightarrow> held (ids(eid \<mapsto> 0)) = held ids"
  by (rule ext) (simp add: held_def ids_at_def)

lemma held_bound: "i \<in> held ids eid \<Longrightarrow> unat i < maxInstanceIds"
  by (simp add: held_def)

lemma pool_free_held: "pool_free (ids_at ids eid) = {i. unat i < maxInstanceIds} - held ids eid"
  by (auto simp: pool_free_def held_def)

lemma set_bit_held: "unat i < maxInstanceIds \<Longrightarrow>
  {j. unat j < maxInstanceIds \<and> bit (set_bit (unat i) (p :: InstanceId)) (unat j)} =
  insert i {j. unat j < maxInstanceIds \<and> bit p (unat j)}"
  by (auto simp: bit_set_bit_iff maxInstanceIds_def word_unat_eq_iff)

lemma unset_bit_held:
  "{j. unat j < maxInstanceIds \<and> bit (unset_bit (unat i) (p :: InstanceId)) (unat j)} =
  {j. unat j < maxInstanceIds \<and> bit p (unat j)} - {i :: u8}"
  by (auto simp: bit_unset_bit_iff word_unat_eq_iff)

lemma getInstanceId_Inr:
  assumes "getInstanceId eid ids = (Inr i, ids')"
  shows "unat i < maxInstanceIds" "i \<notin> held ids eid"
    "held ids' = (held ids)(eid := insert i (held ids eid))"
    "\<And>j. unat j < maxInstanceIds \<Longrightarrow> j \<notin> held ids eid \<Longrightarrow> i \<le> j"
proof -
  let ?ids1 = "if ids eid = None then ids(eid \<mapsto> 0) else ids"
  have h1: "held ?ids1 = held ids" by (simp add: held_default)
  from assms obtain pool where nx: "InstanceId_next (ids_at ?ids1 eid) = Inr (i, pool)"
    and ids': "ids' = ?ids1(eid \<mapsto> pool)"
    by (auto simp: getInstanceId_def Let_def split: sum.splits)
  note N = InstanceId_next_Inr [OF nx, unfolded pool_free_held h1]
  from N(1) show lt: "unat i < maxInstanceIds" and "i \<notin> held ids eid" by auto
  from N(2) lt have "held ids' eid = insert i (held ?ids1 eid)"
    by (simp only: ids' held_upd if_True set_bit_held) (simp add: held_def)
  then show "held ids' = (held ids)(eid := insert i (held ids eid))"
    unfolding h1 by (intro ext) (simp add: ids' held_upd h1 del: fun_upd_apply, simp add: held_def ids_at_def)
  show "i \<le> j" if "unat j < maxInstanceIds" "j \<notin> held ids eid" for j
    using N(3) that by simp
qed

lemma getInstanceId_Inl:
  assumes "getInstanceId eid ids = (Inl e, ids')"
  shows "e = TooManyResources" "held ids' = held ids" "held ids eid = {i. unat i < maxInstanceIds}"
proof -
  let ?ids1 = "if ids eid = None then ids(eid \<mapsto> 0) else ids"
  have h1: "held ?ids1 = held ids" by (simp add: held_default)
  from assms obtain e' where nx: "InstanceId_next (ids_at ?ids1 eid) = Inl e'"
    and "e = TooManyResources" "ids' = ?ids1"
    by (auto simp: getInstanceId_def Let_def split: sum.splits)
  then show "e = TooManyResources" "held ids' = held ids" using h1 by simp_all
  from nx have "pool_free (ids_at ?ids1 eid) = {}" by (simp add: InstanceId_next_Inl)
  then show "held ids eid = {i. unat i < maxInstanceIds}"
    unfolding pool_free_held h1 by (auto dest: held_bound)
qed

lemma markFree_Inr:
  assumes "markFree eid i ids = Inr ids'"
  shows "held ids' = (held ids)(eid := held ids eid - {i})"
proof -
  from assms have "ids' = ids(eid \<mapsto> unset_bit (unat i) (ids_at ids eid))"
    by (auto simp: markFree_def InstanceId_markFree_def split: if_splits)
  then have "held ids' eid' = (if eid' = eid then held ids eid - {i} else held ids eid')" for eid'
    by (simp add: held_upd unset_bit_held) (simp add: held_def)
  then show ?thesis by (simp add: fun_eq_iff)
qed

lemma markFree_ok: "unat i < maxInstanceIds \<Longrightarrow> \<exists>ids'. markFree eid i ids = Inr ids'"
  by (simp add: markFree_def InstanceId_markFree_def)

lemma markFree_Inl: "markFree eid i ids = Inl e \<longleftrightarrow> e = OutOfRange \<and> maxInstanceIds \<le> unat i"
  by (auto simp: markFree_def InstanceId_markFree_def)

section \<open>The interface: a pool of identifiers per key\<close>

text \<open>
  What a client may rely on: a drawn identifier was not held before and is held afterwards, the
  other keys are untouched, a draw fails only on a full pool of \<open>cap\<close> identifiers, and a release
  gives back exactly the named identifier.
\<close>

fun draw :: "('s \<Rightarrow> ('e + u8) \<times> 's) \<Rightarrow> nat \<Rightarrow> 's \<Rightarrow> u8 list \<times> 's" where
  "draw f 0 s = ([], s)"
| "draw f (Suc n) s =
     (case f s of
        (Inl e, s') \<Rightarrow> ([], s')
      | (Inr i, s') \<Rightarrow> (let (is, s'') = draw f n s' in (i # is, s'')))"

locale id_pool =
  fixes alloc :: "'k \<Rightarrow> 's \<Rightarrow> ('e + u8) \<times> 's"
    and release :: "'k \<Rightarrow> u8 \<Rightarrow> 's \<Rightarrow> 'e + 's"
    and holds :: "'s \<Rightarrow> 'k \<Rightarrow> u8 set"
  assumes alloc_fresh: "alloc k s = (Inr i, s') \<Longrightarrow> i \<notin> holds s k"
    and alloc_holds: "alloc k s = (Inr i, s') \<Longrightarrow> holds s' = (holds s)(k := insert i (holds s k))"
    and alloc_fails: "alloc k s = (Inl e, s') \<Longrightarrow> holds s' = holds s"
    and release_holds: "release k i s = Inr s' \<Longrightarrow> holds s' = (holds s)(k := holds s k - {i})"
begin

lemma alloc_frame: "alloc k s = (r, s') \<Longrightarrow> k' \<noteq> k \<Longrightarrow> holds s' k' = holds s k'"
  by (cases r) (auto dest: alloc_holds alloc_fails)

lemma alloc_mono: "alloc k s = (r, s') \<Longrightarrow> holds s k' \<subseteq> holds s' k'"
  by (cases r) (auto dest!: alloc_holds alloc_fails)

text \<open>What was drawn and not released is never drawn again.\<close>

lemma draw_fresh:
  "draw (alloc k) n s = (is, s') \<Longrightarrow>
   distinct is \<and> set is \<inter> holds s k = {} \<and> holds s' = (holds s)(k := holds s k \<union> set is)"
proof (induction n arbitrary: s "is" s')
  case 0
  then show ?case by (simp add: fun_eq_iff)
next
  case (Suc n)
  show ?case
  proof (cases "alloc k s")
    case (Pair r t)
    show ?thesis
    proof (cases r)
      case (Inl e)
      with Pair Suc.prems have "is = []" "s' = t" by auto
      with Pair Inl show ?thesis by (auto dest: alloc_fails)
    next
      case (Inr i)
      with Pair Suc.prems obtain js where js: "draw (alloc k) n t = (js, s')" "is = i # js"
        by (auto split: prod.splits)
      from Pair Inr have t: "i \<notin> holds s k" "holds t = (holds s)(k := insert i (holds s k))"
        by (auto dest: alloc_fresh alloc_holds)
      from Suc.IH [OF js(1)] t js(2) show ?thesis by (auto simp: fun_eq_iff)
    qed
  qed
qed

lemma release_alloc_neq:
  assumes "alloc k s = (Inr i, s')" and "release k j s' = Inr s''" and "j \<noteq> i"
  shows "i \<in> holds s'' k"
  using alloc_holds [OF assms(1)] release_holds [OF assms(2)] assms(3) by auto

end

locale bounded_id_pool = id_pool +
  fixes cap :: nat
  assumes holds_finite: "finite (holds s k)" and holds_cap: "card (holds s k) \<le> cap"
    and alloc_full: "alloc k s = (Inl e, s') \<Longrightarrow> card (holds s k) = cap"
begin

lemma alloc_at_cap: "card (holds s k) = cap \<Longrightarrow> \<exists>e s'. alloc k s = (Inl e, s')"
proof (cases "alloc k s")
  fix r s' assume full: "card (holds s k) = cap" and a: "alloc k s = (r, s')"
  show ?thesis
  proof (cases r)
    case (Inr i)
    with a have "i \<notin> holds s k" "holds s' k = insert i (holds s k)"
      by (auto dest: alloc_fresh alloc_holds)
    with holds_finite have "card (holds s' k) = Suc cap" by (simp add: full)
    with holds_cap [of s' k] show ?thesis by simp
  qed (use a in auto)
qed

text \<open>A run of draws yields as many identifiers as there is room for, and no more.\<close>

lemma draw_length:
  "draw (alloc k) n s = (is, s') \<Longrightarrow> length is = min n (cap - card (holds s k))"
proof (induction n arbitrary: s "is" s')
  case 0
  then show ?case by simp
next
  case (Suc n)
  show ?case
  proof (cases "alloc k s")
    case (Pair r t)
    show ?thesis
    proof (cases r)
      case (Inl e)
      with Pair Suc.prems have "is = []" by auto
      with Pair Inl show ?thesis by (simp add: alloc_full)
    next
      case (Inr i)
      with Pair Suc.prems obtain js where js: "draw (alloc k) n t = (js, s')" "is = i # js"
        by (auto split: prod.splits)
      from Pair Inr have "i \<notin> holds s k" "holds t k = insert i (holds s k)"
        by (auto dest: alloc_fresh alloc_holds)
      with holds_finite have c: "card (holds t k) = Suc (card (holds s k))" by simp
      with holds_cap [of t k] Suc.IH [OF js(1)] js(2) show ?thesis by simp
    qed
  qed
qed

end

lemma card_all_ids: "card {i :: u8. unat i < maxInstanceIds} = maxInstanceIds"
proof -
  have "{i :: u8. unat i < maxInstanceIds} = of_nat ` {..<maxInstanceIds}"
  proof (intro set_eqI iffI)
    fix i :: u8 assume "i \<in> {i. unat i < maxInstanceIds}"
    then show "i \<in> of_nat ` {..<maxInstanceIds}" by (intro image_eqI [of _ _ "unat i"]) simp_all
  qed (auto simp: maxInstanceIds_def unat_of_nat)
  moreover have "inj_on (of_nat :: nat \<Rightarrow> u8) {..<maxInstanceIds}"
    by (rule inj_onI) (auto simp: maxInstanceIds_def word_of_nat_eq_iff take_bit_eq_mod)
  ultimately show ?thesis by (simp add: card_image)
qed

interpretation iid: bounded_id_pool getInstanceId markFree held maxInstanceIds
proof (unfold_locales, goal_cases)
  case (1 k s i s') then show ?case by (rule getInstanceId_Inr)
next
  case (2 k s i s') then show ?case by (rule getInstanceId_Inr)
next
  case (3 k s e s') then show ?case by (rule getInstanceId_Inl)
next
  case (4 k i s s') then show ?case by (rule markFree_Inr)
next
  case (5 s k) show ?case by simp
next
  case (6 s k)
  have "held s k \<subseteq> {i. unat i < maxInstanceIds}" by (auto dest: held_bound)
  then show ?case using card_mono [of "{i :: u8. unat i < maxInstanceIds}"] card_all_ids by simp
next
  case (7 k s e s') then show ?case using getInstanceId_Inl(3) card_all_ids by simp
qed

section \<open>Properties\<close>

text \<open>
  C36: \<open>getInstanceId\<close> hands out the lowest free identifier of the endpoint, marks it in use and
  touches no other endpoint; it fails, with \<open>TooManyResources\<close> and without changing what is held,
  exactly when all 32 identifiers of the endpoint are in use.
\<close>

theorem getInstanceId_correct:
  "case getInstanceId eid ids of
     (Inr i, ids') \<Rightarrow>
       i \<notin> held ids eid \<and> unat i < 32 \<and> {j. j < i} \<subseteq> held ids eid
       \<and> held ids' = (held ids)(eid := insert i (held ids eid))
   | (Inl e, ids') \<Rightarrow> e = TooManyResources \<and> held ids' = held ids \<and> card (held ids eid) = 32"
proof (cases "getInstanceId eid ids")
  case (Pair r ids')
  show ?thesis
  proof (cases r)
    case (Inl e)
    with getInstanceId_Inl [of eid ids e ids'] Pair card_all_ids show ?thesis
      by (simp add: maxInstanceIds_def)
  next
    case (Inr i)
    note G = getInstanceId_Inr [of eid ids i ids', unfolded Pair Inr, OF refl]
    have "j \<in> held ids eid" if "j < i" for j
    proof (rule ccontr)
      assume "j \<notin> held ids eid"
      moreover have "unat j < maxInstanceIds" using that G(1) by (simp add: word_less_nat_alt)
      ultimately show False using G(4) [of j] that by simp
    qed
    with G Pair Inr show ?thesis by (auto simp: maxInstanceIds_def)
  qed
qed

text \<open>
  Identifiers drawn for an endpoint and not yet released are pairwise distinct and differ from
  those in use before, and a run of \<open>n\<close> draws yields as many as there is room for in the 32.
\<close>

theorem drawn_ids_distinct:
  assumes "draw (getInstanceId eid) n ids = (is, ids')"
  shows "distinct is \<and> set is \<inter> held ids eid = {} \<and> held ids' eid = held ids eid \<union> set is
    \<and> length is = min n (32 - card (held ids eid))"
  using iid.draw_fresh [OF assms] iid.draw_length [OF assms] by (simp add: maxInstanceIds_def)

theorem drawn_ids_distinct_witness:
  "length (fst (draw (getInstanceId 9) 40 Map.empty)) = 32
   \<and> distinct (fst (draw (getInstanceId 9) 40 Map.empty))"
proof -
  obtain "is" ids' where d: "draw (getInstanceId 9) 40 Map.empty = (is, ids')" by (metis surj_pair)
  from drawn_ids_distinct [OF d] d show ?thesis by simp
qed

text \<open>
  An identifier handed out can be given back, after which exactly the identifiers held before
  are held; \<open>markFree\<close> throws \<open>out_of_range\<close> exactly for identifiers past the 32.
\<close>

theorem release_undoes_draw:
  assumes "getInstanceId eid ids = (Inr i, ids1)"
  shows "(\<exists>ids2. markFree eid i ids1 = Inr ids2 \<and> held ids2 = held ids)
    \<and> (\<forall>j. (markFree eid j ids1 = Inl OutOfRange) = (32 \<le> unat j))"
proof -
  note G = getInstanceId_Inr [OF assms]
  from markFree_ok [OF G(1)] obtain ids2 where m: "markFree eid i ids1 = Inr ids2" by blast
  have "held ids2 = held ids"
    unfolding markFree_Inr [OF m] G(3) using G(2) by (simp add: fun_upd_idem_iff)
  with m show ?thesis by (auto simp: markFree_Inl maxInstanceIds_def)
qed

theorem release_undoes_draw_witness:
  "\<exists>ids1 ids2. getInstanceId 9 [9 \<mapsto> 1] = (Inr 1, ids1) \<and> markFree 9 1 ids1 = Inr ids2
     \<and> held ids2 = held [9 \<mapsto> 1]"
proof -
  have d: "getInstanceId 9 [9 \<mapsto> 1] = (Inr 1, [9 \<mapsto> 3])"
    by (simp add: getInstanceId_def ids_at_def InstanceId_next_def next_scan.simps maxInstanceIds_def
        set_bit_eq)
  from release_undoes_draw [OF d] d show ?thesis by blast
qed

end
