(* ===== verification/VdmMessage.thy ===== *)
theory VdmMessage
  imports Prelude
begin

text \<open>
  The MCTP vendor-defined message (\<open>oem/nvidia/types.hpp\<close>, \<open>constants.hpp\<close>,
  \<open>mctp_vdm_completion_codes.hpp\<close>): the packed header with its bit fields, its bytes in memory, the
  request that \<open>setTimeOnErot\<close> fills in, the frame the transports put before it and the requester's
  key with its hash. Multi-byte integers are stored by a little-endian target and converted by
  \<open>htobe32\<close> and \<open>htobe64\<close>, as the code does.
\<close>

unbundle bit_operations_syntax

section \<open>Constants\<close>

definition messageType :: u8 where "messageType = 0x7F"
definition nvidiaIANA :: u32 where "nvidiaIANA = 5703"
definition nvidiaMsgType :: u8 where "nvidiaMsgType = 1"
definition nvidiaMsgVersion :: u8 where "nvidiaMsgVersion = 1"
definition addExtTimestamp :: u8 where "addExtTimestamp = 0x13"
definition addExtTimestampRespBytes :: nat where "addExtTimestampRespBytes = 1"
definition numCommandRetries :: u8 where "numCommandRetries = 3"

lemmas vdm_constants = messageType_def nvidiaIANA_def nvidiaMsgType_def nvidiaMsgVersion_def
  addExtTimestamp_def addExtTimestampRespBytes_def numCommandRetries_def

datatype CompletionCodes =
  Success | ErrGeneral | ErrInvalidData | ErrInvalidLength | ErrNotReady | ErrUnsupportedCmd

fun cc_val :: "CompletionCodes \<Rightarrow> u8" where
  "cc_val Success = 0x00"
| "cc_val ErrGeneral = 0x01"
| "cc_val ErrInvalidData = 0x02"
| "cc_val ErrInvalidLength = 0x03"
| "cc_val ErrNotReady = 0x04"
| "cc_val ErrUnsupportedCmd = 0x05"

section \<open>Integers in memory\<close>

definition byte_at :: "nat \<Rightarrow> 'a::len word \<Rightarrow> u8" where
  "byte_at k w = ucast (drop_bit (8 * k) w)"

definition store32 :: "u32 \<Rightarrow> bytes" where
  "store32 w = [byte_at 0 w, byte_at 1 w, byte_at 2 w, byte_at 3 w]"

definition store64 :: "u64 \<Rightarrow> bytes" where
  "store64 w = [byte_at 0 w, byte_at 1 w, byte_at 2 w, byte_at 3 w,
                byte_at 4 w, byte_at 5 w, byte_at 6 w, byte_at 7 w]"

definition load32 :: "u8 \<Rightarrow> u8 \<Rightarrow> u8 \<Rightarrow> u8 \<Rightarrow> u32" where
  "load32 b0 b1 b2 b3 =
     ucast b0 OR push_bit 8 (ucast b1) OR push_bit 16 (ucast b2) OR push_bit 24 (ucast b3)"

definition load64 :: "u8 \<Rightarrow> u8 \<Rightarrow> u8 \<Rightarrow> u8 \<Rightarrow> u8 \<Rightarrow> u8 \<Rightarrow> u8 \<Rightarrow> u8 \<Rightarrow> u64" where
  "load64 b0 b1 b2 b3 b4 b5 b6 b7 =
     ucast b0 OR push_bit 8 (ucast b1) OR push_bit 16 (ucast b2) OR push_bit 24 (ucast b3)
     OR push_bit 32 (ucast b4) OR push_bit 40 (ucast b5) OR push_bit 48 (ucast b6)
     OR push_bit 56 (ucast b7)"

text \<open>On a little-endian target \<open>htobe\<close> swaps the bytes.\<close>

definition htobe32 :: "u32 \<Rightarrow> u32" where
  "htobe32 w = load32 (byte_at 3 w) (byte_at 2 w) (byte_at 1 w) (byte_at 0 w)"

definition htobe64 :: "u64 \<Rightarrow> u64" where
  "htobe64 w = load64 (byte_at 7 w) (byte_at 6 w) (byte_at 5 w) (byte_at 4 w)
                      (byte_at 3 w) (byte_at 2 w) (byte_at 1 w) (byte_at 0 w)"

lemma bit_u8_high: "8 \<le> n \<Longrightarrow> \<not> bit (b :: u8) n"
  using bit_imp_le_length [of b n] by auto

lemma store32_load32: "store32 (load32 b0 b1 b2 b3) = [b0, b1, b2, b3]"
  by (auto simp: store32_def load32_def byte_at_def bit_simps bit_u8_high
      intro!: bit_word_eqI)

lemma store64_load64: "store64 (load64 b0 b1 b2 b3 b4 b5 b6 b7) = [b0, b1, b2, b3, b4, b5, b6, b7]"
  by (auto simp: store64_def load64_def byte_at_def bit_simps bit_u8_high
      intro!: bit_word_eqI)

lemma load32_bytes: "load32 (byte_at 0 w) (byte_at 1 w) (byte_at 2 w) (byte_at 3 w) = w"
proof (rule bit_word_eqI)
  fix n assume n: "n < LENGTH(32)"
  consider "n < 8" | "8 \<le> n" "n < 16" | "16 \<le> n" "n < 24" | "24 \<le> n" by linarith
  then show "bit (load32 (byte_at 0 w) (byte_at 1 w) (byte_at 2 w) (byte_at 3 w)) n = bit w n"
    by cases (use n in \<open>simp_all add: load32_def byte_at_def bit_simps less_diff_conv2\<close>)
qed

lemma load64_bytes:
  "load64 (byte_at 0 w) (byte_at 1 w) (byte_at 2 w) (byte_at 3 w)
          (byte_at 4 w) (byte_at 5 w) (byte_at 6 w) (byte_at 7 w) = w"
proof (rule bit_word_eqI)
  fix n assume n: "n < LENGTH(64)"
  consider "n < 8" | "8 \<le> n" "n < 16" | "16 \<le> n" "n < 24" | "24 \<le> n" "n < 32"
    | "32 \<le> n" "n < 40" | "40 \<le> n" "n < 48" | "48 \<le> n" "n < 56" | "56 \<le> n" by linarith
  then show "bit (load64 (byte_at 0 w) (byte_at 1 w) (byte_at 2 w) (byte_at 3 w)
          (byte_at 4 w) (byte_at 5 w) (byte_at 6 w) (byte_at 7 w)) n = bit w n"
    by cases (use n in \<open>simp_all add: load64_def byte_at_def bit_simps less_diff_conv2\<close>)
qed

lemma load_store32: "store32 w = [b0, b1, b2, b3] \<Longrightarrow> load32 b0 b1 b2 b3 = w"
  using load32_bytes [of w] by (simp add: store32_def)

lemma store32_htobe32: "store32 (htobe32 w) = rev (store32 w)"
  unfolding htobe32_def store32_load32 by (simp add: store32_def)

lemma store64_htobe64: "store64 (htobe64 w) = rev (store64 w)"
  unfolding htobe64_def store64_load64 by (simp add: store64_def)

section \<open>The packed header\<close>

text \<open>
  \<open>MsgHeader\<close>: the bit fields are words of their width. The fourth byte holds them from the low
  bit up, in the order the little-endian branch of the declaration lists them.
\<close>

record MsgHeader =
  hdr_iana :: u32
  hdr_instanceId :: "5 word"
  hdr_reserved :: "1 word"
  hdr_datagram :: "1 word"
  hdr_request :: "1 word"
  hdr_msgType :: u8
  hdr_commandCode :: u8
  hdr_msgVersion :: u8

definition sizeof_MsgHeader :: nat where
  "sizeof_MsgHeader = 8"

definition bitfield_byte :: "MsgHeader \<Rightarrow> u8" where
  "bitfield_byte h = ucast (hdr_instanceId h) OR push_bit 5 (ucast (hdr_reserved h))
     OR push_bit 6 (ucast (hdr_datagram h)) OR push_bit 7 (ucast (hdr_request h))"

definition header_bytes :: "MsgHeader \<Rightarrow> bytes" where
  "header_bytes h =
     store32 (hdr_iana h) @ [bitfield_byte h, hdr_msgType h, hdr_commandCode h, hdr_msgVersion h]"

text \<open>
  Reads through \<open>reinterpret_cast<const Message*>(data)\<close> touch one byte of the buffer each; a byte
  past the buffer's end is undefined behaviour.
\<close>

definition read_byte :: "bytes \<Rightarrow> nat \<Rightarrow> exn + u8" where
  "read_byte bs i = (if i < length bs then Inr (bs ! i) else Inl UndefinedBehaviour)"

definition read_request :: "bytes \<Rightarrow> exn + 1 word" where
  "read_request bs = bindR (read_byte bs 4) (\<lambda>b. Inr (ucast (drop_bit 7 b)))"

definition read_instanceId :: "bytes \<Rightarrow> exn + u8" where
  "read_instanceId bs = bindR (read_byte bs 4) (\<lambda>b. Inr (ucast (ucast b :: 5 word)))"

definition read_msgType :: "bytes \<Rightarrow> exn + u8" where
  "read_msgType bs = read_byte bs 5"

definition read_commandCode :: "bytes \<Rightarrow> exn + u8" where
  "read_commandCode bs = read_byte bs 6"

definition read_payload0 :: "bytes \<Rightarrow> exn + u8" where
  "read_payload0 bs = read_byte bs sizeof_MsgHeader"

lemmas read_defs = read_byte_def read_request_def read_instanceId_def read_msgType_def
  read_commandCode_def read_payload0_def

text \<open>The whole header as a struct, to state that its bytes determine it and conversely.\<close>

definition load_header :: "bytes \<Rightarrow> MsgHeader option" where
  "load_header bs =
     (case bs of
        b0 # b1 # b2 # b3 # f # t # c # v # rest \<Rightarrow>
          Some \<lparr>hdr_iana = load32 b0 b1 b2 b3,
                hdr_instanceId = ucast f,
                hdr_reserved = ucast (drop_bit 5 f),
                hdr_datagram = ucast (drop_bit 6 f),
                hdr_request = ucast (drop_bit 7 f),
                hdr_msgType = t, hdr_commandCode = c, hdr_msgVersion = v\<rparr>
      | _ \<Rightarrow> None)"

lemma length_header_bytes [simp]: "length (header_bytes h) = sizeof_MsgHeader"
  by (simp add: header_bytes_def store32_def sizeof_MsgHeader_def)

lemma bit_field_high: "LENGTH('a::len) \<le> n \<Longrightarrow> \<not> bit (w :: 'a word) n"
  using bit_imp_le_length [of w n] by auto

lemma bitfield_byte_fields:
  "(ucast (bitfield_byte h) :: 5 word) = hdr_instanceId h"
  "(ucast (drop_bit 5 (bitfield_byte h)) :: 1 word) = hdr_reserved h"
  "(ucast (drop_bit 6 (bitfield_byte h)) :: 1 word) = hdr_datagram h"
  "(ucast (drop_bit 7 (bitfield_byte h)) :: 1 word) = hdr_request h"
  by (auto simp: bitfield_byte_def bit_simps bit_field_high intro!: bit_word_eqI)

lemma bitfield_byte_surj:
  "bitfield_byte \<lparr>hdr_iana = i, hdr_instanceId = ucast f, hdr_reserved = ucast (drop_bit 5 f),
     hdr_datagram = ucast (drop_bit 6 f), hdr_request = ucast (drop_bit 7 f),
     hdr_msgType = t, hdr_commandCode = c, hdr_msgVersion = v\<rparr> = f"
proof (rule bit_word_eqI)
  fix n assume "n < LENGTH(8)"
  then consider "n < 5" | "n = 5" | "n = 6" | "n = 7" by force
  then show "bit (bitfield_byte \<lparr>hdr_iana = i, hdr_instanceId = ucast f,
     hdr_reserved = ucast (drop_bit 5 f), hdr_datagram = ucast (drop_bit 6 f),
     hdr_request = ucast (drop_bit 7 f),
     hdr_msgType = t, hdr_commandCode = c, hdr_msgVersion = v\<rparr>) n = bit f n"
    by cases (simp_all add: bitfield_byte_def bit_simps)
qed

lemma load_header_bytes: "load_header (header_bytes h @ rest) = Some h"
proof -
  have "load32 (byte_at 0 w) (byte_at 1 w) (byte_at 2 w) (byte_at 3 w) = w" for w
    by (rule load32_bytes)
  then show ?thesis
    by (simp add: load_header_def header_bytes_def store32_def bitfield_byte_fields)
qed

lemma header_bytes_load: "load_header bs = Some h \<Longrightarrow> header_bytes h = take sizeof_MsgHeader bs"
  by (auto simp: load_header_def header_bytes_def store32_load32 bitfield_byte_surj
      sizeof_MsgHeader_def split: list.splits)

section \<open>The request to set the external timestamp\<close>

text \<open>
  \<open>setTimeOnErot\<close> value-initialises a vector of header and payload size, fills the header through a
  pointer to its start and copies the big-endian time behind it. The identifier is a \<open>uint8_t\<close>
  assigned to a five-bit field.
\<close>

definition addExtTimestamp_header :: "u8 \<Rightarrow> MsgHeader" where
  "addExtTimestamp_header instance =
     \<lparr>hdr_iana = htobe32 nvidiaIANA, hdr_instanceId = ucast instance,
      hdr_reserved = 0, hdr_datagram = 0, hdr_request = 1,
      hdr_msgType = nvidiaMsgType, hdr_commandCode = addExtTimestamp,
      hdr_msgVersion = nvidiaMsgVersion\<rparr>"

definition addExtTimestamp_request :: "u8 \<Rightarrow> u64 \<Rightarrow> bytes" where
  "addExtTimestamp_request instance epochElapsedTime =
     header_bytes (addExtTimestamp_header instance) @ store64 (htobe64 epochElapsedTime)"

lemma length_addExtTimestamp_request [simp]: "length (addExtTimestamp_request i t) = 16"
  by (simp add: addExtTimestamp_request_def store64_def sizeof_MsgHeader_def)

lemma store32_iana: "store32 (htobe32 nvidiaIANA) = [0, 0, 0x16, 0x47]"
  by (simp add: store32_htobe32) (simp add: store32_def byte_at_def nvidiaIANA_def)

lemma bitfield_request: "bitfield_byte (addExtTimestamp_header i) = 0x80 OR (i AND 0x1F)"
proof (rule bit_word_eqI)
  fix n assume "n < LENGTH(8)"
  then consider "n = 0" | "n = 1" | "n = 2" | "n = 3" | "n = 4" | "n = 5" | "n = 6" | "n = 7"
    by force
  then show "bit (bitfield_byte (addExtTimestamp_header i)) n = bit (0x80 OR (i AND 0x1F)) n"
    by cases (simp_all add: bitfield_byte_def addExtTimestamp_header_def bit_simps
        bit_numeral_rec bit_1_iff)
qed

section \<open>The requester's key\<close>

datatype RequestKey =
  RequestKey (key_eid: u8) (key_instanceId: u8) (key_type: u8) (key_command: u8)

text \<open>\<open>RequestKeyHasher\<close> computes in \<open>int\<close> and converts the result to \<open>size_t\<close>, sign-extending.\<close>

definition RequestKeyHasher :: "RequestKey \<Rightarrow> u64" where
  "RequestKeyHasher key =
     scast (push_bit 24 (ucast (key_eid key)) OR push_bit 16 (ucast (key_instanceId key))
            OR push_bit 8 (ucast (key_type key)) OR ucast (key_command key) :: u32)"

text \<open>\<open>await_suspend\<close> reads the key's fields back from the request's bytes.\<close>

definition request_key :: "u8 \<Rightarrow> bytes \<Rightarrow> exn + RequestKey" where
  "request_key eid bs =
     bindR (read_instanceId bs) (\<lambda>i.
     bindR (read_msgType bs) (\<lambda>t.
     bindR (read_commandCode bs) (\<lambda>c. Inr (RequestKey eid i t c))))"

lemma instanceId_field_id:
  assumes "unat (i :: u8) < 32"
  shows "ucast (ucast (0x80 OR (i AND 0x1F)) :: 5 word) = i"
proof (rule bit_word_eqI)
  fix n assume "n < LENGTH(8)"
  then consider "n = 0" | "n = 1" | "n = 2" | "n = 3" | "n = 4" | "n = 5" | "n = 6" | "n = 7"
    by force
  moreover have "\<not> bit i n" if "5 \<le> n" for n
  proof -
    from assms that have "unat i < 2 ^ n"
      using power_increasing [OF that, of "2 :: nat"] by simp
    then have "\<not> bit (unat i) n" by (simp add: bit_iff_odd)
    then show ?thesis by (simp add: bit_simps)
  qed
  ultimately show "bit (ucast (ucast (0x80 OR (i AND 0x1F)) :: 5 word) :: u8) n = bit i n"
    by cases (simp_all add: bit_simps bit_numeral_rec bit_1_iff)
qed

lemma addExtTimestamp_request_bytes:
  "addExtTimestamp_request i t =
     [0, 0, 0x16, 0x47, 0x80 OR (i AND 0x1F), 1, 0x13, 1] @ rev (store64 t)"
  by (simp add: addExtTimestamp_request_def header_bytes_def bitfield_request store64_htobe64)
    (simp add: addExtTimestamp_header_def store32_iana nvidiaMsgType_def addExtTimestamp_def
      nvidiaMsgVersion_def)

lemma request_key_built:
  assumes "unat i < 32"
  shows "request_key eid (addExtTimestamp_request i t) = Inr (RequestKey eid i 1 0x13)"
  using instanceId_field_id [OF assms]
  by (simp add: request_key_def read_defs addExtTimestamp_request_bytes)

lemma and_mask5: "unat (i :: u8) < 32 \<Longrightarrow> i AND 0x1F = i"
proof -
  assume "unat i < 32"
  then have "take_bit 5 i = i"
    by (simp add: word_unat_eq_iff unsigned_take_bit_eq take_bit_nat_eq_self_iff)
  then show ?thesis by (simp add: take_bit_eq_mask mask_numeral)
qed

lemma scast32_inj: "(scast (v :: u32) :: u64) = scast w \<Longrightarrow> v = w"
proof (rule bit_word_eqI)
  fix n assume eq: "(scast v :: u64) = scast w" and n: "n < LENGTH(32)"
  have "bit (scast u :: u64) n = bit u n" for u :: u32
    using n by (simp add: bit_simps)
  with eq show "bit v n = bit w n" by metis
qed

lemma RequestKeyHasher_load32:
  "RequestKeyHasher key =
     scast (load32 (key_command key) (key_type key) (key_instanceId key) (key_eid key))"
  by (simp add: RequestKeyHasher_def load32_def ac_simps)

section \<open>Properties\<close>

text \<open>
  The header's struct and its eight bytes determine each other: the bytes of any header, with
  anything behind them, read back as that header, and any eight bytes are the bytes of the header
  they read as, so no field overlaps another and no bit is lost.
\<close>

theorem header_roundtrip:
  "load_header (header_bytes h @ payload) = Some h
   \<and> map_option header_bytes (load_header [b0, b1, b2, b3, b4, b5, b6, b7])
       = Some [b0, b1, b2, b3, b4, b5, b6, b7]"
proof
  show "load_header (header_bytes h @ payload) = Some h" by (rule load_header_bytes)
  obtain h' where "load_header [b0, b1, b2, b3, b4, b5, b6, b7] = Some h'"
    by (simp add: load_header_def)
  with header_bytes_load [OF this] show "map_option header_bytes (load_header [b0, b1, b2, b3, b4, b5, b6, b7])
       = Some [b0, b1, b2, b3, b4, b5, b6, b7]"
    by (simp add: sizeof_MsgHeader_def)
qed

text \<open>
  C37: the request put on the wire is sixteen bytes: the IANA number 5703 in network order, the
  request bit with the five-bit identifier, message type 1, command 0x13, version 1, and the time
  in network order; and the key the requester later computes from those bytes is the one made of
  the endpoint and the allocated identifier, for every identifier the pool can hand out.
\<close>

theorem request_wire_layout:
  assumes "unat i < 32"
  shows "addExtTimestamp_request i t =
      [0, 0, 0x16, 0x47, 0x80 OR i, 1, 0x13, 1] @ rev (store64 t)
    \<and> request_key eid (addExtTimestamp_request i t)
        = Inr (RequestKey eid i nvidiaMsgType addExtTimestamp)"
proof
  have "i AND 0x1F = i"
    using assms by (rule and_mask5)
  then show "addExtTimestamp_request i t =
      [0, 0, 0x16, 0x47, 0x80 OR i, 1, 0x13, 1] @ rev (store64 t)"
    by (simp add: addExtTimestamp_request_bytes)
  show "request_key eid (addExtTimestamp_request i t)
        = Inr (RequestKey eid i nvidiaMsgType addExtTimestamp)"
    by (simp add: request_key_built [OF assms] nvidiaMsgType_def addExtTimestamp_def)
qed

theorem request_wire_layout_witness:
  "addExtTimestamp_request 7 0x0102030405060708 =
     [0, 0, 0x16, 0x47, 0x87, 1, 0x13, 1, 1, 2, 3, 4, 5, 6, 7, 8]"
proof -
  have "unat (7 :: u8) < 32" by simp
  from request_wire_layout [OF this] have "addExtTimestamp_request 7 0x0102030405060708 =
      [0, 0, 0x16, 0x47, 0x80 OR 7, 1, 0x13, 1] @ rev (store64 0x0102030405060708)" by blast
  then show ?thesis by (simp add: store64_def byte_at_def)
qed

text \<open>
  The hash of the requester's table is injective: two keys collide exactly when they are equal.
\<close>

theorem RequestKeyHasher_injective:
  "(RequestKeyHasher k = RequestKeyHasher k') = (k = k')"
proof
  assume "RequestKeyHasher k = RequestKeyHasher k'"
  then have "store32 (load32 (key_command k) (key_type k) (key_instanceId k) (key_eid k))
    = store32 (load32 (key_command k') (key_type k') (key_instanceId k') (key_eid k'))"
    unfolding RequestKeyHasher_load32 by (metis scast32_inj)
  then show "k = k'" unfolding store32_load32 by (cases k; cases k') simp
qed simp

end
