(* ===== verification/DBusTypes.thy ===== *)
theory DBusTypes
  imports Prelude
begin

text \<open>
  D-Bus values as the ERoT time manager reads them (\<open>oem/nvidia/types.hpp\<close>): the variant
  \<open>dbus::Value\<close>, property and interface maps, and the accessors \<open>std::get\<close>, \<open>map::at\<close> and
  \<open>map::contains\<close>. A \<open>std::map\<close> is an association list in key order. \<open>size_t\<close> is \<open>uint64_t\<close>, as on
  the 64-bit targets of the daemon. A \<open>double\<close> is carried as its bit pattern, which no code reads.
\<close>

datatype dbus_value =
    V_bool bool
  | V_uint8 u8
  | V_int16 "16 word"
  | V_uint16 "16 word"
  | V_int32 u32
  | V_uint32 u32
  | V_int64 u64
  | V_uint64 u64
  | V_double u64
  | V_string string
  | V_bytes bytes

type_synonym property_map = "(string \<times> dbus_value) list"
type_synonym interface_map = "(string \<times> property_map) list"
type_synonym object_tree = "(string \<times> interface_map) list"

text \<open>\<open>std::get\<close> throws \<open>bad_variant_access\<close> for another alternative.\<close>

fun get_uint64 :: "dbus_value \<Rightarrow> exn + u64" where
  "get_uint64 (V_uint64 n) = Inr n"
| "get_uint64 _ = Inl BadVariantAccess"

fun get_string :: "dbus_value \<Rightarrow> exn + string" where
  "get_string (V_string s) = Inr s"
| "get_string _ = Inl BadVariantAccess"

fun get_bytes :: "dbus_value \<Rightarrow> exn + bytes" where
  "get_bytes (V_bytes bs) = Inr bs"
| "get_bytes _ = Inl BadVariantAccess"

text \<open>\<open>map::at\<close> throws \<open>out_of_range\<close> for a missing key.\<close>

definition map_at :: "string \<Rightarrow> (string \<times> 'v) list \<Rightarrow> exn + 'v" where
  "map_at k m = (case map_of m k of None \<Rightarrow> Inl OutOfRange | Some v \<Rightarrow> Inr v)"

lemma map_at_eq [simp]:
  "map_at k m = Inr v \<longleftrightarrow> map_of m k = Some v"
  "map_at k m = Inl e \<longleftrightarrow> e = OutOfRange \<and> map_of m k = None"
  by (auto simp: map_at_def split: option.splits)

lemma get_eq:
  "get_uint64 v = Inr n \<longleftrightarrow> v = V_uint64 n"
  "get_string v = Inr s \<longleftrightarrow> v = V_string s"
  "get_bytes v = Inr b \<longleftrightarrow> v = V_bytes b"
  by (cases v; simp)+

end
