(* ===== verification/Effects.thy ===== *)
theory Effects
  imports VdmMessage DBusTypes
begin

text \<open>
  What the ERoT time manager asks of the world outside its sources, and how the model asks for it.
  Every system call, timer start and log request is an \<open>io\<close> value; issuing one appends it to a log
  and returns what the \<open>platform\<close>, a parameter of the whole development, answers to that request
  after that history. A negative answer stands for failure: the call returned \<open>-1\<close> with
  \<open>errno\<close> the answer's magnitude, or, for a timer, threw.
\<close>

datatype io =
    IO_sendmsg int bytes             \<comment> \<open>\<open>sendmsg\<close> on a demux-daemon socket: the gathered vectors\<close>
  | IO_sendto int u8 bytes           \<comment> \<open>\<open>sendto\<close> on the in-kernel socket, to an endpoint\<close>
  | IO_retry_timer_start             \<comment> \<open>arming a request's periodic timer\<close>
  | IO_expiry_timer_start            \<comment> \<open>arming an entry's instance-identifier timer\<close>
  | IO_socket_unix int int           \<comment> \<open>\<open>socket(AF_UNIX, type, protocol)\<close>\<close>
  | IO_connect int bytes
  | IO_write int bytes
  | IO_socket_mctp                   \<comment> \<open>\<open>socket(AF_MCTP, SOCK_DGRAM, 0)\<close>\<close>
  | IO_getsockopt int
  | IO_bind int
  | IO_close int
  | IO_event_exit int                \<comment> \<open>\<open>event.exit\<close>: the loop ends with this code\<close>
  | IO_get_elapsed                   \<comment> \<open>\<open>Properties.Get\<close> of the time manager's \<open>Elapsed\<close>\<close>
  | IO_get_managed_objects           \<comment> \<open>\<open>GetManagedObjects\<close> of PLDM\<close>
  | IO_create_log string string      \<comment> \<open>\<open>Logging.Create\<close>: message arguments, resolution\<close>

datatype transport = DaemonRequest | InKernelRequest

text \<open>
  The build-time and run-time choices the sources leave to others: the template argument
  (\<open>MCTP_IN_KERNEL\<close>), the tag byte \<open>LIBMCTP_TAG_OWNER_MASK | MCTP_TAG_VDM\<close> of libmctp's header, the
  answers of the system, the iteration order of the hash tables, the replies to the two D-Bus calls
  (\<open>None\<close> for an \<open>sdbusplus\<close> exception), \<open>object_path::filename\<close> of sdbusplus and the build option
  \<open>EROT_TIME_SYNC_INTERVAL\<close>, in seconds.
\<close>

record platform =
  transport :: transport
  vdm_tag :: u8
  sys :: "io list \<Rightarrow> io \<Rightarrow> int"
  key_order :: "RequestKey hash_order"
  uuid_order :: "string hash_order"
  elapsed_reply :: "io list \<Rightarrow> dbus_value option"
  managed_objects :: "io list \<Rightarrow> object_tree option"
  path_filename :: "string \<Rightarrow> string"
  sync_interval :: int

definition syscall :: "platform \<Rightarrow> io \<Rightarrow> io list \<Rightarrow> int \<times> io list" where
  "syscall P c log = (sys P log c, log @ [c])"

lemma syscall_log: "snd (syscall P c log) = log @ [c]"
  by (simp add: syscall_def)

text \<open>Every call succeeds.\<close>

definition reliable :: "platform \<Rightarrow> bool" where
  "reliable P \<longleftrightarrow> (\<forall>l c. 0 \<le> sys P l c)"

text \<open>A platform on which every call succeeds, for evaluating the model on concrete inputs.\<close>

definition kind_platform :: "transport \<Rightarrow> platform" where
  "kind_platform t =
     \<lparr>transport = t, vdm_tag = 0x08, sys = (\<lambda>log c. 7), key_order = (\<lambda>ks k. 0),
      uuid_order = (\<lambda>ks k. 0), elapsed_reply = (\<lambda>log. Some (V_uint64 1000)),
      managed_objects = (\<lambda>log. Some []), path_filename = (\<lambda>p. p), sync_interval = 60\<rparr>"

end
