(* ===== verification/RetryTimer.thy ===== *)
theory RetryTimer
  imports Effects
begin

text \<open>
  One outgoing request with its retry timer (\<open>oem/nvidia/request.hpp\<close>): \<open>RequestRetryTimer\<close> with the
  two implementations of \<open>send\<close>. The timer is an \<open>sdbusplus::Timer\<close>, of which the code uses that a
  periodic timer keeps firing from \<open>start\<close> until \<open>stop\<close>; the model keeps whether it is armed.
\<close>

section \<open>State and operations\<close>

record retry_request =
  rq_fd :: int
  rq_eid :: u8
  requestMsg :: bytes
  numRetries :: u8
  retry_timer :: bool

text \<open>What \<open>DaemonRequest::send\<close> and \<open>InKernelRequest::send\<close> put on the socket.\<close>

definition send_io :: "platform \<Rightarrow> retry_request \<Rightarrow> io" where
  "send_io P rq =
     (case transport P of
        DaemonRequest \<Rightarrow>
          IO_sendmsg (rq_fd rq) ([vdm_tag P, rq_eid rq, messageType] @ requestMsg rq)
      | InKernelRequest \<Rightarrow> IO_sendto (rq_fd rq) (rq_eid rq) (requestMsg rq))"

definition request_send :: "platform \<Rightarrow> retry_request \<Rightarrow> io list \<Rightarrow> int \<times> io list" where
  "request_send P rq log =
     (let (rc, log1) = syscall P (send_io P rq) log
      in if rc < 0 then (rc, log1) else (0, log1))"

definition RetryTimer_start ::
    "platform \<Rightarrow> retry_request \<Rightarrow> io list \<Rightarrow> int \<times> retry_request \<times> io list" where
  "RetryTimer_start P rq log =
     (let (rc, log1) = request_send P rq log
      in if rc \<noteq> 0 then (rc, rq, log1)
         else if numRetries rq \<noteq> 0 then
           (let (t, log2) = syscall P IO_retry_timer_start log1
            in if t < 0 then (-1, rq, log2)
               else (0, rq\<lparr>retry_timer := True\<rparr>, log2))
         else (0, rq, log1))"

definition RetryTimer_stop :: "retry_request \<Rightarrow> retry_request" where
  "RetryTimer_stop rq = rq\<lparr>retry_timer := False\<rparr>"

text \<open>The timer's callback; \<open>numRetries--\<close> is evaluated, and wraps, on every call.\<close>

definition RetryTimer_callback ::
    "platform \<Rightarrow> retry_request \<Rightarrow> io list \<Rightarrow> retry_request \<times> io list" where
  "RetryTimer_callback P rq log =
     (let rq1 = rq\<lparr>numRetries := numRetries rq - 1\<rparr>
      in if numRetries rq \<noteq> 0 then (rq1, snd (request_send P rq1 log))
         else (RetryTimer_stop rq1, log))"

text \<open>The event loop lets the timer fire \<open>k\<close> times; a timer that is not armed does not fire.\<close>

fun retry_ticks ::
    "platform \<Rightarrow> nat \<Rightarrow> retry_request \<Rightarrow> io list \<Rightarrow> retry_request \<times> io list" where
  "retry_ticks P 0 rq log = (rq, log)"
| "retry_ticks P (Suc k) rq log =
     (if retry_timer rq
      then (let (rq1, log1) = RetryTimer_callback P rq log in retry_ticks P k rq1 log1)
      else (rq, log))"

section \<open>Lemmas\<close>

lemma send_io_upd [simp]:
  "send_io P (rq\<lparr>numRetries := n\<rparr>) = send_io P rq"
  "send_io P (rq\<lparr>retry_timer := b\<rparr>) = send_io P rq"
  by (simp_all add: send_io_def split: transport.splits)

lemma request_send_log: "snd (request_send P rq log) = log @ [send_io P rq]"
  by (simp add: request_send_def syscall_def)

lemma request_send_rc: "fst (request_send P rq log) = 0 \<longleftrightarrow> 0 \<le> sys P log (send_io P rq)"
  by (simp add: request_send_def syscall_def)

lemma RetryTimer_callback_eq:
  "RetryTimer_callback P rq log =
     (if numRetries rq \<noteq> 0
      then (rq\<lparr>numRetries := numRetries rq - 1\<rparr>, log @ [send_io P rq])
      else (rq\<lparr>numRetries := -1, retry_timer := False\<rparr>, log))"
  by (simp add: RetryTimer_callback_def request_send_log RetryTimer_stop_def)

lemma retry_ticks_stopped [simp]: "\<not> retry_timer rq \<Longrightarrow> retry_ticks P k rq log = (rq, log)"
  by (cases k) simp_all

lemma unat_pred: "(n :: u8) \<noteq> 0 \<Longrightarrow> unat (n - 1) = unat n - 1"
  by (simp add: unat_minus_one)

lemma retry_ticks_spec:
  "retry_timer rq \<Longrightarrow>
   retry_ticks P k rq log =
     (if k \<le> unat (numRetries rq)
      then (rq\<lparr>numRetries := numRetries rq - of_nat k\<rparr>, log @ replicate k (send_io P rq))
      else (rq\<lparr>numRetries := -1, retry_timer := False\<rparr>,
            log @ replicate (unat (numRetries rq)) (send_io P rq)))"
proof (induction k arbitrary: rq log)
  case 0
  then show ?case by simp
next
  case (Suc k)
  show ?case
  proof (cases "numRetries rq = 0")
    case True
    with Suc.prems show ?thesis by (simp add: RetryTimer_callback_eq)
  next
    case False
    then obtain m where m: "unat (numRetries rq) = Suc m"
      by (metis not0_implies_Suc unat_eq_zero)
    with False have n: "unat (numRetries rq - 1) = m" by (simp add: unat_pred)
    have rep: "send_io P rq # replicate m (send_io P rq) = replicate (Suc m) (send_io P rq)" for m
      by simp
    from Suc.prems False show ?thesis
      by (subst retry_ticks.simps) (auto simp: RetryTimer_callback_eq Suc.IH n m rep
          replicate_Suc [symmetric] algebra_simps simp del: replicate_Suc)
  qed
qed

lemma RetryTimer_start_armed:
  assumes "RetryTimer_start P rq log = (0, rq1, log1)" and "numRetries rq \<noteq> 0"
  shows "rq1 = rq\<lparr>retry_timer := True\<rparr> \<and> log1 = log @ [send_io P rq, IO_retry_timer_start]"
  using assms
  by (auto simp: RetryTimer_start_def request_send_def syscall_def Let_def split: if_splits)

text \<open>A sample request, for evaluating the model.\<close>

definition sample_request :: "u8 \<Rightarrow> retry_request" where
  "sample_request n =
     \<lparr>rq_fd = 5, rq_eid = 9, requestMsg = [1, 2], numRetries = n, retry_timer = False\<rparr>"

lemmas sample_defs = sample_request_def kind_platform_def RetryTimer_start_def request_send_def
  syscall_def send_io_def messageType_def

section \<open>Properties\<close>

text \<open>
  Once \<open>start\<close> has succeeded on a request with a non-zero retry count, the timer firing \<open>k\<close> times
  sends the same message again exactly \<open>min k numRetries\<close> times, whatever those sends return, and the
  timer stays armed exactly as long as \<open>k\<close> does not exceed the count: one send and at most
  \<open>numRetries\<close> repetitions, never more.
\<close>

theorem retry_sends_bounded:
  assumes "RetryTimer_start P rq log = (0, rq1, log1)" and "numRetries rq \<noteq> 0"
  shows "snd (retry_ticks P k rq1 log1) =
      log @ [send_io P rq, IO_retry_timer_start]
          @ replicate (min k (unat (numRetries rq))) (send_io P rq)
    \<and> retry_timer (fst (retry_ticks P k rq1 log1)) = (k \<le> unat (numRetries rq))"
  using assms RetryTimer_start_armed [OF assms] by (auto simp: retry_ticks_spec min_def)

theorem retry_sends_bounded_witness:
  "RetryTimer_start (kind_platform DaemonRequest) (sample_request 3) [] =
     (0, (sample_request 3)\<lparr>retry_timer := True\<rparr>,
      [IO_sendmsg 5 [8, 9, 0x7F, 1, 2], IO_retry_timer_start])
   \<and> snd (retry_ticks (kind_platform DaemonRequest) 7 ((sample_request 3)\<lparr>retry_timer := True\<rparr>)
          [IO_sendmsg 5 [8, 9, 0x7F, 1, 2], IO_retry_timer_start]) =
      [IO_sendmsg 5 [8, 9, 0x7F, 1, 2], IO_retry_timer_start]
        @ replicate 3 (IO_sendmsg 5 [8, 9, 0x7F, 1, 2])"
proof -
  have start: "RetryTimer_start (kind_platform DaemonRequest) (sample_request 3) [] =
     (0, (sample_request 3)\<lparr>retry_timer := True\<rparr>,
      [IO_sendmsg 5 [8, 9, 0x7F, 1, 2], IO_retry_timer_start])"
    by (simp add: sample_defs)
  have n: "numRetries (sample_request 3) \<noteq> 0" by (simp add: sample_request_def)
  show ?thesis using start retry_sends_bounded [OF start n, of 7] by (simp add: sample_defs)
qed

text \<open>
  The timer's callback decrements the count also when it finds it at zero and stops. A request
  whose retries are used up therefore holds the count 255, and starting it again arms a timer that
  repeats the message 255 times instead of the configured number.
\<close>

theorem retry_count_wraps:
  assumes "retry_timer rq" and "unat (numRetries rq) < k"
    and "RetryTimer_start P (fst (retry_ticks P k rq log)) log1 = (0, rq2, log2)"
  shows "numRetries (fst (retry_ticks P k rq log)) = 255
    \<and> snd (retry_ticks P j rq2 log2) = log2 @ replicate (min j 255) (send_io P rq)"
proof -
  let ?ex = "fst (retry_ticks P k rq log)"
  from assms(1,2) have ex: "?ex = rq\<lparr>numRetries := -1, retry_timer := False\<rparr>"
    by (simp add: retry_ticks_spec)
  then have "numRetries ?ex \<noteq> 0" by simp
  from RetryTimer_start_armed [OF assms(3) this] ex
  have "rq2 = rq\<lparr>numRetries := -1, retry_timer := True\<rparr>" by simp
  moreover have "(-1 :: u8) = 255" by simp
  ultimately show ?thesis using ex by (auto simp: retry_ticks_spec min_def)
qed

theorem retry_count_wraps_witness:
  "numRetries (fst (retry_ticks (kind_platform InKernelRequest) 4
      ((sample_request 3)\<lparr>retry_timer := True\<rparr>) [])) = 255"
proof -
  let ?P = "kind_platform InKernelRequest" and ?rq = "(sample_request 3)\<lparr>retry_timer := True\<rparr>"
  have a: "retry_timer ?rq" and b: "unat (numRetries ?rq) < 4" by (simp_all add: sample_request_def)
  obtain rq2 log2 where c: "RetryTimer_start ?P (fst (retry_ticks ?P 4 ?rq [])) [] = (0, rq2, log2)"
    by (simp add: retry_ticks_spec sample_defs)
  show ?thesis using retry_count_wraps [OF a b c] by simp
qed

end
