(* ===== verification/SocketHandler.thy ===== *)
theory SocketHandler
  imports Effects "HOL-Library.Multiset"
begin

text \<open>
  The sockets of the ERoT time manager: \<open>mctp_socket::Manager\<close> (\<open>oem/nvidia/socket_manager.hpp\<close>), the
  map from endpoint to descriptor, and \<open>mctp_socket::Handler\<close> with its daemon and in-kernel
  variants (\<open>socket_handler.hpp\<close>, \<open>socket_handler.cpp\<close>), which open, register and close them. The
  receiving half of the handlers is in theory \<open>Receive\<close>.
\<close>

section \<open>State\<close>

text \<open>
  One record for the manager's map, the handler's two maps and the members of \<open>InKernelHandler\<close>.
  \<open>socketInfoMap\<close> owns its descriptors (\<open>CustomFD\<close>): dropping an entry closes the descriptor.
\<close>

record sock_state =
  eidToFd :: "u8 \<rightharpoonup> int"
  eidToSockMap :: "u8 \<rightharpoonup> int \<times> int \<times> bytes"
  socketInfoMap :: "(bytes \<times> int) list"
  kfd :: int
  isFdValid :: bool

definition sock_init :: sock_state where
  "sock_init = \<lparr>eidToFd = Map.empty, eidToSockMap = Map.empty, socketInfoMap = [],
     kfd = -1, isFdValid = False\<rparr>"

section \<open>The socket manager\<close>

definition registerEndpoint :: "u8 \<Rightarrow> int \<Rightarrow> sock_state \<Rightarrow> sock_state" where
  "registerEndpoint eid fd s = s\<lparr>eidToFd := (eidToFd s)(eid \<mapsto> fd)\<rparr>"

text \<open>\<open>eidToFd[eid]\<close> inserts descriptor 0 for an endpoint that is not registered.\<close>

definition getSocket :: "u8 \<Rightarrow> sock_state \<Rightarrow> int \<times> sock_state" where
  "getSocket eid s =
     (case eidToFd s eid of
        Some fd \<Rightarrow> (fd, s)
      | None \<Rightarrow> (0, s\<lparr>eidToFd := (eidToFd s)(eid \<mapsto> 0)\<rparr>))"

definition clearMctpEndpoints :: "sock_state \<Rightarrow> sock_state" where
  "clearMctpEndpoints s = s\<lparr>eidToFd := Map.empty\<rparr>"

section \<open>Opening and closing sockets\<close>

definition registerMctpEndpoint :: "u8 \<Rightarrow> int \<Rightarrow> int \<Rightarrow> bytes \<Rightarrow> sock_state \<Rightarrow> sock_state" where
  "registerMctpEndpoint eid type protocol pathName s =
     (if eidToSockMap s eid = None
      then s\<lparr>eidToSockMap := (eidToSockMap s)(eid \<mapsto> (type, protocol, pathName))\<rparr>
      else s)"

text \<open>The size of \<open>sockaddr_un::sun_path\<close>, into which \<open>initSocket\<close> copies the whole path.\<close>

definition sun_path_size :: nat where
  "sun_path_size = 108"

definition Daemon_initSocket ::
    "platform \<Rightarrow> int \<Rightarrow> int \<Rightarrow> bytes \<Rightarrow> sock_state \<Rightarrow> io list \<Rightarrow> exn + (int \<times> sock_state \<times> io list)"
  where
  "Daemon_initSocket P type protocol pathName s log =
     (let (sockFd, log1) = syscall P (IO_socket_unix type protocol) log
      in if sockFd < 0 then Inr (sockFd, s, log1)
         else if sun_path_size < length pathName then Inl UndefinedBehaviour
         else
           (let (rc, log2) = syscall P (IO_connect sockFd pathName) log1
            in if rc < 0 then Inr (rc, s, log2 @ [IO_close sockFd])
               else
                 (let (result, log3) = syscall P (IO_write sockFd [messageType]) log2
                  in if result < 0 then Inr (result, s, log3 @ [IO_close sockFd])
                     else Inr (sockFd,
                       s\<lparr>socketInfoMap := AList.update pathName sockFd (socketInfoMap s)\<rparr>,
                       log3))))"

definition InKernel_initSocket ::
    "platform \<Rightarrow> sock_state \<Rightarrow> io list \<Rightarrow> exn + (int \<times> sock_state \<times> io list)" where
  "InKernel_initSocket P s log =
     (if isFdValid s then Inr (kfd s, s, log)
      else
        (let (fd, log1) = syscall P IO_socket_mctp log
         in if fd < 0 then Inr (fd, s\<lparr>kfd := -1\<rparr>, log1)
            else
              (let (rc, log2) = syscall P (IO_getsockopt fd) log1
               in if rc < 0 then Inr (rc, s\<lparr>kfd := -1\<rparr>, log2 @ [IO_close fd])
                  else
                    (let (rc, log3) = syscall P (IO_bind fd) log2
                     in if rc < 0 then Inr (rc, s\<lparr>kfd := -1\<rparr>, log3 @ [IO_close fd])
                        else Inr (fd, s\<lparr>kfd := fd, isFdValid := True\<rparr>, log3)))))"

definition initSocket ::
    "platform \<Rightarrow> int \<Rightarrow> int \<Rightarrow> bytes \<Rightarrow> sock_state \<Rightarrow> io list \<Rightarrow> exn + (int \<times> sock_state \<times> io list)"
  where
  "initSocket P type protocol pathName s log =
     (case transport P of
        DaemonRequest \<Rightarrow> Daemon_initSocket P type protocol pathName s log
      | InKernelRequest \<Rightarrow> InKernel_initSocket P s log)"

text \<open>\<open>eidToSockMap[eid]\<close> inserts type 0, protocol 0 and an empty path for an unknown endpoint.\<close>

definition sock_params :: "u8 \<Rightarrow> sock_state \<Rightarrow> (int \<times> int \<times> bytes) \<times> sock_state" where
  "sock_params eid s =
     (case eidToSockMap s eid of
        Some p \<Rightarrow> (p, s)
      | None \<Rightarrow> ((0, 0, []), s\<lparr>eidToSockMap := (eidToSockMap s)(eid \<mapsto> (0, 0, []))\<rparr>))"

fun activateSockets ::
    "platform \<Rightarrow> u8 list \<Rightarrow> sock_state \<Rightarrow> io list \<Rightarrow> exn + (int \<times> sock_state \<times> io list)" where
  "activateSockets P [] s log = Inr (0, s, log)"
| "activateSockets P (eid # eids) s log =
     (let ((type, protocol, pathName), s1) = sock_params eid s
      in case map_of (socketInfoMap s1) pathName of
           None \<Rightarrow>
             bindR (initSocket P type protocol pathName s1 log) (\<lambda>(fd, s2, log2).
               if fd < 0 then activateSockets P eids s2 log2
               else activateSockets P eids (registerEndpoint eid fd s2) log2)
         | Some fd \<Rightarrow> activateSockets P eids (registerEndpoint eid fd s1) log)"

definition deactivateSockets :: "sock_state \<Rightarrow> io list \<Rightarrow> sock_state \<times> io list" where
  "deactivateSockets s log =
     (clearMctpEndpoints (s\<lparr>socketInfoMap := []\<rparr>), log @ map (IO_close \<circ> snd) (socketInfoMap s))"

section \<open>Open descriptors\<close>

text \<open>
  The descriptors a history leaves open, replayed from the calls and the platform's answers:
  \<open>socket\<close> opens its non-negative result, \<open>close\<close> closes its argument.
\<close>

definition opened :: "int \<Rightarrow> int multiset" where
  "opened fd = (if 0 \<le> fd then {#fd#} else {#})"

fun fd_live_rev :: "platform \<Rightarrow> io list \<Rightarrow> int multiset" where
  "fd_live_rev P [] = {#}"
| "fd_live_rev P (c # past) =
     (case c of
        IO_socket_unix t p \<Rightarrow> fd_live_rev P past + opened (sys P (rev past) c)
      | IO_socket_mctp \<Rightarrow> fd_live_rev P past + opened (sys P (rev past) c)
      | IO_close fd \<Rightarrow> fd_live_rev P past - {#fd#}
      | _ \<Rightarrow> fd_live_rev P past)"

definition fd_live :: "platform \<Rightarrow> io list \<Rightarrow> int multiset" where
  "fd_live P log = fd_live_rev P (rev log)"

text \<open>
  The handler's invariant: what is open is exactly what it owns, that is the descriptors of
  \<open>socketInfoMap\<close> for the daemon transport and the one valid descriptor for the in-kernel one.
\<close>

definition sock_inv :: "platform \<Rightarrow> sock_state \<Rightarrow> io list \<Rightarrow> bool" where
  "sock_inv P s log \<longleftrightarrow>
     distinct (map fst (socketInfoMap s))
     \<and> fd_live P log =
         mset (map snd (socketInfoMap s)) + (if isFdValid s then {#kfd s#} else {#})
     \<and> (case transport P of DaemonRequest \<Rightarrow> \<not> isFdValid s | InKernelRequest \<Rightarrow> socketInfoMap s = [])"

text \<open>Every registered descriptor is open.\<close>

definition registered_open :: "platform \<Rightarrow> sock_state \<Rightarrow> io list \<Rightarrow> bool" where
  "registered_open P s log \<longleftrightarrow> ran (eidToFd s) \<subseteq> set_mset (fd_live P log)"

section \<open>Lemmas\<close>

lemma fd_live_Nil [simp]: "fd_live P [] = {#}"
  by (simp add: fd_live_def)

lemma fd_live_snoc:
  "fd_live P (log @ [c]) =
     (case c of
        IO_socket_unix t p \<Rightarrow> fd_live P log + opened (sys P log c)
      | IO_socket_mctp \<Rightarrow> fd_live P log + opened (sys P log c)
      | IO_close fd \<Rightarrow> fd_live P log - {#fd#}
      | _ \<Rightarrow> fd_live P log)"
  by (simp add: fd_live_def split: io.splits)

lemma fd_live_closes:
  "fd_live P (log @ map (IO_close \<circ> snd) xs) = fd_live P log - mset (map snd xs)"
proof (induction xs rule: rev_induct)
  case Nil
  then show ?case by simp
next
  case (snoc x xs)
  have "log @ map (IO_close \<circ> snd) (xs @ [x]) =
    (log @ map (IO_close \<circ> snd) xs) @ [IO_close (snd x)]" by simp
  then show ?case by (simp only: fd_live_snoc snoc.IH io.case) simp
qed

text \<open>Requests that neither open nor close a descriptor.\<close>

fun fd_neutral :: "io \<Rightarrow> bool" where
  "fd_neutral (IO_socket_unix t p) = False"
| "fd_neutral IO_socket_mctp = False"
| "fd_neutral (IO_close fd) = False"
| "fd_neutral _ = True"

lemma fd_live_neutral: "list_all fd_neutral cs \<Longrightarrow> fd_live P (log @ cs) = fd_live P log"
proof (induction cs rule: rev_induct)
  case (snoc c cs)
  then show ?case
    by (cases c) (simp_all add: fd_live_snoc flip: append_assoc)
qed simp

lemma sock_params_frame [frame]:
  assumes "sock_params eid s = (p, s')"
  shows "eidToFd s' = eidToFd s" "socketInfoMap s' = socketInfoMap s"
    "kfd s' = kfd s" "isFdValid s' = isFdValid s"
  using assms by (auto simp: sock_params_def split: option.splits)

lemma registerEndpoint_frame [frame, simp]:
  "socketInfoMap (registerEndpoint eid fd s) = socketInfoMap s"
  "kfd (registerEndpoint eid fd s) = kfd s" "isFdValid (registerEndpoint eid fd s) = isFdValid s"
  "eidToFd (registerEndpoint eid fd s) = (eidToFd s)(eid \<mapsto> fd)"
  by (simp_all add: registerEndpoint_def)

lemma sock_inv_cong:
  assumes "socketInfoMap s' = socketInfoMap s" "kfd s' = kfd s" "isFdValid s' = isFdValid s"
  shows "sock_inv P s' log = sock_inv P s log"
  unfolding sock_inv_def assms ..

lemma sock_inv_register [simp]: "sock_inv P (registerEndpoint eid fd s) log = sock_inv P s log"
  by (rule sock_inv_cong) simp_all

lemma fd_live_simps:
  "fd_live P (log @ [IO_socket_unix t p]) = fd_live P log + opened (sys P log (IO_socket_unix t p))"
  "fd_live P (log @ [IO_socket_mctp]) = fd_live P log + opened (sys P log IO_socket_mctp)"
  "fd_live P (log @ [IO_close fd]) = fd_live P log - {#fd#}"
  "fd_live P (log @ [IO_connect fd b]) = fd_live P log"
  "fd_live P (log @ [IO_write fd b]) = fd_live P log"
  "fd_live P (log @ [IO_getsockopt fd]) = fd_live P log"
  "fd_live P (log @ [IO_bind fd]) = fd_live P log"
  by (simp_all add: fd_live_snoc)

text \<open>
  What the two variants of \<open>initSocket\<close> guarantee, and all that the lemmas below use of them: they
  keep the ownership invariant, close nothing that was open before, register nothing, and return a
  descriptor that is open or a failure code.
\<close>

definition init_result :: "platform \<Rightarrow> sock_state \<Rightarrow> io list \<Rightarrow> int \<times> sock_state \<times> io list \<Rightarrow> bool" where
  "init_result P s log r =
     (case r of (fd, s', log') \<Rightarrow>
        sock_inv P s' log' \<and> eidToFd s' = eidToFd s \<and> fd_live P log \<subseteq># fd_live P log'
        \<and> (0 \<le> fd \<longrightarrow> fd \<in># fd_live P log'))"

lemma update_new_key:
  "map_of xs k = None \<Longrightarrow> AList.update k v xs = xs @ [(k, v)]"
  by (induction xs) (auto split: if_splits)

lemma Daemon_initSocket_result:
  assumes "transport P = DaemonRequest" and "sock_inv P s log"
    and "map_of (socketInfoMap s) pathName = None"
    and "Daemon_initSocket P type protocol pathName s log = Inr r"
  shows "init_result P s log r"
  using assms
  by (auto simp: Daemon_initSocket_def syscall_def init_result_def sock_inv_def fd_live_simps
      opened_def Let_def update_new_key map_of_eq_None_iff
      simp del: append_assoc split: if_splits)

lemma InKernel_initSocket_result:
  assumes "transport P = InKernelRequest" and "sock_inv P s log"
    and "InKernel_initSocket P s log = Inr r"
  shows "init_result P s log r"
  using assms
  by (auto simp: InKernel_initSocket_def syscall_def init_result_def sock_inv_def fd_live_simps
      opened_def Let_def simp del: append_assoc split: if_splits)

lemma initSocket_result:
  assumes "sock_inv P s log" and "map_of (socketInfoMap s) pathName = None"
    and "initSocket P type protocol pathName s log = Inr r"
  shows "init_result P s log r"
  using assms Daemon_initSocket_result InKernel_initSocket_result
  by (cases "transport P") (auto simp: initSocket_def)

lemma socket_owned: "sock_inv P s log \<Longrightarrow> map_of (socketInfoMap s) path = Some fd \<Longrightarrow> fd \<in># fd_live P log"
  by (auto simp: sock_inv_def dest: map_of_SomeD intro!: rev_image_eqI)

lemma registered_open_add:
  assumes "registered_open P s log" and "fd \<in># fd_live P log'" and "fd_live P log \<subseteq># fd_live P log'"
    and "eidToFd s' = (eidToFd s)(eid \<mapsto> fd)"
  shows "registered_open P s' log'"
  using assms unfolding registered_open_def
  by (auto simp: ran_def dest: mset_subset_eqD split: if_splits)

lemma activateSockets_spec:
  assumes "activateSockets P eids s log = Inr (rc, s', log')"
    and "sock_inv P s log" and "registered_open P s log"
  shows "rc = 0 \<and> sock_inv P s' log' \<and> registered_open P s' log'
    \<and> dom (eidToFd s) \<subseteq> dom (eidToFd s') \<and> dom (eidToFd s') \<subseteq> dom (eidToFd s) \<union> set eids"
  using assms
proof (induction eids arbitrary: s log)
  case Nil
  then show ?case by simp
next
  case (Cons eid eids)
  obtain ty pr path s1 where sp: "sock_params eid s = ((ty, pr, path), s1)"
    by (metis surj_pair)
  note fr = sock_params_frame [OF sp]
  from Cons.prems fr have inv1: "sock_inv P s1 log" and reg1: "registered_open P s1 log"
    by (simp_all add: sock_inv_cong [OF fr(2-4)] registered_open_def)
  show ?case
  proof (cases "map_of (socketInfoMap s1) path")
    case (Some fd)
    with Cons.prems sp have act: "activateSockets P eids (registerEndpoint eid fd s1) log = Inr (rc, s', log')"
      by simp
    have i: "sock_inv P (registerEndpoint eid fd s1) log" using inv1 by simp
    have o: "registered_open P (registerEndpoint eid fd s1) log"
      by (rule registered_open_add [OF reg1 socket_owned [OF inv1 Some]]) simp_all
    have d: "dom (eidToFd (registerEndpoint eid fd s1)) = insert eid (dom (eidToFd s))"
      by (simp add: fr)
    from Cons.IH [OF act i o, unfolded d] show ?thesis by auto
  next
    case None
    with Cons.prems sp obtain fd s2 log2 where init: "initSocket P ty pr path s1 log = Inr (fd, s2, log2)"
      and rest: "(if fd < 0 then activateSockets P eids s2 log2
         else activateSockets P eids (registerEndpoint eid fd s2) log2) = Inr (rc, s', log')"
      by (auto simp: bindR_eq_Inr)
    from initSocket_result [OF inv1 None init] have inv2: "sock_inv P s2 log2"
      and e2: "eidToFd s2 = eidToFd s1" and sub: "fd_live P log \<subseteq># fd_live P log2"
      and live: "0 \<le> fd \<Longrightarrow> fd \<in># fd_live P log2"
      by (auto simp: init_result_def)
    from reg1 sub e2 have reg2: "registered_open P s2 log2"
      by (auto simp: registered_open_def dest: mset_subset_eqD)
    show ?thesis
    proof (cases "fd < 0")
      case True
      with rest Cons.IH [OF _ inv2 reg2] e2 fr show ?thesis by auto
    next
      case False
      then have act: "activateSockets P eids (registerEndpoint eid fd s2) log2 = Inr (rc, s', log')"
        using rest by simp
      have i: "sock_inv P (registerEndpoint eid fd s2) log2" using inv2 by simp
      have o: "registered_open P (registerEndpoint eid fd s2) log2"
        by (rule registered_open_add [OF reg2 live]) (use False in simp_all)
      have d: "dom (eidToFd (registerEndpoint eid fd s2)) = insert eid (dom (eidToFd s))"
        by (simp add: fr e2)
      from Cons.IH [OF act i o, unfolded d] show ?thesis by auto
    qed
  qed
qed

lemma deactivateSockets_spec:
  assumes "deactivateSockets s log = (s', log')" and "sock_inv P s log"
  shows "sock_inv P s' log'" and "registered_open P s' log'"
    and "fd_live P log' = (if isFdValid s then {#kfd s#} else {#})"
  using assms
  by (auto simp: deactivateSockets_def clearMctpEndpoints_def sock_inv_def registered_open_def
      fd_live_closes split: transport.splits)

section \<open>Properties\<close>

text \<open>A handler that knows endpoint 9 with the abstract socket path \<open>[0, 'm']\<close>.\<close>

definition sample_sock :: sock_state where
  "sample_sock = registerMctpEndpoint 9 5 0 [0, 0x6D] sock_init"

lemma sample_sock_inv: "sock_inv (kind_platform DaemonRequest) sample_sock []"
  "registered_open (kind_platform DaemonRequest) sample_sock []"
  by (simp_all add: sample_sock_def registerMctpEndpoint_def sock_init_def sock_inv_def
      registered_open_def kind_platform_def)

text \<open>
  C33: one round of the daemon transport owns its descriptors exactly. After \<open>activateSockets\<close> every
  descriptor registered for an endpoint is open, whichever of the socket, connect and write calls
  failed on the way; after \<open>deactivateSockets\<close>, with any sends in between, no descriptor is left
  open and no endpoint is registered.
\<close>

theorem socket_round_closes_all:
  assumes "transport P = DaemonRequest" and "sock_inv P s log" and "registered_open P s log"
    and "activateSockets P eids s log = Inr (rc, s1, log1)"
    and "list_all fd_neutral sends" and "deactivateSockets s1 (log1 @ sends) = (s2, log2)"
  shows "ran (eidToFd s1) \<subseteq> set_mset (fd_live P log1)
    \<and> fd_live P log2 = {#} \<and> eidToFd s2 = Map.empty"
proof -
  from activateSockets_spec [OF assms(4,2,3)]
  have inv1: "sock_inv P s1 log1" and reg1: "registered_open P s1 log1" by simp_all
  from inv1 assms(1) have nk: "\<not> isFdValid s1" by (simp add: sock_inv_def)
  from inv1 assms(5) have "sock_inv P s1 (log1 @ sends)"
    by (simp add: sock_inv_def fd_live_neutral)
  from deactivateSockets_spec(3) [OF assms(6) this] nk have "fd_live P log2 = {#}" by simp
  with reg1 assms(6) show ?thesis
    by (auto simp: registered_open_def deactivateSockets_def clearMctpEndpoints_def)
qed

theorem socket_round_closes_all_witness:
  "\<exists>s1 log1. activateSockets (kind_platform DaemonRequest) [9] sample_sock [] = Inr (0, s1, log1)
     \<and> fd_live (kind_platform DaemonRequest)
         (snd (deactivateSockets s1 (log1 @ [IO_sendmsg 7 [1]]))) = {#}"
proof -
  let ?P = "kind_platform DaemonRequest"
  have tr: "transport ?P = DaemonRequest" by (simp add: kind_platform_def)
  obtain s1 log1 where act: "activateSockets ?P [9] sample_sock [] = Inr (0, s1, log1)"
    by (simp add: sample_sock_def registerMctpEndpoint_def sock_init_def sock_params_def
        initSocket_def Daemon_initSocket_def syscall_def kind_platform_def sun_path_size_def)
  obtain s2 log2 where de: "deactivateSockets s1 (log1 @ [IO_sendmsg 7 [1]]) = (s2, log2)"
    by (metis surj_pair)
  have "list_all fd_neutral [IO_sendmsg 7 [1]]" by simp
  from socket_round_closes_all [OF tr sample_sock_inv act this de] de act show ?thesis by auto
qed

text \<open>
  C39: \<open>activateSockets\<close> reports success even when an endpoint's socket could not be opened. The
  endpoint then has no registered descriptor, and looking it up for the request that follows
  yields descriptor 0 and registers it.
\<close>

theorem failed_endpoint_gets_descriptor_0:
  assumes "eidToFd s eid = None" and "sock_params eid s = ((type, protocol, path), s1)"
    and "map_of (socketInfoMap s) path = None"
    and "initSocket P type protocol path s1 log = Inr (fd, s2, log2)" and "fd < 0"
  shows "activateSockets P [eid] s log = Inr (0, s2, log2)
    \<and> fst (getSocket eid s2) = 0 \<and> eidToFd (snd (getSocket eid s2)) eid = Some 0"
proof -
  note fr = sock_params_frame [OF assms(2)]
  have "eidToFd s2 = eidToFd s1"
    using assms(4)
    by (auto simp: initSocket_def Daemon_initSocket_def InKernel_initSocket_def Let_def syscall_def
        split: transport.splits if_splits)
  with assms fr show ?thesis by (simp add: getSocket_def)
qed

text \<open>A platform on which no socket can be opened.\<close>

definition socketless_platform :: platform where
  "socketless_platform = (kind_platform DaemonRequest)\<lparr>sys := (\<lambda>log c. -13)\<rparr>"

theorem failed_endpoint_gets_descriptor_0_witness:
  "activateSockets socketless_platform [9] sample_sock [] =
     Inr (0, sample_sock, [IO_socket_unix 5 0])
   \<and> fst (getSocket 9 sample_sock) = 0"
proof -
  have 1: "eidToFd sample_sock 9 = None"
    and 2: "sock_params 9 sample_sock = ((5, 0, [0, 0x6D]), sample_sock)"
    and 3: "map_of (socketInfoMap sample_sock) [0, 0x6D] = None"
    and 4: "initSocket socketless_platform 5 0 [0, 0x6D] sample_sock [] =
      Inr (-13, sample_sock, [IO_socket_unix 5 0])"
    by (simp_all add: sample_sock_def registerMctpEndpoint_def sock_init_def sock_params_def
        initSocket_def Daemon_initSocket_def syscall_def kind_platform_def socketless_platform_def)
  show ?thesis using failed_endpoint_gets_descriptor_0 [OF 1 2 3 4] by simp
qed

end
