(* ===== verification/RequestHandler.thy ===== *)
theory RequestHandler
  imports InstanceId RetryTimer SocketHandler
begin

text \<open>
  The requester (\<open>class Handler\<close> of \<open>oem/nvidia/handler.hpp\<close>): the table of registered requests,
  the choice of the one to run for an endpoint, the response path, the expiry of an instance
  identifier and the deferred removal that follows it.

  A response handler is a value of the type parameter \<open>'rh\<close>; calling it is the parameter
  \<open>invoke\<close>, a transformer of the whole state, because the code calls it while it is still at
  work on its tables and the handler (a resumed coroutine) may register further requests. The
  state is extensible, so that the client's own state is part of what \<open>invoke\<close> transforms.
\<close>

section \<open>State\<close>

text \<open>A table entry: the request, its response handler and whether the expiry timer is running.\<close>

record 'rh entry =
  e_request :: retry_request
  e_handler :: 'rh
  e_timer :: bool

record 'rh requester =
  handlers :: "(RequestKey \<times> 'rh entry) list"
  removeRequestContainer :: "RequestKey list"
  ids :: InstanceIdMgr
  socks :: sock_state
  log :: "io list"

text \<open>A response as the handlers receive it: the message and the length computed for it.\<close>

type_synonym response = "(bytes \<times> u64) option"

section \<open>Registering and running requests\<close>

datatype scan = Busy | ToRun "RequestKey option"

text \<open>
  The loop of \<open>runRegisteredRequest\<close>, in the table's iteration order: it returns early on a running
  entry of the endpoint and otherwise remembers the endpoint's first entry.
\<close>

fun scan_handlers :: "u8 \<Rightarrow> (RequestKey \<times> 'rh entry) list \<Rightarrow> RequestKey option \<Rightarrow> scan" where
  "scan_handlers eid [] toRun = ToRun toRun"
| "scan_handlers eid ((key, e) # rest) toRun =
     (if key_eid key \<noteq> eid then scan_handlers eid rest toRun
      else if e_timer e then Busy
      else scan_handlers eid rest (if toRun = None then Some key else toRun))"

definition upd_entry ::
    "RequestKey \<Rightarrow> ('rh entry \<Rightarrow> 'rh entry) \<Rightarrow> ('rh, 'z) requester_scheme \<Rightarrow> ('rh, 'z) requester_scheme"
  where
  "upd_entry key f w = w\<lparr>handlers := AList.map_entry key f (handlers w)\<rparr>"

definition free_id ::
    "u8 \<Rightarrow> u8 \<Rightarrow> ('rh, 'z) requester_scheme \<Rightarrow> exn + ('rh, 'z) requester_scheme" where
  "free_id eid instance w = bindR (markFree eid instance (ids w)) (\<lambda>m. Inr (w\<lparr>ids := m\<rparr>))"

text \<open>Running the chosen entry: send, then arm the expiry timer; either step may fail.\<close>

definition run_entry ::
    "platform \<Rightarrow> u8 \<Rightarrow> RequestKey \<Rightarrow> 'rh entry \<Rightarrow> ('rh, 'z) requester_scheme
      \<Rightarrow> exn + (int \<times> ('rh, 'z) requester_scheme)" where
  "run_entry P eid key e w =
     (let (rc, rq, log1) = RetryTimer_start P (e_request e) (log w);
          w1 = upd_entry key (\<lambda>e. e\<lparr>e_request := rq\<rparr>) (w\<lparr>log := log1\<rparr>)
      in if rc \<noteq> 0 then bindR (free_id eid (key_instanceId key) w1) (\<lambda>w2. Inr (rc, w2))
         else
           (let (t, log2) = syscall P IO_expiry_timer_start (log w1); w2 = w1\<lparr>log := log2\<rparr>
            in if t < 0
               then bindR (free_id eid (key_instanceId key) w2)
                      (\<lambda>w3. Inr (uint (cc_val ErrGeneral), w3))
               else Inr (uint (cc_val Success), upd_entry key (\<lambda>e. e\<lparr>e_timer := True\<rparr>) w2)))"

definition runRegisteredRequest ::
    "platform \<Rightarrow> u8 \<Rightarrow> ('rh, 'z) requester_scheme \<Rightarrow> exn + (int \<times> ('rh, 'z) requester_scheme)" where
  "runRegisteredRequest P eid w =
     (case scan_handlers eid (handlers w) None of
        Busy \<Rightarrow> Inr (uint (cc_val Success), w)
      | ToRun None \<Rightarrow> Inr (uint (cc_val Success), w)
      | ToRun (Some key) \<Rightarrow>
          (case map_of (handlers w) key of
             None \<Rightarrow> Inr (uint (cc_val Success), w)
           | Some e \<Rightarrow> run_entry P eid key e w))"

text \<open>\<open>emplace\<close> leaves the table alone when the key is present.\<close>

definition registerRequest ::
    "platform \<Rightarrow> u8 \<Rightarrow> u8 \<Rightarrow> u8 \<Rightarrow> u8 \<Rightarrow> bytes \<Rightarrow> 'rh \<Rightarrow> ('rh, 'z) requester_scheme
      \<Rightarrow> exn + (int \<times> ('rh, 'z) requester_scheme)" where
  "registerRequest P eid instanceId type command msg responseHandler w =
     (let key = RequestKey eid instanceId type command;
          (fd, s) = getSocket eid (socks w);
          request = \<lparr>rq_fd = fd, rq_eid = eid, requestMsg = msg,
                     numRetries = numCommandRetries, retry_timer = False\<rparr>
      in runRegisteredRequest P eid
           (w\<lparr>socks := s,
              handlers := hash_emplace (key_order P) key
                \<lparr>e_request = request, e_handler = responseHandler, e_timer = False\<rparr>
                (handlers w)\<rparr>))"

section \<open>Responses, expiry and removal\<close>

definition stop_entry :: "'rh entry \<Rightarrow> 'rh entry" where
  "stop_entry e = e\<lparr>e_request := RetryTimer_stop (e_request e), e_timer := False\<rparr>"

definition handleResponse ::
    "platform \<Rightarrow> ('rh \<Rightarrow> u8 \<Rightarrow> response \<Rightarrow> ('rh, 'z) requester_scheme \<Rightarrow> exn + ('rh, 'z) requester_scheme)
      \<Rightarrow> RequestKey \<Rightarrow> bytes \<Rightarrow> u64 \<Rightarrow> ('rh, 'z) requester_scheme
      \<Rightarrow> exn + ('rh, 'z) requester_scheme" where
  "handleResponse P invoke key msg respMsgLen w =
     bindR
       (case map_of (handlers w) key of
          Some e \<Rightarrow>
            bindR (free_id (key_eid key) (key_instanceId key) (upd_entry key stop_entry w)) (\<lambda>w1.
              invoke (e_handler e) (key_eid key) (Some (msg, respMsgLen))
                (w1\<lparr>handlers := AList.delete key (handlers w1)\<rparr>))
        | None \<Rightarrow> free_id (key_eid key) (key_instanceId key) w)
       (\<lambda>w2. bindR (runRegisteredRequest P (key_eid key) w2) (\<lambda>(rc, w3). Inr w3))"

text \<open>
  The expiry timer's callback. The entry stays in the table, stopped, while its handler runs with
  an empty response; its removal is deferred to the event loop.
\<close>

definition instanceIdExpiryCallBack ::
    "('rh \<Rightarrow> u8 \<Rightarrow> response \<Rightarrow> ('rh, 'z) requester_scheme \<Rightarrow> exn + ('rh, 'z) requester_scheme)
      \<Rightarrow> RequestKey \<Rightarrow> ('rh, 'z) requester_scheme \<Rightarrow> exn + ('rh, 'z) requester_scheme" where
  "instanceIdExpiryCallBack invoke key w =
     (case map_of (handlers w) key of
        None \<Rightarrow> Inl AssertFailed
      | Some e \<Rightarrow>
          bindR (invoke (e_handler e) (key_eid key) None (upd_entry key stop_entry w)) (\<lambda>w1.
            Inr (w1\<lparr>removeRequestContainer :=
                   (if key \<in> set (removeRequestContainer w1) then removeRequestContainer w1
                    else removeRequestContainer w1 @ [key])\<rparr>)))"

definition removeRequestEntry ::
    "platform \<Rightarrow> RequestKey \<Rightarrow> ('rh, 'z) requester_scheme \<Rightarrow> exn + ('rh, 'z) requester_scheme" where
  "removeRequestEntry P key w =
     bindR
       (if key \<in> set (removeRequestContainer w)
        then bindR (free_id (key_eid key) (key_instanceId key) w) (\<lambda>w1.
          Inr (w1\<lparr>handlers := AList.delete key (handlers w1),
                  removeRequestContainer := remove1 key (removeRequestContainer w1)\<rparr>))
        else Inr w)
       (\<lambda>w2. bindR (runRegisteredRequest P (key_eid key) w2) (\<lambda>(rc, w3). Inr w3))"

text \<open>A request's retry timer fires.\<close>

definition retry_tick ::
    "platform \<Rightarrow> RequestKey \<Rightarrow> ('rh, 'z) requester_scheme \<Rightarrow> ('rh, 'z) requester_scheme" where
  "retry_tick P key w =
     (case map_of (handlers w) key of
        None \<Rightarrow> w
      | Some e \<Rightarrow>
          (let (rq, log1) = RetryTimer_callback P (e_request e) (log w)
           in upd_entry key (\<lambda>e. e\<lparr>e_request := rq\<rparr>) (w\<lparr>log := log1\<rparr>)))"

section \<open>Lemmas on the operations\<close>

definition keys :: "('rh, 'z) requester_scheme \<Rightarrow> RequestKey set" where
  "keys w = fst ` set (handlers w)"

text \<open>The requests of an endpoint that are running, that is, whose expiry timer is armed.\<close>

definition running :: "('rh, 'z) requester_scheme \<Rightarrow> u8 \<Rightarrow> RequestKey set" where
  "running w eid = {k. key_eid k = eid \<and> (\<exists>e. map_of (handlers w) k = Some e \<and> e_timer e)}"

text \<open>
  The requester's invariant: one entry per key, identifiers that fit the pool, and at most one
  running request per endpoint.
\<close>

definition req_inv :: "('rh, 'z) requester_scheme \<Rightarrow> bool" where
  "req_inv w \<longleftrightarrow>
     distinct (map fst (handlers w))
     \<and> (\<forall>k\<in>keys w. unat (key_instanceId k) < maxInstanceIds)
     \<and> (\<forall>eid. \<forall>k\<in>running w eid. \<forall>k'\<in>running w eid. k = k')"

lemma keys_map_of: "k \<in> keys w \<longleftrightarrow> map_of (handlers w) k \<noteq> None"
  by (simp add: keys_def map_of_eq_None_iff)

lemma keys_upd_entry [simp]: "keys (upd_entry k f w) = keys w"
  unfolding keys_def upd_entry_def by (simp flip: set_map)

lemma running_subset_keys: "running w eid \<subseteq> keys w"
  by (auto simp: running_def keys_map_of)

lemma handlers_free_id:
  "free_id eid i w = Inr w' \<Longrightarrow>
     \<exists>m. w' = w\<lparr>ids := m\<rparr> \<and> held m = (held (ids w))(eid := held (ids w) eid - {i})"
  by (auto simp: free_id_def bindR_eq_Inr dest: markFree_Inr)

lemma free_id_ok: "unat i < maxInstanceIds \<Longrightarrow> \<exists>w'. free_id eid i w = Inr w'"
  using markFree_ok [of i eid "ids w"] by (auto simp: free_id_def)

lemma scan_handlers_Busy:
  "scan_handlers eid xs acc = Busy \<longleftrightarrow> (\<exists>(k, e)\<in>set xs. key_eid k = eid \<and> e_timer e)"
  by (induction eid xs acc rule: scan_handlers.induct) auto

lemma scan_handlers_ToRun:
  "scan_handlers eid xs acc = ToRun r \<Longrightarrow>
     (\<forall>(k, e)\<in>set xs. key_eid k = eid \<longrightarrow> \<not> e_timer e)
     \<and> r = (case acc of Some k \<Rightarrow> Some k
            | None \<Rightarrow> find (\<lambda>k. key_eid k = eid) (map fst xs))"
  by (induction eid xs acc rule: scan_handlers.induct) (auto split: if_splits option.splits)

lemma find_Some_in: "find Q xs = Some x \<Longrightarrow> x \<in> set xs \<and> Q x"
  by (induction xs) (auto split: if_splits)

lemma find_None_all: "find Q xs = None \<Longrightarrow> \<forall>x\<in>set xs. \<not> Q x"
  by (induction xs) (auto split: if_splits)

lemma running_Busy:
  assumes "distinct (map fst (handlers w))"
  shows "scan_handlers eid (handlers w) None = Busy \<longleftrightarrow> running w eid \<noteq> {}"
  using assms by (auto simp: scan_handlers_Busy running_def)

text \<open>The three outcomes of \<open>runRegisteredRequest\<close>.\<close>

lemma runRegisteredRequest_cases:
  assumes "distinct (map fst (handlers w))" and "runRegisteredRequest P eid w = Inr (rc, w')"
  obtains (busy) "running w eid \<noteq> {}" "rc = 0" "w' = w"
  | (idle) "running w eid = {}" "\<forall>k\<in>keys w. key_eid k \<noteq> eid" "rc = 0" "w' = w"
  | (run) key e where "running w eid = {}" "key_eid key = eid" "map_of (handlers w) key = Some e"
      "run_entry P eid key e w = Inr (rc, w')"
proof (cases "scan_handlers eid (handlers w) None")
  case Busy
  with assms show ?thesis
    by (intro busy) (auto simp: runRegisteredRequest_def running_Busy)
next
  case (ToRun r)
  then have free: "running w eid = {}" using running_Busy [OF assms(1), of eid] by simp
  from scan_handlers_ToRun [OF ToRun] have r: "r = find (\<lambda>k. key_eid k = eid) (map fst (handlers w))"
    by simp
  show ?thesis
  proof (cases r)
    case None
    with find_None_all [OF r [symmetric, unfolded None]] ToRun assms free show ?thesis
      by (intro idle) (auto simp: runRegisteredRequest_def keys_def)
  next
    case (Some key)
    with find_Some_in [OF r [symmetric, unfolded Some]]
    have "key_eid key = eid" "key \<in> keys w" by (auto simp: keys_def)
    moreover from this obtain e where "map_of (handlers w) key = Some e"
      by (auto simp: keys_map_of)
    ultimately show ?thesis using ToRun Some assms free
      by (intro run) (auto simp: runRegisteredRequest_def)
  qed
qed

lemma map_of_upd_entry:
  "map_of (handlers (upd_entry key f w)) k =
     (if k = key then map_option f (map_of (handlers w) key) else map_of (handlers w) k)"
  by (simp add: upd_entry_def)

lemma distinct_upd_entry [simp]:
  "distinct (map fst (handlers (upd_entry key f w))) = distinct (map fst (handlers w))"
  by (simp add: upd_entry_def)

lemma upd_entry_frame [simp, frame]:
  "ids (upd_entry key f w) = ids w" "socks (upd_entry key f w) = socks w"
  "log (upd_entry key f w) = log w"
  "removeRequestContainer (upd_entry key f w) = removeRequestContainer w"
  "requester.more (upd_entry key f w) = requester.more w"
  by (simp_all add: upd_entry_def)

lemma upd_entry_log: "(upd_entry key f w)\<lparr>log := l\<rparr> = upd_entry key f (w\<lparr>log := l\<rparr>)"
  by (simp add: upd_entry_def)

lemma upd_entry_twice:
  "upd_entry key f (upd_entry key g w) = upd_entry key (\<lambda>e. f (g e)) w"
  by (simp add: upd_entry_def)

text \<open>
  Running one entry changes that entry alone. On failure it stays in the table without a running
  timer and its identifier is free again; on success its timer runs.
\<close>

lemma run_entry_cases:
  assumes "run_entry P eid key e w = Inr (rc, w')"
  obtains (failed) rq l m where "rc \<noteq> 0"
      "w' = (upd_entry key (\<lambda>e. e\<lparr>e_request := rq\<rparr>) (w\<lparr>log := l\<rparr>))\<lparr>ids := m\<rparr>"
      "held m = (held (ids w))(eid := held (ids w) eid - {key_instanceId key})"
  | (started) rq l where "rc = 0"
      "w' = upd_entry key (\<lambda>e. e\<lparr>e_request := rq, e_timer := True\<rparr>) (w\<lparr>log := l\<rparr>)"
proof -
  obtain c rq log1 where start: "RetryTimer_start P (e_request e) (log w) = (c, rq, log1)"
    by (metis surj_pair)
  let ?w1 = "\<lambda>l. upd_entry key (\<lambda>e. e\<lparr>e_request := rq\<rparr>) (w\<lparr>log := l\<rparr>)"
  let ?t = "IO_expiry_timer_start"
  show ?thesis
  proof (cases "c = 0 \<and> 0 \<le> sys P log1 ?t")
    case True
    with assms start show ?thesis
      by (intro started [where rq = rq and l = "log1 @ [?t]"])
        (auto simp: run_entry_def syscall_def upd_entry_log upd_entry_twice)
  next
    case False
    with assms start have rc: "rc \<noteq> 0"
      and "\<exists>l. free_id eid (key_instanceId key) (?w1 l) = Inr w'"
      by (auto simp: run_entry_def Let_def syscall_def upd_entry_log bindR_eq_Inr split: if_splits)
    then obtain l m where "w' = (?w1 l)\<lparr>ids := m\<rparr>"
      "held m = (held (ids w))(eid := held (ids w) eid - {key_instanceId key})"
      by (auto dest!: handlers_free_id)
    with rc show ?thesis
      by (intro failed [where rq = rq and l = l and m = m]) (simp_all add: upd_entry_log)
  qed
qed

text \<open>On a reliable platform an entry that is run is started.\<close>

lemma run_entry_reliable: "run_entry P eid key e w = Inr (rc, w') \<Longrightarrow> reliable P \<Longrightarrow> rc = 0"
  by (auto simp: run_entry_def RetryTimer_start_def request_send_def syscall_def Let_def reliable_def
      bindR_eq_Inr not_less split: if_splits) (metis not_less)+

lemma run_reliable: "reliable P \<Longrightarrow> \<exists>w'. runRegisteredRequest P eid w = Inr (0, w')"
  by (auto simp: runRegisteredRequest_def run_entry_def RetryTimer_start_def request_send_def
      syscall_def Let_def reliable_def not_less [symmetric] split: scan.splits option.splits)

lemma runRegisteredRequest_frame [frame]:
  assumes "runRegisteredRequest P eid w = Inr (rc, w')"
  shows "removeRequestContainer w' = removeRequestContainer w" and "socks w' = socks w"
    and "requester.more w' = requester.more w"
proof -
  from assms have "w' = w \<or> (\<exists>key e. run_entry P eid key e w = Inr (rc, w'))"
    by (auto simp: runRegisteredRequest_def split: scan.splits option.splits)
  then have "removeRequestContainer w' = removeRequestContainer w \<and> socks w' = socks w
    \<and> requester.more w' = requester.more w"
    by (elim disjE exE) (auto elim: run_entry_cases)
  then show "removeRequestContainer w' = removeRequestContainer w" "socks w' = socks w"
    "requester.more w' = requester.more w" by simp_all
qed

text \<open>What the tables' client sees of \<open>runRegisteredRequest\<close>.\<close>

lemma runRegisteredRequest_result:
  assumes "distinct (map fst (handlers w))" and "runRegisteredRequest P eid w = Inr (rc, w')"
  shows "map fst (handlers w') = map fst (handlers w)"
    and "\<And>k. map_option e_handler (map_of (handlers w') k) = map_option e_handler (map_of (handlers w) k)"
    and "removeRequestContainer w' = removeRequestContainer w" and "socks w' = socks w"
    and "requester.more w' = requester.more w"
proof -
  have "map fst (handlers w') = map fst (handlers w)
    \<and> (\<forall>k. map_option e_handler (map_of (handlers w') k) = map_option e_handler (map_of (handlers w) k))
    \<and> removeRequestContainer w' = removeRequestContainer w \<and> socks w' = socks w
    \<and> requester.more w' = requester.more w"
    using assms
  proof (cases rule: runRegisteredRequest_cases)
    case (run key e)
    from run(4) show ?thesis
    proof (cases rule: run_entry_cases)
      case (failed rq l m)
      then show ?thesis by (auto simp: map_of_upd_entry option.map_comp comp_def) (simp add: upd_entry_def)
    next
      case (started rq l)
      then show ?thesis by (auto simp: map_of_upd_entry option.map_comp comp_def) (simp add: upd_entry_def)
    qed
  qed simp_all
  then show "map fst (handlers w') = map fst (handlers w)"
    and "\<And>k. map_option e_handler (map_of (handlers w') k) = map_option e_handler (map_of (handlers w) k)"
    and "removeRequestContainer w' = removeRequestContainer w" and "socks w' = socks w"
    and "requester.more w' = requester.more w" by simp_all
qed

section \<open>The invariant is kept\<close>

lemma running_cong: "handlers w' = handlers w \<Longrightarrow> running w' = running w"
  by (simp add: running_def fun_eq_iff)

lemma keys_cong: "handlers w' = handlers w \<Longrightarrow> keys w' = keys w"
  by (simp add: keys_def)

lemma req_inv_cong: "handlers w' = handlers w \<Longrightarrow> req_inv w' = req_inv w"
  by (simp add: req_inv_def running_cong [of w' w] keys_cong [of w' w])

lemma running_upd_same:
  "(\<And>e. e_timer (f e) = e_timer e) \<Longrightarrow> running (upd_entry key f w) eid = running w eid"
  by (auto simp: running_def map_of_upd_entry split: if_splits)

lemma running_upd_start:
  assumes "map_of (handlers w) key = Some e" "\<And>e. e_timer (f e)"
  shows "running (upd_entry key f w) eid =
    (if key_eid key = eid then insert key (running w eid) else running w eid)"
  using assms by (auto simp: running_def map_of_upd_entry split: if_splits)

lemma running_upd_stop: "running (upd_entry key stop_entry w) eid = running w eid - {key}"
  by (auto simp: running_def map_of_upd_entry stop_entry_def split: if_splits)

lemma running_delete:
  "running (w\<lparr>handlers := AList.delete key (handlers w)\<rparr>) eid = running w eid - {key}"
  by (auto simp: running_def delete_conv')

lemma keys_delete: "keys (w\<lparr>handlers := AList.delete key (handlers w)\<rparr>) = keys w - {key}"
  by (auto simp: keys_def set_delete)

lemma distinct_delete_keys [simp]:
  "distinct (map fst xs) \<Longrightarrow> distinct (map fst (AList.delete key xs))"
  by (rule AList.distinct_delete)

text \<open>An operation that keeps the keys and only takes running requests away keeps the invariant.\<close>

lemma req_inv_shrink:
  assumes "req_inv w" and "distinct (map fst (handlers w'))" and "keys w' \<subseteq> keys w"
    and "\<And>eid. running w' eid \<subseteq> running w eid"
  shows "req_inv w'"
  using assms unfolding req_inv_def by (meson subsetD)

lemma req_inv_distinct: "req_inv w \<Longrightarrow> distinct (map fst (handlers w))"
  by (simp add: req_inv_def)

lemma req_inv_stop [inv_intro]: "req_inv w \<Longrightarrow> req_inv (upd_entry key stop_entry w)"
  by (rule req_inv_shrink) (auto simp: running_upd_stop dest: req_inv_distinct)

lemma req_inv_delete [inv_intro]:
  "req_inv w \<Longrightarrow> req_inv (w\<lparr>handlers := AList.delete key (handlers w)\<rparr>)"
  by (rule req_inv_shrink) (auto simp: running_delete keys_delete dest: req_inv_distinct)

lemma req_inv_free_id [inv_intro]: "free_id eid i w = Inr w' \<Longrightarrow> req_inv w \<Longrightarrow> req_inv w'"
  using req_inv_cong [of w' w] by (auto dest!: handlers_free_id)

lemma runRegisteredRequest_inv [inv_intro]:
  assumes "runRegisteredRequest P eid w = Inr (rc, w')" and "req_inv w"
  shows "req_inv w'"
  using req_inv_distinct [OF assms(2)] assms(1)
proof (cases rule: runRegisteredRequest_cases)
  case (run key e)
  from run(4) show ?thesis
  proof (cases rule: run_entry_cases)
    case (failed rq l m)
    let ?w1 = "upd_entry key (\<lambda>e. e\<lparr>e_request := rq\<rparr>) (w\<lparr>log := l\<rparr>)"
    have "req_inv (w\<lparr>log := l\<rparr>)" using assms(2) req_inv_cong [of "w\<lparr>log := l\<rparr>" w] by simp
    then have "req_inv ?w1"
      by (rule req_inv_shrink) (use assms(2) in \<open>auto simp: running_upd_same req_inv_def\<close>)
    with failed(2) show ?thesis using req_inv_cong [of w' ?w1] by simp
  next
    case (started rq l)
    have r: "running (w\<lparr>log := l\<rparr>) = running w" by (rule running_cong) simp
    have run': "running w' eid' =
        (if key_eid key = eid' then insert key (running w eid') else running w eid')" for eid'
      unfolding started(2) using run(3) by (subst running_upd_start [where e = e]) (simp_all add: r)
    have k': "keys w' = keys w" 
      unfolding started(2) keys_upd_entry by (simp add: keys_def)
    have d': "distinct (map fst (handlers w'))"
      unfolding started(2) using assms(2) by (simp add: req_inv_def)
    from run(1,2) have "running w (key_eid key) = {}" by simp
    with run' k' d' assms(2) show ?thesis by (auto simp: req_inv_def)
  qed
qed (use assms(2) in simp_all)

lemma req_inv_emplace [inv_intro]:
  assumes "req_inv w" and "unat (key_instanceId key) < maxInstanceIds" and "\<not> e_timer e"
  shows "req_inv (w\<lparr>handlers := hash_emplace r key e (handlers w)\<rparr>)"
proof -
  let ?w = "w\<lparr>handlers := hash_emplace r key e (handlers w)\<rparr>"
  note d = req_inv_distinct [OF assms(1)]
  have "running ?w eid = running w eid" for eid
    using d assms(3) by (auto simp: running_def map_of_hash_emplace split: if_splits
        dest: map_of_SomeD intro: rev_image_eqI)
  moreover have "keys ?w \<subseteq> insert key (keys w)" by (auto simp: keys_def set_hash_emplace)
  moreover have "distinct (map fst (handlers ?w))" using d by simp
  ultimately show ?thesis using assms unfolding req_inv_def by auto
qed

lemma registerRequest_run:
  assumes "registerRequest P eid i type command msg rh w = Inr (rc, w')"
  shows "\<exists>wa. runRegisteredRequest P eid wa = Inr (rc, w') \<and> ids wa = ids w
    \<and> removeRequestContainer wa = removeRequestContainer w
    \<and> requester.more wa = requester.more w
    \<and> (\<exists>e. handlers wa = hash_emplace (key_order P) (RequestKey eid i type command) e (handlers w)
         \<and> e_handler e = rh \<and> \<not> e_timer e)"
proof -
  obtain fd s where "getSocket eid (socks w) = (fd, s)" by (metis surj_pair)
  with assms show ?thesis
    by (intro exI [of _ "w\<lparr>socks := s, handlers := hash_emplace (key_order P)
        (RequestKey eid i type command)
        \<lparr>e_request = \<lparr>rq_fd = fd, rq_eid = eid, requestMsg = msg,
            numRetries = numCommandRetries, retry_timer = False\<rparr>,
         e_handler = rh, e_timer = False\<rparr> (handlers w)\<rparr>"])
      (auto simp: registerRequest_def)
qed

lemma registerRequest_inv [inv_intro]:
  assumes "registerRequest P eid i type command msg rh w = Inr (rc, w')"
    and "req_inv w" and "unat i < maxInstanceIds"
  shows "req_inv w'"
proof -
  obtain fd s where "getSocket eid (socks w) = (fd, s)" by (metis surj_pair)
  with assms(1) have run: "runRegisteredRequest P eid
      ((w\<lparr>socks := s\<rparr>)\<lparr>handlers := hash_emplace (key_order P) (RequestKey eid i type command)
          \<lparr>e_request = \<lparr>rq_fd = fd, rq_eid = eid, requestMsg = msg,
              numRetries = numCommandRetries, retry_timer = False\<rparr>,
           e_handler = rh, e_timer = False\<rparr> (handlers (w\<lparr>socks := s\<rparr>))\<rparr>) = Inr (rc, w')"
    by (simp add: registerRequest_def)
  have "req_inv (w\<lparr>socks := s\<rparr>)" using assms(2) req_inv_cong [of "w\<lparr>socks := s\<rparr>" w] by simp
  from runRegisteredRequest_inv [OF run req_inv_emplace [OF this]] assms(3) show ?thesis by simp
qed

section \<open>The interface to the response handlers\<close>

text \<open>
  What the requester asks of the handlers it calls and of the invariant a client wants kept: the
  handlers keep it, and it is kept when an entry is stopped or deleted, an identifier is freed,
  a waiting request is started or a removal is noted. Every operation then keeps it.
\<close>

locale response_contract =
  fixes invoke :: "'rh \<Rightarrow> u8 \<Rightarrow> response \<Rightarrow> ('rh, 'z) requester_scheme
      \<Rightarrow> exn + ('rh, 'z) requester_scheme"
    and I :: "('rh, 'z) requester_scheme \<Rightarrow> bool"
  assumes invoke_keeps: "invoke rh eid r w = Inr w' \<Longrightarrow> I w \<Longrightarrow> I w'"
    and stop_keeps: "I w \<Longrightarrow> I (upd_entry key stop_entry w)"
    and delete_keeps: "I w \<Longrightarrow> I (w\<lparr>handlers := AList.delete key (handlers w)\<rparr>)"
    and free_keeps: "free_id eid i w = Inr w' \<Longrightarrow> I w \<Longrightarrow> I w'"
    and run_keeps: "runRegisteredRequest P eid w = Inr (rc, w') \<Longrightarrow> I w \<Longrightarrow> I w'"
    and note_keeps: "I w \<Longrightarrow> I (w\<lparr>removeRequestContainer := c\<rparr>)"
begin

lemma handleResponse_keeps:
  assumes "handleResponse P invoke key msg len w = Inr w'" and "I w"
  shows "I w'"
proof -
  from assms(1) obtain w2 rc where run: "runRegisteredRequest P (key_eid key) w2 = Inr (rc, w')"
    and first: "(case map_of (handlers w) key of
          Some e \<Rightarrow>
            bindR (free_id (key_eid key) (key_instanceId key) (upd_entry key stop_entry w)) (\<lambda>w1.
              invoke (e_handler e) (key_eid key) (Some (msg, len))
                (w1\<lparr>handlers := AList.delete key (handlers w1)\<rparr>))
        | None \<Rightarrow> free_id (key_eid key) (key_instanceId key) w) = Inr w2"
    by (auto simp: handleResponse_def bindR_eq_Inr)
  from first have "I w2"
    using assms(2) by (auto simp: bindR_eq_Inr split: option.splits
        intro: free_keeps dest!: invoke_keeps intro!: delete_keeps intro: stop_keeps)
  with run show ?thesis by (rule run_keeps)
qed

lemma instanceIdExpiryCallBack_keeps:
  assumes "instanceIdExpiryCallBack invoke key w = Inr w'" and "I w"
  shows "I w'"
proof -
  from assms(1) obtain e where e: "map_of (handlers w) key = Some e"
    by (cases "map_of (handlers w) key") (simp_all add: instanceIdExpiryCallBack_def)
  with assms(1) obtain w1 c where
    "invoke (e_handler e) (key_eid key) None (upd_entry key stop_entry w) = Inr w1"
    and w': "w' = w1\<lparr>removeRequestContainer := c\<rparr>"
    by (auto simp: instanceIdExpiryCallBack_def bindR_eq_Inr)
  with assms(2) have "I w1" by (blast intro: invoke_keeps stop_keeps)
  with w' show ?thesis by (simp add: note_keeps)
qed

lemma removeRequestEntry_keeps:
  assumes "removeRequestEntry P key w = Inr w'" and "I w"
  shows "I w'"
proof -
  from assms(1) obtain w2 rc where run: "runRegisteredRequest P (key_eid key) w2 = Inr (rc, w')"
    and first: "(if key \<in> set (removeRequestContainer w)
        then bindR (free_id (key_eid key) (key_instanceId key) w) (\<lambda>w1.
          Inr (w1\<lparr>handlers := AList.delete key (handlers w1),
                  removeRequestContainer := remove1 key (removeRequestContainer w1)\<rparr>))
        else Inr w) = Inr w2"
    by (auto simp: removeRequestEntry_def bindR_eq_Inr)
  have "I w2"
  proof (cases "key \<in> set (removeRequestContainer w)")
    case True
    with first obtain w1 c where fr: "free_id (key_eid key) (key_instanceId key) w = Inr w1"
      and w2: "w2 = (w1\<lparr>handlers := AList.delete key (handlers w1)\<rparr>)\<lparr>removeRequestContainer := c\<rparr>"
      by (auto simp: bindR_eq_Inr)
    show ?thesis unfolding w2
      by (rule note_keeps) (rule delete_keeps [OF free_keeps [OF fr assms(2)]])
  qed (use first assms(2) in simp)
  with run show ?thesis by (rule run_keeps)
qed

end

text \<open>A client that keeps the requester's own invariant.\<close>

locale response_client =
  fixes invoke :: "'rh \<Rightarrow> u8 \<Rightarrow> response \<Rightarrow> ('rh, 'z) requester_scheme
      \<Rightarrow> exn + ('rh, 'z) requester_scheme"
  assumes invoke_inv: "invoke rh eid r w = Inr w' \<Longrightarrow> req_inv w \<Longrightarrow> req_inv w'"

sublocale response_client \<subseteq> response_contract invoke req_inv
proof
  show "invoke rh eid r w = Inr w' \<Longrightarrow> req_inv w \<Longrightarrow> req_inv w'" for rh eid r w w'
    by (rule invoke_inv)
  show "free_id eid i w = Inr w' \<Longrightarrow> req_inv w \<Longrightarrow> req_inv w'"
    for eid i and w w' :: "('a, 'b) requester_scheme" by (rule req_inv_free_id)
  show "runRegisteredRequest P eid w = Inr (rc, w') \<Longrightarrow> req_inv w \<Longrightarrow> req_inv w'"
    for P eid rc and w w' :: "('a, 'b) requester_scheme" by (rule runRegisteredRequest_inv)
  show "req_inv w \<Longrightarrow> req_inv (w\<lparr>removeRequestContainer := c\<rparr>)"
    for w :: "('a, 'b) requester_scheme" and c
    using req_inv_cong [of "w\<lparr>removeRequestContainer := c\<rparr>" w] by simp
qed (auto intro: req_inv_stop req_inv_delete)

text \<open>
  A property of the client's own members alone: the requester keeps it as soon as the handlers do.
\<close>

locale client_contract =
  fixes invoke :: "'rh \<Rightarrow> u8 \<Rightarrow> response \<Rightarrow> ('rh, 'z) requester_scheme
      \<Rightarrow> exn + ('rh, 'z) requester_scheme"
    and I :: "('rh, 'z) requester_scheme \<Rightarrow> bool"
  assumes invoke_more: "invoke rh eid r w = Inr w' \<Longrightarrow> I w \<Longrightarrow> I w'"
    and only_more: "requester.more w' = requester.more w \<Longrightarrow> I w \<Longrightarrow> I w'"

sublocale client_contract \<subseteq> response_contract invoke I
proof
  show "invoke rh eid r w = Inr w' \<Longrightarrow> I w \<Longrightarrow> I w'" for rh eid r w w'
    by (rule invoke_more)
  show "free_id eid i w = Inr w' \<Longrightarrow> I w \<Longrightarrow> I w'" for eid i w w'
    by (rule only_more) (auto dest!: handlers_free_id)
  show "runRegisteredRequest P eid w = Inr (rc, w') \<Longrightarrow> I w \<Longrightarrow> I w'" for P eid rc w w'
    by (rule only_more) (rule runRegisteredRequest_frame(3))
qed (rule only_more, simp_all)+

lemma retry_tick_inv [inv_intro]:
  assumes "req_inv w" shows "req_inv (retry_tick P key w)"
proof -
  have "req_inv (upd_entry key (\<lambda>e. e\<lparr>e_request := rq\<rparr>) (w\<lparr>log := l\<rparr>))" for rq l
  proof -
    have "req_inv (w\<lparr>log := l\<rparr>)" using assms req_inv_cong [of "w\<lparr>log := l\<rparr>" w] by simp
    then show ?thesis
      by (rule req_inv_shrink) (use assms in \<open>auto simp: running_upd_same req_inv_def\<close>)
  qed
  with assms show ?thesis by (auto simp: retry_tick_def split: option.splits prod.splits)
qed

section \<open>A client that records its calls\<close>

text \<open>
  To state how often and with what a response handler is called: a client whose state, the
  extension of the requester's record, is the list of the calls made so far.
\<close>

type_synonym 'rh call = "'rh \<times> u8 \<times> response"

definition record_call ::
    "'rh \<Rightarrow> u8 \<Rightarrow> response \<Rightarrow> ('rh, 'rh call list) requester_scheme
      \<Rightarrow> exn + ('rh, 'rh call list) requester_scheme" where
  "record_call rh eid r w = Inr (requester.more_update (\<lambda>calls. calls @ [(rh, eid, r)]) w)"

interpretation recorder: response_client record_call
proof
  fix rh eid r and w w' :: "('rh, 'rh call list) requester_scheme"
  assume "record_call rh eid r w = Inr w'" and inv: "req_inv w"
  then have "handlers w' = handlers w" by (auto simp: record_call_def)
  from req_inv_cong [OF this] inv show "req_inv w'" by simp
qed

lemma keys_run:
  assumes "runRegisteredRequest P eid w = Inr (rc, w')" and "distinct (map fst (handlers w))"
  shows "keys w' = keys w"
  using runRegisteredRequest_result(1) [OF assms(2,1)] unfolding keys_def by (metis set_map)

lemma handleResponse_recorded:
  assumes "handleResponse P record_call key msg len w = Inr w'" and "req_inv w"
  shows "requester.more w' = requester.more w @
      (case map_of (handlers w) key of Some e \<Rightarrow> [(e_handler e, key_eid key, Some (msg, len))] | None \<Rightarrow> [])"
    and "keys w' = keys w - {key}"
proof -
  from assms(1) obtain w2 rc where run: "runRegisteredRequest P (key_eid key) w2 = Inr (rc, w')"
    and first: "(case map_of (handlers w) key of
          Some e \<Rightarrow>
            bindR (free_id (key_eid key) (key_instanceId key) (upd_entry key stop_entry w)) (\<lambda>w1.
              record_call (e_handler e) (key_eid key) (Some (msg, len))
                (w1\<lparr>handlers := AList.delete key (handlers w1)\<rparr>))
        | None \<Rightarrow> free_id (key_eid key) (key_instanceId key) w) = Inr w2"
    by (auto simp: handleResponse_def bindR_eq_Inr)
  have w2: "requester.more w2 = requester.more w @
      (case map_of (handlers w) key of Some e \<Rightarrow> [(e_handler e, key_eid key, Some (msg, len))] | None \<Rightarrow> [])
    \<and> keys w2 = keys w - {key} \<and> distinct (map fst (handlers w2))"
  proof (cases "map_of (handlers w) key")
    case None
    then have "key \<notin> keys w" by (simp add: keys_map_of)
    with None first req_inv_distinct [OF assms(2)] show ?thesis
      by (auto dest!: handlers_free_id simp: keys_def)
  next
    case (Some e)
    with first have h: "handlers w2 = AList.delete key (handlers (upd_entry key stop_entry w))"
      and m: "requester.more w2 = requester.more w @ [(e_handler e, key_eid key, Some (msg, len))]"
      by (auto simp: bindR_eq_Inr record_call_def dest!: handlers_free_id)
    from h have "keys w2 = keys (upd_entry key stop_entry w) - {key}"
      by (auto simp: keys_def set_delete)
    moreover from h req_inv_distinct [OF assms(2)] have "distinct (map fst (handlers w2))" by simp
    ultimately show ?thesis using m Some by simp
  qed
  from w2 runRegisteredRequest_result(5) [OF _ run] show "requester.more w' = requester.more w @
      (case map_of (handlers w) key of Some e \<Rightarrow> [(e_handler e, key_eid key, Some (msg, len))] | None \<Rightarrow> [])"
    by simp
  from w2 keys_run [OF run] show "keys w' = keys w - {key}" by simp
qed

text \<open>A registration that reports a failure for an endpoint without other requests.\<close>

lemma registerRequest_failed:
  assumes "req_inv w" and "eid \<notin> key_eid ` keys w"
    and "registerRequest P eid i type command msg rh w = Inr (rc, w1)" and "rc \<noteq> 0"
  shows "map_option e_handler (map_of (handlers w1) (RequestKey eid i type command)) = Some rh"
    and "running w1 eid = {}" and "held (ids w1) = (held (ids w))(eid := held (ids w) eid - {i})"
    and "distinct (map fst (handlers w1))" and "keys w1 = insert (RequestKey eid i type command) (keys w)"
proof -
  let ?key = "RequestKey eid i type command"
  from registerRequest_run [OF assms(3)] obtain wa e where
    run: "runRegisteredRequest P eid wa = Inr (rc, w1)" and ids: "ids wa = ids w"
    and e: "handlers wa = hash_emplace (key_order P) ?key e (handlers w)" "e_handler e = rh"
    by blast
  note d = req_inv_distinct [OF assms(1)]
  from assms(2) have fresh: "?key \<notin> keys w" by force
  with d e have at: "map_of (handlers wa) ?key = Some e" and da: "distinct (map fst (handlers wa))"
    by (simp_all add: map_of_hash_emplace keys_def)
  from fresh e have ka: "keys wa = insert ?key (keys w)" by (simp add: keys_def set_hash_emplace)
  note res = runRegisteredRequest_result [OF da run]
  from res(2) [of ?key] at e(2)
  show "map_option e_handler (map_of (handlers w1) ?key) = Some rh" by simp
  show "distinct (map fst (handlers w1))" using res(1) da by simp
  show "keys w1 = insert ?key (keys w)" using keys_run [OF run da] ka by simp
  from da run have "running w1 eid = {} \<and> held (ids w1) = (held (ids w))(eid := held (ids w) eid - {i})"
  proof (cases rule: runRegisteredRequest_cases)
    case (run k e')
    from run(3) have "k \<in> keys wa" by (simp add: keys_map_of)
    with ka run(2) assms(2) have k: "k = ?key" by auto
    from run(4) show ?thesis
    proof (cases rule: run_entry_cases)
      case (failed rq l m)
      have "running w1 eid = running wa eid"
        unfolding failed(2) by (auto simp: running_def map_of_upd_entry split: if_splits)
      with run(1) failed k ids show ?thesis by simp
    qed (use assms(4) in simp)
  qed (use assms(4) in simp_all)
  then show "running w1 eid = {}" "held (ids w1) = (held (ids w))(eid := held (ids w) eid - {i})"
    by simp_all
qed

text \<open>A registration under a key that is present keeps the old entry and drops the new handler.\<close>

lemma registerRequest_present:
  assumes "registerRequest P eid i type command msg rh w = Inr (rc, w1)"
    and "RequestKey eid i type command \<in> keys w" and "distinct (map fst (handlers w))"
  shows "map_option e_handler (map_of (handlers w1) k) = map_option e_handler (map_of (handlers w) k)"
proof -
  from registerRequest_run [OF assms(1)] obtain wb e2 where
    run: "runRegisteredRequest P eid wb = Inr (rc, w1)"
    and "handlers wb = hash_emplace (key_order P) (RequestKey eid i type command) e2 (handlers w)"
    by blast
  with assms(2) have hb: "handlers wb = handlers w" by (simp add: hash_emplace_def keys_def)
  with assms(3) have "distinct (map fst (handlers wb))" by simp
  from runRegisteredRequest_result(2) [OF this run, of k] hb show ?thesis by simp
qed

section \<open>Properties\<close>

text \<open>A requester with nothing registered, and one with a single running request to endpoint 9.\<close>

definition sample_requester :: "(nat, nat call list) requester_scheme" where
  "sample_requester = \<lparr>handlers = [], removeRequestContainer = [], ids = [9 \<mapsto> 1],
     socks = sock_init, log = [], \<dots> = []\<rparr>"

abbreviation sample_key :: RequestKey where
  "sample_key \<equiv> RequestKey 9 0 1 0x13"

definition sample_running :: "(nat, nat call list) requester_scheme" where
  "sample_running = sample_requester\<lparr>handlers :=
     [(sample_key, \<lparr>e_request = sample_request 3, e_handler = 42, e_timer = True\<rparr>)]\<rparr>"

lemma sample_requester_inv: "req_inv sample_requester"
  by (simp add: sample_requester_def req_inv_def keys_def running_def)

lemma sample_running_inv: "req_inv sample_running"
  by (auto simp: sample_running_def sample_requester_def req_inv_def keys_def running_def
      maxInstanceIds_def split: if_splits)

lemmas sample_world_defs = sample_running_def sample_requester_def sock_init_def

text \<open>
  No request waits while its endpoint is idle. When \<open>runRegisteredRequest\<close> reports success, the
  endpoint has a running request exactly if it has any request at all; when it reports a failure,
  none is running.
\<close>

theorem run_starts_waiting_request:
  assumes "req_inv w" and "runRegisteredRequest P eid w = Inr (rc, w')"
  shows "(running w' eid \<noteq> {}) = (rc = 0 \<and> eid \<in> key_eid ` keys w')"
  using req_inv_distinct [OF assms(1)] assms(2)
proof (cases rule: runRegisteredRequest_cases)
  case busy
  then show ?thesis using running_subset_keys [of w eid] by (auto simp: running_def keys_map_of)
next
  case idle
  then show ?thesis by (auto simp: running_def keys_map_of)
next
  case (run key e)
  from run(4) show ?thesis
  proof (cases rule: run_entry_cases)
    case (failed rq l m)
    have "running w' eid = running w eid"
      unfolding failed(2) by (auto simp: running_def map_of_upd_entry split: if_splits)
    with run(1) failed(1) show ?thesis by simp
  next
    case (started rq l)
    have "key \<in> running w' eid"
      unfolding started(2) using run(2,3) by (simp add: running_def map_of_upd_entry)
    with run(2) started(1) running_subset_keys [of w' eid] show ?thesis by auto
  qed
qed

theorem run_starts_waiting_request_witness:
  "running (upd_entry sample_key (\<lambda>e. e\<lparr>e_timer := False\<rparr>) sample_running) 9 = {}
   \<and> (\<exists>w'. runRegisteredRequest (kind_platform DaemonRequest) 9
        (upd_entry sample_key (\<lambda>e. e\<lparr>e_timer := False\<rparr>) sample_running) = Inr (0, w')
      \<and> running w' 9 \<noteq> {})"
proof -
  let ?w = "upd_entry sample_key (\<lambda>e. e\<lparr>e_timer := False\<rparr>) sample_running"
  have idle: "running ?w 9 = {}"
    by (auto simp: running_def map_of_upd_entry sample_world_defs split: if_splits)
  have inv: "req_inv ?w"
    by (rule req_inv_shrink [OF sample_running_inv])
      (auto simp: running_def map_of_upd_entry sample_world_defs split: if_splits)
  obtain w' where run: "runRegisteredRequest (kind_platform DaemonRequest) 9 ?w = Inr (0, w')"
    by (simp add: runRegisteredRequest_def run_entry_def sample_world_defs upd_entry_def sample_defs)
  have "sample_key \<in> keys w'" using keys_run [OF run] inv by (simp add: req_inv_distinct)
      (simp add: keys_def sample_world_defs)
  then have "9 \<in> key_eid ` keys w'" by force
  with idle run run_starts_waiting_request [OF inv run] show ?thesis by blast
qed



text \<open>
  C40: a response that arrives between the expiry of a request's identifier and the deferred removal
  of its entry calls the request's handler a second time: once with no response, once with the late
  one.
\<close>

theorem late_response_calls_handler_again:
  assumes "req_inv w" and "map_of (handlers w) key = Some e"
    and "instanceIdExpiryCallBack record_call key w = Inr w1"
    and "handleResponse P record_call key msg len w1 = Inr w2"
  shows "requester.more w2 = requester.more w @
    [(e_handler e, key_eid key, None), (e_handler e, key_eid key, Some (msg, len))]"
proof -
  from assms(2,3) have h: "handlers w1 = handlers (upd_entry key stop_entry w)"
    and m: "requester.more w1 = requester.more w @ [(e_handler e, key_eid key, None)]"
    by (auto simp: instanceIdExpiryCallBack_def record_call_def)
  have "req_inv w1" using assms(1,3) by (rule recorder.instanceIdExpiryCallBack_keeps [rotated])
  moreover have "map_of (handlers w1) key = Some (stop_entry e)"
    unfolding h by (simp add: map_of_upd_entry assms(2))
  ultimately show ?thesis using handleResponse_recorded(1) [OF assms(4)] m
    by (simp add: stop_entry_def)
qed

theorem late_response_calls_handler_again_witness:
  "\<exists>w2. bindR (instanceIdExpiryCallBack record_call sample_key sample_running)
      (handleResponse (kind_platform DaemonRequest) record_call sample_key [1] 1) = Inr w2
    \<and> requester.more w2 = [(42, 9, None), (42, 9, Some ([1], 1))]"
proof -
  let ?P = "kind_platform DaemonRequest"
  have e: "map_of (handlers sample_running) sample_key =
      Some \<lparr>e_request = sample_request 3, e_handler = 42, e_timer = True\<rparr>"
    by (simp add: sample_world_defs)
  note ev = handleResponse_def sample_world_defs free_id_def markFree_def InstanceId_markFree_def
    maxInstanceIds_def record_call_def runRegisteredRequest_def upd_entry_def
    instanceIdExpiryCallBack_def
  obtain w1 where h1: "instanceIdExpiryCallBack record_call sample_key sample_running = Inr w1"
    by (simp add: ev)
  then have w1: "handlers w1 = handlers (upd_entry sample_key stop_entry sample_running)"
    "ids w1 = ids sample_running"
    by (auto simp: ev)
  obtain w2 where h2: "handleResponse ?P record_call sample_key [1] 1 w1 = Inr w2"
    using w1 by (simp add: ev)
  from late_response_calls_handler_again [OF sample_running_inv e h1 h2] h1 h2 show ?thesis
    by (simp add: sample_world_defs)
qed

text \<open>
  A request whose first send (or expiry timer) fails is reported as failed but stays registered,
  stopped, with the failed caller's handler, while its identifier is free again. The next
  registration under that identifier does not replace it: the new handler is dropped and the entry
  keeps the handler of the call that already failed.
\<close>

theorem failed_send_leaves_entry:
  assumes "req_inv w" and "eid \<notin> key_eid ` keys w"
    and "registerRequest P eid i type command msg rh w = Inr (rc, w1)" and "rc \<noteq> 0"
    and "registerRequest P eid i type command msg' rh' w1 = Inr (rc', w2)"
  shows "map_option e_handler (map_of (handlers w1) (RequestKey eid i type command)) = Some rh
    \<and> running w1 eid = {} \<and> i \<notin> held (ids w1) eid
    \<and> map_option e_handler (map_of (handlers w2) (RequestKey eid i type command)) = Some rh"
proof -
  note F = registerRequest_failed [OF assms(1-4)]
  have "RequestKey eid i type command \<in> keys w1" by (simp add: F(5))
  from registerRequest_present [OF assms(5) this F(4)] F show ?thesis by simp
qed

text \<open>A platform on which every send fails with \<open>EAGAIN\<close>.\<close>

definition sendless_platform :: platform where
  "sendless_platform = (kind_platform DaemonRequest)\<lparr>sys := (\<lambda>log c. -11)\<rparr>"

theorem failed_send_leaves_entry_witness:
  "\<exists>w1 w2. registerRequest sendless_platform 9 0 1 0x13 [1] 42 sample_requester = Inr (-11, w1)
    \<and> registerRequest sendless_platform 9 0 1 0x13 [2] 43 w1 = Inr (-11, w2)
    \<and> map_option e_handler (map_of (handlers w2) sample_key) = Some 42"
proof -
  note ev = registerRequest_def runRegisteredRequest_def run_entry_def sample_world_defs
    sendless_platform_def sample_defs getSocket_def hash_emplace_def upd_entry_def free_id_def
    markFree_def InstanceId_markFree_def maxInstanceIds_def numCommandRetries_def
  obtain w1 where w1: "registerRequest sendless_platform 9 0 1 0x13 [1] 42 sample_requester = Inr (-11, w1)"
    by (simp add: ev)
  obtain w2 where w2: "registerRequest sendless_platform 9 0 1 0x13 [2] 43 w1 = Inr (-11, w2)"
    using w1 by (auto simp: ev)
  have "9 \<notin> key_eid ` keys sample_requester" by (simp add: keys_def sample_world_defs)
  from failed_send_leaves_entry [OF sample_requester_inv this w1 _ w2] w1 w2 show ?thesis by auto
qed

text \<open>
  C31: a response that matches no registered request still releases its identifier. When it carries
  the identifier of a running request but another type or command (another process's traffic), the
  identifier becomes free while that request is still waiting for its answer.
\<close>

theorem stray_response_frees_running_id:
  assumes "req_inv w" and "RequestKey eid i type command \<in> running w eid"
    and "RequestKey eid i type' command' \<notin> keys w"
    and "handleResponse P invoke (RequestKey eid i type' command') msg len w = Inr w'"
  shows "RequestKey eid i type command \<in> running w' eid \<and> i \<notin> held (ids w') eid"
proof -
  let ?stray = "RequestKey eid i type' command'"
  from assms(3) have "map_of (handlers w) ?stray = None" by (simp add: keys_map_of)
  with assms(4) obtain w1 rc where free: "free_id eid i w = Inr w1"
    and run: "runRegisteredRequest P eid w1 = Inr (rc, w')"
    by (auto simp: handleResponse_def bindR_eq_Inr)
  from handlers_free_id [OF free] obtain m where w1: "w1 = w\<lparr>ids := m\<rparr>"
    and m: "held m = (held (ids w))(eid := held (ids w) eid - {i})" by blast
  have r: "running w1 = running w" unfolding w1 by (rule running_cong) simp
  have "w' = w1"
    using req_inv_distinct [OF req_inv_free_id [OF free assms(1)]] run
    by (cases rule: runRegisteredRequest_cases) (use assms(2) r in auto)
  with r m w1 assms(2) show ?thesis by simp
qed

theorem stray_response_frees_running_id_witness:
  "\<exists>w'. handleResponse (kind_platform DaemonRequest) record_call (RequestKey 9 0 1 0x7A) [1] 1
       sample_running = Inr w'
    \<and> 0 \<in> held (ids sample_running) 9 \<and> sample_key \<in> running w' 9 \<and> 0 \<notin> held (ids w') 9"
proof -
  have run: "sample_key \<in> running sample_running 9"
    by (simp add: running_def sample_world_defs)
  have new: "RequestKey 9 0 1 0x7A \<notin> keys sample_running"
    by (simp add: keys_def sample_world_defs)
  have held: "0 \<in> held (ids sample_running) 9"
    by (simp add: sample_world_defs held_def ids_at_def maxInstanceIds_def)
  obtain w' where h: "handleResponse (kind_platform DaemonRequest) record_call
      (RequestKey 9 0 1 0x7A) [1] 1 sample_running = Inr w'"
    by (simp add: handleResponse_def sample_world_defs free_id_def markFree_def
        InstanceId_markFree_def maxInstanceIds_def runRegisteredRequest_def)
  from stray_response_frees_running_id [OF sample_running_inv run new h] h held show ?thesis by blast
qed

end
