(* ===== verification/RequesterSpec.thy ===== *)
theory RequesterSpec
  imports RequestHandler
begin

text \<open>
  What the requester promises, without its hash table, timers and identifiers: a scheduler that keeps
  the registered handlers by key, runs at most one request per endpoint, never leaves an endpoint
  with registered requests idle, and calls a handler when its request is answered or expires. Which
  of several waiting requests is run next is not specified. The operations of \<open>handler.hpp\<close> refine
  it on a platform whose calls succeed.
\<close>

section \<open>The specification\<close>

record 'rh scheduler =
  registered :: "RequestKey \<rightharpoonup> 'rh"
  runs :: "u8 \<rightharpoonup> RequestKey"
  to_remove :: "RequestKey set"
  called :: "'rh call list"

datatype 'rh operation =
    Register RequestKey bytes 'rh
  | Respond RequestKey bytes u64
  | Expire RequestKey
  | Remove RequestKey

text \<open>An endpoint without a running request runs one of those registered for it, if there are any.\<close>

inductive settles :: "u8 \<Rightarrow> 'rh scheduler \<Rightarrow> 'rh scheduler \<Rightarrow> bool" for eid where
  busy: "runs s eid \<noteq> None \<Longrightarrow> settles eid s s"
| idle: "\<forall>k\<in>dom (registered s). key_eid k \<noteq> eid \<Longrightarrow> settles eid s s"
| starts: "runs s eid = None \<Longrightarrow> k \<in> dom (registered s) \<Longrightarrow> key_eid k = eid \<Longrightarrow>
    settles eid s (s\<lparr>runs := (runs s)(eid \<mapsto> k)\<rparr>)"

definition drop_key :: "RequestKey \<Rightarrow> 'rh scheduler \<Rightarrow> 'rh scheduler" where
  "drop_key k s = s\<lparr>registered := (registered s)(k := None),
     runs := (if runs s (key_eid k) = Some k then (runs s)(key_eid k := None) else runs s)\<rparr>"

inductive performs :: "'rh scheduler \<Rightarrow> 'rh operation \<Rightarrow> 'rh scheduler \<Rightarrow> bool" where
  register: "settles (key_eid k)
      (s\<lparr>registered := (if k \<in> dom (registered s) then registered s
         else (registered s)(k \<mapsto> rh))\<rparr>) s' \<Longrightarrow> performs s (Register k msg rh) s'"
| respond: "registered s k = Some rh \<Longrightarrow>
    settles (key_eid k) ((drop_key k s)\<lparr>called := called s @ [(rh, key_eid k, Some (msg, len))]\<rparr>) s' \<Longrightarrow>
    performs s (Respond k msg len) s'"
| stray: "registered s k = None \<Longrightarrow> settles (key_eid k) s s' \<Longrightarrow> performs s (Respond k msg len) s'"
| expire: "runs s (key_eid k) = Some k \<Longrightarrow> registered s k = Some rh \<Longrightarrow>
    performs s (Expire k) (s\<lparr>runs := (runs s)(key_eid k := None), to_remove := insert k (to_remove s),
      called := called s @ [(rh, key_eid k, None)]\<rparr>)"
| remove: "k \<in> to_remove s \<Longrightarrow>
    settles (key_eid k) ((drop_key k s)\<lparr>to_remove := to_remove s - {k}\<rparr>) s' \<Longrightarrow>
    performs s (Remove k) s'"

inductive performs_all :: "'rh scheduler \<Rightarrow> 'rh operation list \<Rightarrow> 'rh scheduler \<Rightarrow> bool" where
  none: "performs_all s [] s"
| more: "performs s op s' \<Longrightarrow> performs_all s' ops s'' \<Longrightarrow> performs_all s (op # ops) s''"

section \<open>The operations of the code\<close>

text \<open>
  With recorded calls as the handlers. An expiry fires for an armed timer, a removal for a request
  it has been scheduled for; identifiers fit the pool, as those of received headers do.
\<close>

fun enabled :: "'rh operation \<Rightarrow> ('rh, 'rh call list) requester_scheme \<Rightarrow> bool" where
  "enabled (Register k msg rh) w \<longleftrightarrow> unat (key_instanceId k) < maxInstanceIds"
| "enabled (Respond k msg len) w \<longleftrightarrow> unat (key_instanceId k) < maxInstanceIds"
| "enabled (Expire k) w \<longleftrightarrow> k \<in> running w (key_eid k)"
| "enabled (Remove k) w \<longleftrightarrow> k \<in> set (removeRequestContainer w)"

fun execute ::
    "platform \<Rightarrow> 'rh operation \<Rightarrow> ('rh, 'rh call list) requester_scheme
      \<Rightarrow> exn + ('rh, 'rh call list) requester_scheme" where
  "execute P (Register k msg rh) w =
     bindR (registerRequest P (key_eid k) (key_instanceId k) (key_type k) (key_command k) msg rh w)
       (\<lambda>(rc, w'). Inr w')"
| "execute P (Respond k msg len) w = handleResponse P record_call k msg len w"
| "execute P (Expire k) w = instanceIdExpiryCallBack record_call k w"
| "execute P (Remove k) w = removeRequestEntry P k w"

text \<open>The state represents a state of the specification.\<close>

definition schedules :: "('rh, 'rh call list) requester_scheme \<Rightarrow> 'rh scheduler \<Rightarrow> bool" where
  "schedules w s \<longleftrightarrow> req_inv w
     \<and> registered s = (\<lambda>k. map_option e_handler (map_of (handlers w) k))
     \<and> (\<forall>eid k. runs s eid = Some k \<longleftrightarrow> k \<in> running w eid)
     \<and> to_remove s = set (removeRequestContainer w) \<and> distinct (removeRequestContainer w)
     \<and> (\<forall>k\<in>to_remove s. unat (key_instanceId k) < maxInstanceIds)
     \<and> called s = requester.more w"

section \<open>Lemmas\<close>

lemma schedules_registered: "schedules w s \<Longrightarrow> k \<in> dom (registered s) \<longleftrightarrow> k \<in> keys w"
  by (auto simp: schedules_def keys_map_of)

lemma schedules_idle: "schedules w s \<Longrightarrow> runs s eid = None \<longleftrightarrow> running w eid = {}"
  unfolding schedules_def by (metis equals0D ex_in_conv not_None_eq)

lemma schedules_runs: "schedules w s \<Longrightarrow> runs s eid = Some k \<longleftrightarrow> k \<in> running w eid"
  by (simp add: schedules_def)

lemma running_eid: "k \<in> running w eid \<Longrightarrow> key_eid k = eid"
  by (simp add: running_def)

lemma settles_run:
  assumes "schedules w s" and "reliable P" and "runRegisteredRequest P eid w = Inr (rc, w')"
  shows "\<exists>s'. settles eid s s' \<and> schedules w' s'"
proof -
  from assms(1) have inv: "req_inv w" by (simp add: schedules_def)
  note d = req_inv_distinct [OF inv]
  from d assms(3) show ?thesis
  proof (cases rule: runRegisteredRequest_cases)
    case busy
    with assms(1) schedules_idle [OF assms(1), of eid] show ?thesis by (auto intro: settles.busy)
  next
    case idle
    then have "\<forall>k\<in>dom (registered s). key_eid k \<noteq> eid" by (simp add: schedules_registered [OF assms(1)])
    with idle assms(1) show ?thesis by (auto intro: settles.idle)
  next
    case (run key e)
    from run(4) run_entry_reliable [OF run(4) assms(2)] show ?thesis
    proof (cases rule: run_entry_cases)
      case (started rq l)
      let ?s = "s\<lparr>runs := (runs s)(eid \<mapsto> key)\<rparr>"
      have "running (w\<lparr>log := l\<rparr>) = running w" by (rule running_cong) simp
      then have r: "running w' eid' = (if key_eid key = eid' then insert key (running w eid') else running w eid')"
        for eid' unfolding started(2) using run(3) by (subst running_upd_start [where e = e]) simp_all
      have h: "map_option e_handler (map_of (handlers w') k) = map_option e_handler (map_of (handlers w) k)"
        for k using run(3) by (simp add: started(2) map_of_upd_entry)
      have f: "removeRequestContainer w' = removeRequestContainer w" "requester.more w' = requester.more w"
        by (simp_all add: started(2))
      have "req_inv w'" by (rule runRegisteredRequest_inv [OF assms(3) inv])
      with assms(1) r h f run(1,2) have "schedules w' ?s" by (auto simp: schedules_def)
      moreover have "settles eid s ?s"
      proof (rule settles.starts)
        show "runs s eid = None" using schedules_idle [OF assms(1)] run(1) by simp
        show "key \<in> dom (registered s)" using run(3) by (simp add: schedules_registered [OF assms(1)] keys_map_of)
      qed (rule run(2))
      ultimately show ?thesis by blast
    qed simp
  qed
qed

lemma delete_map_entry: "AList.delete k (AList.map_entry k f xs) = AList.delete k xs"
  by (induction xs) (auto simp: AList.delete_eq)

lemma schedules_drop:
  assumes "schedules w s" and "handlers w' = AList.delete k (handlers w)"
    and "removeRequestContainer w' = removeRequestContainer w"
    and "requester.more w' = requester.more w @ c"
  shows "schedules w' ((drop_key k s)\<lparr>called := called s @ c\<rparr>)"
proof -
  from assms(1) have inv: "req_inv w" by (simp add: schedules_def)
  let ?w = "w\<lparr>handlers := AList.delete k (handlers w)\<rparr>"
  have h: "handlers w' = handlers ?w" using assms(2) by simp
  have r: "running w' eid = running w eid - {k}" for eid
    using running_cong [OF h] running_delete [of k w eid] by simp
  have "req_inv w'" using req_inv_delete [OF inv] req_inv_cong [OF h] by simp
  moreover have "map_option e_handler (map_of (handlers w') k')
      = ((registered s)(k := None)) k'" for k'
    using assms(1,2) by (simp add: schedules_def delete_conv')
  moreover have "(runs (drop_key k s) eid = Some k') = (k' \<in> running w' eid)" for eid k'
  proof (cases "k \<in> running w (key_eid k)")
    case True
    then have "k' \<in> running w (key_eid k) \<longleftrightarrow> k' = k" for k'
      using schedules_runs [OF assms(1)] by (metis option.inject)
    with True show ?thesis
      using schedules_runs [OF assms(1)] running_eid [of k w] by (auto simp: r drop_key_def)
  next
    case False
    then have "k \<notin> running w eid" using running_eid [of k w eid] by auto
    with False show ?thesis using schedules_runs [OF assms(1)] by (auto simp: r drop_key_def)
  qed
  ultimately show ?thesis using assms by (auto simp: schedules_def drop_key_def)
qed

lemma schedules_cong:
  assumes "schedules w s" and "handlers w' = handlers w"
    and "removeRequestContainer w' = removeRequestContainer w" and "requester.more w' = requester.more w"
  shows "schedules w' s"
  using assms req_inv_cong [OF assms(2)] running_cong [OF assms(2)] by (simp add: schedules_def)

lemma free_id_schedules:
  assumes "free_id eid i w = Inr w'" and "schedules w s"
  shows "schedules w' s"
proof -
  from handlers_free_id [OF assms(1)] obtain m where "w' = w\<lparr>ids := m\<rparr>" by blast
  with schedules_cong [OF assms(2), of w'] show ?thesis by simp
qed

section \<open>Each operation\<close>

lemma register_performs:
  assumes "schedules w s" and "reliable P" and "enabled (Register k msg rh) w"
  shows "\<exists>w' s'. execute P (Register k msg rh) w = Inr w' \<and> performs s (Register k msg rh) s'
    \<and> schedules w' s'"
proof -
  from assms(1) have inv: "req_inv w" by (simp add: schedules_def)
  obtain fd so where so: "getSocket (key_eid k) (socks w) = (fd, so)" by (metis surj_pair)
  let ?e = "\<lparr>e_request = \<lparr>rq_fd = fd, rq_eid = key_eid k, requestMsg = msg,
    numRetries = numCommandRetries, retry_timer = False\<rparr>, e_handler = rh, e_timer = False\<rparr>"
  let ?w = "w\<lparr>socks := so, handlers := hash_emplace (key_order P) k ?e (handlers w)\<rparr>"
  let ?s = "s\<lparr>registered := (if k \<in> dom (registered s) then registered s
    else (registered s)(k \<mapsto> rh))\<rparr>"
  have d: "distinct (map fst (handlers w))" by (rule req_inv_distinct [OF inv])
  have "req_inv (w\<lparr>socks := so\<rparr>)" using inv req_inv_cong [of "w\<lparr>socks := so\<rparr>" w] by simp
  from req_inv_emplace [OF this, of k ?e] assms(3) have inv': "req_inv ?w" by simp
  have m: "map_of (handlers ?w) k' = (if k' = k \<and> k \<notin> keys w then Some ?e else map_of (handlers w) k')" for k'
    using map_of_hash_emplace [OF d, of "key_order P" k ?e] by (auto simp: keys_def hash_emplace_def)
  have "running ?w eid = running w eid" for eid
    using m by (auto simp: running_def keys_map_of split: if_splits)
  with assms(1) inv' m schedules_registered [OF assms(1), of k] have "schedules ?w ?s"
    by (auto simp: schedules_def keys_map_of fun_eq_iff)
  moreover from run_reliable [OF assms(2)] obtain w' where
    run: "runRegisteredRequest P (key_eid k) ?w = Inr (0, w')" by blast
  ultimately obtain s' where "settles (key_eid k) ?s s'" "schedules w' s'"
    using settles_run [OF _ assms(2)] by blast
  moreover have "execute P (Register k msg rh) w = Inr w'"
    using so run by (simp add: registerRequest_def)
  ultimately show ?thesis by (auto intro: performs.register)
qed

text \<open>The step common to a response and a removal: the entry goes, then the endpoint settles.\<close>

lemma settled_after:
  assumes "schedules w s" and "reliable P"
  shows "\<exists>w' s'. bindR (runRegisteredRequest P eid w) (\<lambda>(rc, w3). Inr w3) = Inr w'
    \<and> settles eid s s' \<and> schedules w' s'"
proof -
  from run_reliable [OF assms(2)] obtain w' where "runRegisteredRequest P eid w = Inr (0, w')" by blast
  with settles_run [OF assms] show ?thesis by fastforce
qed

lemma respond_performs:
  assumes "schedules w s" and "reliable P" and "enabled (Respond k msg len) w"
  shows "\<exists>w' s'. execute P (Respond k msg len) w = Inr w' \<and> performs s (Respond k msg len) s'
    \<and> schedules w' s'"
proof (cases "map_of (handlers w) k")
  case None
  then have reg: "registered s k = None" using assms(1) by (simp add: schedules_def)
  from free_id_ok assms(3) obtain w1 where f: "free_id (key_eid k) (key_instanceId k) w = Inr w1" by fastforce
  from settled_after [OF free_id_schedules [OF f assms(1)] assms(2)] obtain w' s' where
    "bindR (runRegisteredRequest P (key_eid k) w1) (\<lambda>(rc, w3). Inr w3) = Inr w'"
    "settles (key_eid k) s s'" "schedules w' s'" by blast
  with None f reg show ?thesis by (auto simp: handleResponse_def intro: performs.stray)
next
  case (Some e)
  then have reg: "registered s k = Some (e_handler e)" using assms(1) by (simp add: schedules_def)
  let ?w0 = "upd_entry k stop_entry w"
  from free_id_ok assms(3) obtain w1 where f: "free_id (key_eid k) (key_instanceId k) ?w0 = Inr w1"
    by fastforce
  from handlers_free_id [OF f] obtain m where w1: "w1 = ?w0\<lparr>ids := m\<rparr>" by blast
  let ?c = "[(e_handler e, key_eid k, Some (msg, len))]"
  let ?w2 = "requester.more_update (\<lambda>calls. calls @ ?c) (w1\<lparr>handlers := AList.delete k (handlers w1)\<rparr>)"
  have "schedules ?w2 ((drop_key k s)\<lparr>called := called s @ ?c\<rparr>)"
    by (rule schedules_drop [OF assms(1)]) (simp_all add: w1 upd_entry_def delete_map_entry)
  from settled_after [OF this assms(2)] obtain w' s' where
    "bindR (runRegisteredRequest P (key_eid k) ?w2) (\<lambda>(rc, w3). Inr w3) = Inr w'"
    "settles (key_eid k) ((drop_key k s)\<lparr>called := called s @ ?c\<rparr>) s'" "schedules w' s'" by blast
  with Some f reg show ?thesis
    by (auto simp: handleResponse_def record_call_def intro: performs.respond)
qed

lemma expire_performs:
  assumes "schedules w s" and "enabled (Expire k) w"
  shows "\<exists>w' s'. execute P (Expire k) w = Inr w' \<and> performs s (Expire k) s' \<and> schedules w' s'"
proof -
  from assms(2) obtain e where e: "map_of (handlers w) k = Some e" by (auto simp: running_def)
  from assms(1) have inv: "req_inv w" by (simp add: schedules_def)
  let ?w0 = "upd_entry k stop_entry w" and ?c = "[(e_handler e, key_eid k, None)]"
  let ?w' = "(requester.more_update (\<lambda>calls. calls @ ?c) ?w0)\<lparr>removeRequestContainer :=
    (if k \<in> set (removeRequestContainer w) then removeRequestContainer w
     else removeRequestContainer w @ [k])\<rparr>"
  let ?s' = "s\<lparr>runs := (runs s)(key_eid k := None), to_remove := insert k (to_remove s),
    called := called s @ ?c\<rparr>"
  have ex: "execute P (Expire k) w = Inr ?w'"
    using e by (simp add: instanceIdExpiryCallBack_def record_call_def)
  have perf: "performs s (Expire k) ?s'"
    using assms e by (intro performs.expire) (auto simp: schedules_def)
  have h: "handlers ?w' = handlers ?w0" by simp
  have r: "running ?w' eid = running w eid - {k}" for eid
    using running_cong [OF h] running_upd_stop [of k w eid] by simp
  have "req_inv ?w'" using req_inv_stop [OF inv] req_inv_cong [OF h] by simp
  moreover have "map_option e_handler (map_of (handlers ?w') k') = registered s k'" for k'
    using assms(1) by (simp add: schedules_def map_of_upd_entry stop_entry_def option.map_comp o_def)
  moreover have "(runs ?s' eid = Some k') = (k' \<in> running ?w' eid)" for eid k'
  proof -
    have "k' \<in> running w (key_eid k) \<longleftrightarrow> k' = k" for k'
      using schedules_runs [OF assms(1)] assms(2) by (metis enabled.simps(3) option.inject)
    then show ?thesis
      using schedules_runs [OF assms(1)] running_eid [of k w] unfolding r by auto
  qed
  moreover have "unat (key_instanceId k) < maxInstanceIds"
    using inv e by (auto simp: req_inv_def keys_map_of)
  ultimately have "schedules ?w' ?s'" using assms(1) by (auto simp: schedules_def)
  with ex perf show ?thesis by blast
qed

lemma remove_performs:
  assumes "schedules w s" and "reliable P" and "enabled (Remove k) w"
  shows "\<exists>w' s'. execute P (Remove k) w = Inr w' \<and> performs s (Remove k) s' \<and> schedules w' s'"
proof -
  from assms(1,3) have k: "k \<in> to_remove s" and i: "unat (key_instanceId k) < maxInstanceIds"
    by (auto simp: schedules_def)
  from free_id_ok [OF i] obtain w1 where f: "free_id (key_eid k) (key_instanceId k) w = Inr w1" by blast
  from handlers_free_id [OF f] obtain m where w1: "w1 = w\<lparr>ids := m\<rparr>" by blast
  let ?w2 = "w1\<lparr>handlers := AList.delete k (handlers w1),
    removeRequestContainer := remove1 k (removeRequestContainer w1)\<rparr>"
  let ?s2 = "(drop_key k s)\<lparr>to_remove := to_remove s - {k}\<rparr>"
  have "schedules (w1\<lparr>handlers := AList.delete k (handlers w1)\<rparr>) ((drop_key k s)\<lparr>called := called s @ []\<rparr>)"
    by (rule schedules_drop [OF assms(1)]) (simp_all add: w1)
  then have "schedules ?w2 ?s2"
    using req_inv_cong [of ?w2 "w1\<lparr>handlers := AList.delete k (handlers w1)\<rparr>"]
      running_cong [of ?w2 "w1\<lparr>handlers := AList.delete k (handlers w1)\<rparr>"] assms(1)
    by (auto simp: schedules_def drop_key_def w1)
  from settled_after [OF this assms(2)] obtain w' s' where
    "bindR (runRegisteredRequest P (key_eid k) ?w2) (\<lambda>(rc, w3). Inr w3) = Inr w'"
    "settles (key_eid k) ?s2 s'" "schedules w' s'" by blast
  with k f assms(3) show ?thesis
    by (auto simp: removeRequestEntry_def intro: performs.remove)
qed

lemma execute_performs:
  assumes "schedules w s" and "reliable P" and "enabled op w"
  shows "\<exists>w' s'. execute P op w = Inr w' \<and> performs s op s' \<and> schedules w' s'"
proof (cases op)
  case (Register k msg rh)
  with register_performs [OF assms(1,2)] assms(3) show ?thesis by blast
next
  case (Respond k msg len)
  with respond_performs [OF assms(1,2)] assms(3) show ?thesis by blast
next
  case (Expire k)
  with expire_performs [OF assms(1)] assms(3) show ?thesis by blast
next
  case (Remove k)
  with remove_performs [OF assms(1,2)] assms(3) show ?thesis by blast
qed

section \<open>Property\<close>

fun execute_all ::
    "platform \<Rightarrow> 'rh operation list \<Rightarrow> ('rh, 'rh call list) requester_scheme
      \<Rightarrow> exn + ('rh, 'rh call list) requester_scheme" where
  "execute_all P [] w = Inr w"
| "execute_all P (op # ops) w = bindR (execute P op w) (execute_all P ops)"

text \<open>Each operation is enabled when its turn comes.\<close>

fun feasible :: "platform \<Rightarrow> 'rh operation list \<Rightarrow> ('rh, 'rh call list) requester_scheme \<Rightarrow> bool" where
  "feasible P [] w \<longleftrightarrow> True"
| "feasible P (op # ops) w \<longleftrightarrow>
     enabled op w \<and> (case execute P op w of Inl e \<Rightarrow> True | Inr w' \<Rightarrow> feasible P ops w')"

text \<open>
  C16: the requester refines the scheduler. On a platform whose calls succeed, every sequence of
  registrations, responses, expiries and removals, in any order in which the event loop can deliver
  them, runs to its end without failing, and the specification performs the same sequence with the
  same handlers registered, the same requests running, the same removals due and the same handlers
  called with the same responses in the same order.
\<close>

theorem requester_refines_scheduler:
  assumes "reliable P" and "schedules w s" and "feasible P ops w"
  shows "\<exists>w' s'. execute_all P ops w = Inr w' \<and> performs_all s ops s' \<and> schedules w' s'"
  using assms(2,3)
proof (induction ops arbitrary: w s)
  case Nil
  then show ?case by (auto intro: performs_all.none)
next
  case (Cons op ops)
  from Cons.prems(2) have "enabled op w" by simp
  from execute_performs [OF Cons.prems(1) assms(1) this] obtain w1 s1 where
    w1: "execute P op w = Inr w1" "performs s op s1" "schedules w1 s1" by blast
  with Cons.prems(2) have "feasible P ops w1" by simp
  from Cons.IH [OF w1(3) this] w1 show ?case by (auto intro: performs_all.more)
qed

inductive_cases performs_allE: "performs_all s [] s'" "performs_all s (op # ops) s'"
inductive_cases performsE: "performs s (Register k msg rh) s'" "performs s (Respond k msg len) s'"
inductive_cases settlesE: "settles eid s s'"

definition sample_scheduler :: "nat scheduler" where
  "sample_scheduler = \<lparr>registered = Map.empty, runs = Map.empty, to_remove = {}, called = []\<rparr>"

theorem requester_refines_scheduler_witness:
  "\<exists>w'. execute_all (kind_platform DaemonRequest)
      [Register sample_key [1] 42, Respond sample_key [7] 1, Respond sample_key [7] 1] sample_requester
      = Inr w' \<and> requester.more w' = [(42, 9, Some ([7], 1))]"
proof -
  let ?P = "kind_platform DaemonRequest"
  let ?ops = "[Register sample_key [1] 42, Respond sample_key [7] 1, Respond sample_key [7] 1]"
  have "reliable ?P" by (simp add: reliable_def kind_platform_def)
  moreover have "schedules sample_requester sample_scheduler"
    using sample_requester_inv
    by (simp add: schedules_def) (simp add: sample_requester_def sample_scheduler_def running_def)
  moreover have "feasible ?P ?ops sample_requester"
    by (simp add: maxInstanceIds_def split: sum.splits)
  ultimately obtain w' s' where w': "execute_all ?P ?ops sample_requester = Inr w'" "schedules w' s'"
    and "performs_all sample_scheduler ?ops s'" using requester_refines_scheduler by blast
  then have "called s' = [(42, 9, Some ([7], 1))]"
    by (auto elim!: performs_allE performsE settlesE simp: sample_scheduler_def drop_key_def
        split: if_splits)
  with w' show ?thesis by (auto simp: schedules_def)
qed

end
