(* ===== verification/Receive.thy ===== *)
theory Receive
  imports RequestHandler
begin

text \<open>
  The receiving half of the socket handlers (\<open>oem/nvidia/socket_handler.cpp\<close>): what
  \<open>DaemonHandler::handleReceivedMsg\<close> and \<open>InKernelHandler::handleReceivedMsg\<close> do with the bytes of a
  datagram, and \<open>processRxMsg\<close>, which reads the header in place and hands a response to the
  requester. The results of the two \<open>recv\<close> calls are the event's data.
\<close>

section \<open>Receiving\<close>

text \<open>
  A readable socket: whether \<open>EPOLLIN\<close> is set, the length that peeking reports (negative for an
  error), the result of the second read, the bytes it delivered and, in the kernel transport, the
  sender.
\<close>

record rx_event =
  rx_epollin :: bool
  rx_peeked :: int
  rx_result :: int
  rx_data :: bytes
  rx_sender :: u8

text \<open>A vector of \<open>n\<close> zero bytes whose front the read overwrites.\<close>

definition rx_buffer :: "rx_event \<Rightarrow> bytes" where
  "rx_buffer ev = take (nat (rx_peeked ev)) (rx_data ev @ replicate (nat (rx_peeked ev)) 0)"

definition processRxMsg ::
    "platform \<Rightarrow> ('rh \<Rightarrow> u8 \<Rightarrow> response \<Rightarrow> ('rh, 'z) requester_scheme \<Rightarrow> exn + ('rh, 'z) requester_scheme)
      \<Rightarrow> u8 \<Rightarrow> bytes \<Rightarrow> ('rh, 'z) requester_scheme \<Rightarrow> exn + ('rh, 'z) requester_scheme" where
  "processRxMsg P invoke eid msg w =
     bindR (read_request msg) (\<lambda>req.
       if req = 0 then
         (let responseLen = word_of_nat (length msg) - word_of_nat sizeof_MsgHeader
          in bindR (read_instanceId msg) (\<lambda>i.
             bindR (read_msgType msg) (\<lambda>t.
             bindR (read_commandCode msg) (\<lambda>c.
               handleResponse P invoke (RequestKey eid i t c) msg responseLen w))))
       else Inr w)"

definition Daemon_handleReceivedMsg ::
    "platform \<Rightarrow> ('rh \<Rightarrow> u8 \<Rightarrow> response \<Rightarrow> ('rh, 'z) requester_scheme \<Rightarrow> exn + ('rh, 'z) requester_scheme)
      \<Rightarrow> rx_event \<Rightarrow> ('rh, 'z) requester_scheme \<Rightarrow> exn + ('rh, 'z) requester_scheme" where
  "Daemon_handleReceivedMsg P invoke ev w =
     (if \<not> rx_epollin ev then Inr w
      else if rx_peeked ev = 0 then Inr (w\<lparr>log := log w @ [IO_event_exit 0]\<rparr>)
      else if rx_peeked ev < 0 then Inr w
      else if rx_result ev = rx_peeked ev then
        bindR (read_byte (rx_buffer ev) 2) (\<lambda>ty.
          if ty \<noteq> messageType then Inr w
          else bindR (read_byte (rx_buffer ev) 1) (\<lambda>eid.
            processRxMsg P invoke eid (drop 3 (rx_buffer ev)) w))
      else Inr w)"

definition InKernel_handleReceivedMsg ::
    "platform \<Rightarrow> ('rh \<Rightarrow> u8 \<Rightarrow> response \<Rightarrow> ('rh, 'z) requester_scheme \<Rightarrow> exn + ('rh, 'z) requester_scheme)
      \<Rightarrow> rx_event \<Rightarrow> ('rh, 'z) requester_scheme \<Rightarrow> exn + ('rh, 'z) requester_scheme" where
  "InKernel_handleReceivedMsg P invoke ev w =
     (if \<not> rx_epollin ev then Inr w
      else if rx_peeked ev = 0 then Inr (w\<lparr>log := log w @ [IO_event_exit 0]\<rparr>)
      else if rx_peeked ev < 0 then Inr w
      else if rx_result ev \<noteq> rx_peeked ev then Inr w
      else processRxMsg P invoke (rx_sender ev) (rx_buffer ev) w)"

definition handleReceivedMsg ::
    "platform \<Rightarrow> ('rh \<Rightarrow> u8 \<Rightarrow> response \<Rightarrow> ('rh, 'z) requester_scheme \<Rightarrow> exn + ('rh, 'z) requester_scheme)
      \<Rightarrow> rx_event \<Rightarrow> ('rh, 'z) requester_scheme \<Rightarrow> exn + ('rh, 'z) requester_scheme" where
  "handleReceivedMsg P invoke ev w =
     (case transport P of
        DaemonRequest \<Rightarrow> Daemon_handleReceivedMsg P invoke ev w
      | InKernelRequest \<Rightarrow> InKernel_handleReceivedMsg P invoke ev w)"

section \<open>Lemmas\<close>

text \<open>A datagram read completely, from \<open>sender\<close>.\<close>

definition datagram :: "u8 \<Rightarrow> bytes \<Rightarrow> rx_event" where
  "datagram sender bs =
     \<lparr>rx_epollin = True, rx_peeked = int (length bs), rx_result = int (length bs),
      rx_data = bs, rx_sender = sender\<rparr>"

lemma rx_buffer_datagram [simp]: "rx_buffer (datagram s bs) = bs"
  by (simp add: rx_buffer_def datagram_def)

lemma datagram_simps [simp]:
  "rx_epollin (datagram s bs)" "rx_peeked (datagram s bs) = int (length bs)"
  "rx_result (datagram s bs) = int (length bs)" "rx_sender (datagram s bs) = s"
  by (simp_all add: datagram_def)

lemma read_header_bytes:
  "read_request (header_bytes h @ rest) = Inr (hdr_request h)"
  "read_instanceId (header_bytes h @ rest) = Inr (ucast (hdr_instanceId h))"
  "read_msgType (header_bytes h @ rest) = Inr (hdr_msgType h)"
  "read_commandCode (header_bytes h @ rest) = Inr (hdr_commandCode h)"
  by (simp_all add: read_defs header_bytes_def store32_def bitfield_byte_fields)

lemma processRxMsg_header:
  "processRxMsg P invoke eid (header_bytes h @ payload) w =
     (if hdr_request h = 0
      then handleResponse P invoke
        (RequestKey eid (ucast (hdr_instanceId h)) (hdr_msgType h) (hdr_commandCode h))
        (header_bytes h @ payload) (word_of_nat (length payload)) w
      else Inr w)"
  by (simp add: processRxMsg_def read_header_bytes)

lemma processRxMsg_short:
  "length bs < 5 \<Longrightarrow> processRxMsg P invoke eid bs w = Inl UndefinedBehaviour"
  by (simp add: processRxMsg_def read_defs)

text \<open>What the response handlers keep is kept by everything a datagram can cause.\<close>

context response_contract
begin

lemma processRxMsg_keeps:
  assumes "processRxMsg P invoke eid msg w = Inr w'" and "I w"
  shows "I w'"
proof (cases "w' = w")
  case False
  with assms(1) obtain key len where "handleResponse P invoke key msg len w = Inr w'"
    by (auto simp: processRxMsg_def bindR_eq_Inr Let_def split: if_splits)
  then show ?thesis using assms(2) by (rule handleResponse_keeps)
qed (use assms(2) in simp)

lemma handleReceivedMsg_keeps:
  assumes "handleReceivedMsg P invoke ev w = Inr w'" and "I w"
    and "I (w\<lparr>log := log w @ [IO_event_exit 0]\<rparr>)"
  shows "I w'"
  using assms
  by (auto simp: handleReceivedMsg_def Daemon_handleReceivedMsg_def InKernel_handleReceivedMsg_def
      bindR_eq_Inr split: transport.splits if_splits dest: processRxMsg_keeps)

end

context client_contract
begin

lemma received_keeps:
  assumes "handleReceivedMsg P invoke ev w = Inr w'" and "I w"
  shows "I w'"
  using assms by (rule handleReceivedMsg_keeps) (rule only_more [OF _ assms(2)], simp)

lemma retry_tick_keeps: "I w \<Longrightarrow> I (retry_tick P key w)"
  by (erule only_more [rotated]) (auto simp: retry_tick_def split: option.splits prod.splits)

end

text \<open>An incoming response key always carries an identifier of the pool.\<close>

lemma unat_read_instanceId: "read_instanceId bs = Inr i \<Longrightarrow> unat i < 32"
  by (auto simp: read_instanceId_def bindR_eq_Inr unsigned_ucast_eq take_bit_eq_mod unat_mod)

lemma one_bit_word_0: "(w :: 1 word) = 0 \<longleftrightarrow> \<not> bit w 0"
proof
  assume "\<not> bit w 0"
  then show "w = 0" by (intro bit_word_eqI) simp
qed simp

section \<open>Properties\<close>

text \<open>
  A complete datagram reaches the requester as the protocol says. Over the demux daemon, the
  bytes tag, endpoint, type \<open>0x7F\<close> and a message with any header are a response from that endpoint
  under the header's identifier, type and command, with the payload's length, exactly when the
  request bit is clear; a datagram of another type is skipped. The in-kernel transport does the
  same with the sender's address and no frame.
\<close>

theorem datagram_dispatched:
  "Daemon_handleReceivedMsg P invoke (datagram s (tag # eid # ty # header_bytes h @ payload)) w =
     (if ty = messageType \<and> hdr_request h = 0
      then handleResponse P invoke
        (RequestKey eid (ucast (hdr_instanceId h)) (hdr_msgType h) (hdr_commandCode h))
        (header_bytes h @ payload) (word_of_nat (length payload)) w
      else Inr w)
   \<and> InKernel_handleReceivedMsg P invoke (datagram eid (header_bytes h @ payload)) w =
     (if hdr_request h = 0
      then handleResponse P invoke
        (RequestKey eid (ucast (hdr_instanceId h)) (hdr_msgType h) (hdr_commandCode h))
        (header_bytes h @ payload) (word_of_nat (length payload)) w
      else Inr w)"
  by (simp add: Daemon_handleReceivedMsg_def InKernel_handleReceivedMsg_def read_byte_def
      processRxMsg_header sizeof_MsgHeader_def)

text \<open>
  C38: no length is checked before the header is read. A demux datagram of one or two bytes, one of
  VDM type with fewer than five bytes behind the frame, and an in-kernel message of fewer than five
  bytes are all read past their end.
\<close>

theorem truncated_datagram_overread:
  assumes "bs \<noteq> []" and "length bs < 3 \<or> length bs < 8 \<and> bs ! 2 = messageType"
    and "msg \<noteq> []" and "length msg < 5"
  shows "Daemon_handleReceivedMsg P invoke (datagram s bs) w = Inl UndefinedBehaviour
    \<and> InKernel_handleReceivedMsg P invoke (datagram s msg) w = Inl UndefinedBehaviour"
proof
  show "Daemon_handleReceivedMsg P invoke (datagram s bs) w = Inl UndefinedBehaviour"
  proof (cases "length bs < 3")
    case True
    with assms(1) show ?thesis by (simp add: Daemon_handleReceivedMsg_def read_byte_def)
  next
    case False
    with assms(2) have "length (drop 3 bs) < 5" "bs ! 2 = messageType" by auto
    with False assms(1) show ?thesis
      by (simp add: Daemon_handleReceivedMsg_def read_byte_def processRxMsg_short)
  qed
  show "InKernel_handleReceivedMsg P invoke (datagram s msg) w = Inl UndefinedBehaviour"
    using assms(3,4) by (simp add: InKernel_handleReceivedMsg_def processRxMsg_short)
qed

theorem truncated_datagram_overread_witness:
  "Daemon_handleReceivedMsg (kind_platform DaemonRequest) record_call (datagram 0 [8, 9, 0x7F])
     sample_requester = Inl UndefinedBehaviour"
proof -
  have a: "[8, 9, 0x7F] \<noteq> ([] :: bytes)" by simp
  have b: "length [8, 9, 0x7F :: u8] < 3
      \<or> length [8, 9, 0x7F :: u8] < 8 \<and> [8, 9, 0x7F] ! 2 = messageType"
    by (simp add: messageType_def)
  have c: "[1] \<noteq> ([] :: bytes)" "length [1 :: u8] < 5" by simp_all
  from truncated_datagram_overread [OF a b c] show ?thesis by blast
qed

text \<open>
  A response one byte shorter than the header is not rejected: the length computed for it
  wraps round to the largest \<open>size_t\<close>, and the requester is given the seven bytes under that
  length.
\<close>

theorem short_response_length_wraps:
  "processRxMsg P invoke eid [b0, b1, b2, b3, b4, t, c] w =
     (if \<not> bit b4 7
      then handleResponse P invoke (RequestKey eid (b4 AND 0x1F) t c)
        [b0, b1, b2, b3, b4, t, c] 0xFFFFFFFFFFFFFFFF w
      else Inr w)"
proof -
  have "((ucast (drop_bit 7 b4) :: 1 word) = 0) = (\<not> bit b4 7)"
    by (simp add: one_bit_word_0 bit_simps)
  moreover have "(ucast (ucast b4 :: 5 word) :: u8) = b4 AND 0x1F"
  proof -
    have "(0x1F :: u8) = mask 5" by (simp add: mask_eq_exp_minus_1)
    moreover have "ucast (ucast b4 :: 5 word) = b4 AND mask 5"
      by (auto simp: bit_simps intro!: bit_word_eqI)
    ultimately show ?thesis by simp
  qed
  moreover have m: "(0xFFFFFFFFFFFFFFFF :: u64) = - 1" by simp
  ultimately show ?thesis unfolding m
    by (simp add: processRxMsg_def read_defs sizeof_MsgHeader_def)
qed

text \<open>
  When the peer closes the connection both transports end the event loop with exit code 0, so
  the process ends as if it had succeeded, and touch nothing else.
\<close>

theorem closed_connection_exits_0:
  assumes "rx_epollin ev" and "rx_peeked ev = 0"
  shows "handleReceivedMsg P invoke ev w = Inr (w\<lparr>log := log w @ [IO_event_exit 0]\<rparr>)"
  using assms
  by (simp add: handleReceivedMsg_def Daemon_handleReceivedMsg_def InKernel_handleReceivedMsg_def
      split: transport.splits)

theorem closed_connection_exits_0_witness:
  "handleReceivedMsg (kind_platform DaemonRequest) record_call (datagram 0 []) sample_requester =
     Inr (sample_requester\<lparr>log := [IO_event_exit 0]\<rparr>)"
proof -
  have "rx_epollin (datagram 0 [])" "rx_peeked (datagram 0 []) = 0" by simp_all
  from closed_connection_exits_0 [OF this, of "kind_platform DaemonRequest" record_call sample_requester]
  show ?thesis by (simp add: sample_requester_def)
qed

end
