(* ===== verification/MediumQueue.thy ===== *)
theory MediumQueue
  imports Prelude "HOL-Library.Multiset"
begin

text \<open>
  The queue of one ERoT's endpoints, best medium first (\<open>MctpEidInfo\<close> and
  \<open>MCTPEidInfoPriorityQueue\<close> of \<open>oem/nvidia/erot_time_manager.hpp\<close>): a \<open>std::priority_queue\<close> over the
  inverted comparison of medium priorities. The comparison throws for a medium that is not in the
  table. The heap is the vector the adaptor holds, with the sift-up of \<open>std::push_heap\<close>; the
  manager pushes, reads the top and iterates over the vector.
\<close>

section \<open>Media\<close>

definition media_prefix :: string where
  "media_prefix = ''xyz.openbmc_project.MCTP.Endpoint.MediaTypes.''"

definition mediumPriority :: "string \<rightharpoonup> int" where
  "mediumPriority = map_of
     [(media_prefix @ ''PCIe'', 0), (media_prefix @ ''SPI'', 1), (media_prefix @ ''I3C'', 2),
      (media_prefix @ ''USB'', 3), (media_prefix @ ''SMBus'', 4)]"

record MctpEidInfo =
  info_eid :: u8
  info_medium :: string

text \<open>\<open>operator<\<close>: \<open>mediumPriority.at(lhs) > mediumPriority.at(rhs)\<close>.\<close>

definition info_less :: "MctpEidInfo \<Rightarrow> MctpEidInfo \<Rightarrow> exn + bool" where
  "info_less lhs rhs =
     (case (mediumPriority (info_medium lhs), mediumPriority (info_medium rhs)) of
        (Some p, Some q) \<Rightarrow> Inr (q < p)
      | _ \<Rightarrow> Inl OutOfRange)"

section \<open>The heap\<close>

text \<open>\<open>std::push_heap\<close>: move the hole up while its parent is less than the new element.\<close>

function sift_up :: "MctpEidInfo \<Rightarrow> nat \<Rightarrow> MctpEidInfo list \<Rightarrow> exn + MctpEidInfo list" where
  "sift_up v hole c =
     (if hole = 0 then Inr (c[0 := v])
      else bindR (info_less (c ! ((hole - 1) div 2)) v) (\<lambda>lt.
        if lt then sift_up v ((hole - 1) div 2) (c[hole := c ! ((hole - 1) div 2)])
        else Inr (c[hole := v])))"
  by pat_completeness auto
termination
  by (relation "measure (\<lambda>(v, hole, c). hole)") auto

declare sift_up.simps [simp del]

definition pq_push :: "MctpEidInfo \<Rightarrow> MctpEidInfo list \<Rightarrow> exn + MctpEidInfo list" where
  "pq_push v c = sift_up v (length c) (c @ [v])"

text \<open>\<open>top\<close> reads the first element; on an empty queue that is undefined behaviour.\<close>

definition pq_top :: "MctpEidInfo list \<Rightarrow> exn + MctpEidInfo" where
  "pq_top c = (case c of [] \<Rightarrow> Inl UndefinedBehaviour | x # _ \<Rightarrow> Inr x)"

section \<open>The heap order\<close>

definition known :: "MctpEidInfo \<Rightarrow> bool" where
  "known x \<longleftrightarrow> mediumPriority (info_medium x) \<noteq> None"

definition rank :: "MctpEidInfo \<Rightarrow> int" where
  "rank x = (case mediumPriority (info_medium x) of Some p \<Rightarrow> p | None \<Rightarrow> 5)"

definition heap_inv :: "MctpEidInfo list \<Rightarrow> bool" where
  "heap_inv c \<longleftrightarrow> (\<forall>i. 0 < i \<and> i < length c \<longrightarrow> rank (c ! ((i - 1) div 2)) \<le> rank (c ! i))"

lemma info_less_known: "known x \<Longrightarrow> known y \<Longrightarrow> info_less x y = Inr (rank y < rank x)"
  by (auto simp: info_less_def known_def rank_def)

lemma info_less_unknown: "\<not> known x \<or> \<not> known y \<Longrightarrow> info_less x y = Inl OutOfRange"
  by (auto simp: info_less_def known_def split: option.splits)

text \<open>
  While the hole is at \<open>h\<close>, the vector with the new element put there is a heap but for the
  edge above \<open>h\<close>, and \<open>h\<close>'s children are no better than \<open>h\<close>'s parent.
\<close>

definition hole_inv :: "MctpEidInfo \<Rightarrow> nat \<Rightarrow> MctpEidInfo list \<Rightarrow> bool" where
  "hole_inv v h c \<longleftrightarrow> h < length c
     \<and> (\<forall>i. 0 < i \<and> i < length c \<and> i \<noteq> h \<longrightarrow> rank (c[h := v] ! ((i - 1) div 2)) \<le> rank (c[h := v] ! i))
     \<and> (\<forall>i. 0 < i \<and> i < length c \<and> 0 < h \<and> (i - 1) div 2 = h
          \<longrightarrow> rank (c ! ((h - 1) div 2)) \<le> rank (c ! i))"

lemma hole_inv_step:
  assumes "hole_inv v h c" and "0 < h" and "rank v < rank (c ! ((h - 1) div 2))"
  shows "hole_inv v ((h - 1) div 2) (c[h := c ! ((h - 1) div 2)])"
proof -
  let ?p = "(h - 1) div 2"
  let ?c' = "c[h := c ! ?p]"
  from assms(1,2) have h: "h < length c" "?p < h" by (auto simp: hole_inv_def)
  have edge: "rank (c[h := v] ! ((i - 1) div 2)) \<le> rank (c[h := v] ! i)"
    if "0 < i" "i < length c" "i \<noteq> h" for i
    using assms(1) that by (simp add: hole_inv_def)
  have child: "rank (c ! ?p) \<le> rank (c ! i)" if "0 < i" "i < length c" "(i - 1) div 2 = h" for i
    using assms(1,2) that by (simp add: hole_inv_def)
  have self: "(i - 1) div 2 \<noteq> i" if "0 < i" for i :: nat using that by auto
  have "rank (?c'[?p := v] ! ((i - 1) div 2)) \<le> rank (?c'[?p := v] ! i)"
    if i: "0 < i" "i < length c" "i \<noteq> ?p" for i
  proof (cases "i = h")
    case True
    with h assms(3) show ?thesis by simp
  next
    case False
    consider "(i - 1) div 2 = h" | "(i - 1) div 2 = ?p" | "(i - 1) div 2 \<noteq> h" "(i - 1) div 2 \<noteq> ?p"
      by blast
    then show ?thesis
    proof cases
      case 1
      with child [of i] i False h show ?thesis by simp
    next
      case 2
      with edge [of i] i False h assms(3) show ?thesis by simp
    next
      case 3
      with edge [of i] i False h show ?thesis by simp
    qed
  qed
  moreover have "rank (?c' ! ((?p - 1) div 2)) \<le> rank (?c' ! i)"
    if i: "0 < i" "i < length c" "0 < ?p" "(i - 1) div 2 = ?p" for i
  proof -
    have pp: "(?p - 1) div 2 \<noteq> h" using h by linarith
    have up: "rank (c ! ((?p - 1) div 2)) \<le> rank (c ! ?p)"
      using edge [of ?p] i h pp by simp
    show ?thesis
    proof (cases "i = h")
      case True
      with up h pp show ?thesis by simp
    next
      case False
      with edge [of i] i h up pp show ?thesis by simp
    qed
  qed
  moreover have "?p < length c" using h by simp
  ultimately show ?thesis unfolding hole_inv_def length_list_update by blast
qed

lemma hole_inv_stop:
  assumes "hole_inv v h c" and "h = 0 \<or> rank (c ! ((h - 1) div 2)) \<le> rank v"
  shows "heap_inv (c[h := v])"
  unfolding heap_inv_def
proof (intro allI impI)
  fix i assume i: "0 < i \<and> i < length (c[h := v])"
  show "rank (c[h := v] ! ((i - 1) div 2)) \<le> rank (c[h := v] ! i)"
  proof (cases "i = h")
    case True
    then have "(h - 1) div 2 \<noteq> h" using i by auto
    with True assms i show ?thesis by simp
  next
    case False
    with assms(1) i show ?thesis by (simp add: hole_inv_def)
  qed
qed

lemma mset_swap_hole:
  assumes "h < length c" and "p < length c" and "p \<noteq> h"
  shows "mset (c[h := c ! p, p := v]) = mset (c[h := v])"
proof -
  have "mset (c[h := c ! p, p := v]) = add_mset v (mset (c[h := c ! p]) - {#c ! p#})"
    using assms by (simp add: mset_update)
  also have "\<dots> = add_mset v (mset c - {#c ! h#})"
    using assms(1) by (simp add: mset_update)
  finally show ?thesis using assms(1) by (simp add: mset_update)
qed

lemma sift_up_spec:
  "hole_inv v h c \<Longrightarrow> known v \<Longrightarrow> list_all known c \<Longrightarrow>
     \<exists>c'. sift_up v h c = Inr c' \<and> heap_inv c' \<and> mset c' = mset (c[h := v])"
proof (induction v h c rule: sift_up.induct)
  case (1 v h c)
  show ?case
  proof (cases "h = 0")
    case True
    with hole_inv_stop [OF 1(2)] show ?thesis by (subst sift_up.simps) simp
  next
    case False
    let ?p = "(h - 1) div 2"
    from 1(2) False have h: "h < length c" "?p < h" by (auto simp: hole_inv_def)
    with 1(4) have "known (c ! ?p)" by (simp add: list_all_length)
    with 1(3) have less: "info_less (c ! ?p) v = Inr (rank v < rank (c ! ?p))"
      by (simp add: info_less_known)
    show ?thesis
    proof (cases "rank v < rank (c ! ?p)")
      case True
      have "list_all known (c[h := c ! ?p])"
        using 1(4) h by (auto simp: list_all_length nth_list_update)
      with True 1(1) [OF False less] hole_inv_step [OF 1(2) _ True] False 1(3)
      obtain c' where c': "sift_up v ?p (c[h := c ! ?p]) = Inr c'" "heap_inv c'"
        "mset c' = mset (c[h := c ! ?p, ?p := v])" by auto
      moreover have "mset (c[h := c ! ?p, ?p := v]) = mset (c[h := v])"
        using h by (intro mset_swap_hole) auto
      ultimately show ?thesis using False less True by (subst sift_up.simps) simp
    next
      case ge: False
      with False less hole_inv_stop [OF 1(2)] show ?thesis by (subst sift_up.simps) simp
    qed
  qed
qed

lemma heap_root_least:
  "heap_inv c \<Longrightarrow> i < length c \<Longrightarrow> rank (c ! 0) \<le> rank (c ! i)"
proof (induction i rule: less_induct)
  case (less i)
  show ?case
  proof (cases "i = 0")
    case False
    let ?p = "(i - 1) div 2"
    from False have "?p < i" by simp
    with less have "rank (c ! 0) \<le> rank (c ! ?p)" by simp
    also have "\<dots> \<le> rank (c ! i)" using less.prems False by (simp add: heap_inv_def)
    finally show ?thesis .
  qed simp
qed

lemma hole_inv_snoc:
  assumes "heap_inv c"
  shows "hole_inv v (length c) (c @ [v])"
proof -
  have up: "(i - 1) div 2 < length c" if "0 < i" "i < Suc (length c)" for i using that by linarith
  then have "(i - 1) div 2 \<noteq> length c" if "0 < i" "i < Suc (length c)" for i
    using that by (metis less_irrefl)
  moreover have "rank ((c @ [v]) ! ((i - 1) div 2)) \<le> rank ((c @ [v]) ! i)"
    if "0 < i" "i < Suc (length c)" "i \<noteq> length c" for i
    using assms that up [of i] by (simp add: heap_inv_def nth_append)
  ultimately show ?thesis by (auto simp: hole_inv_def list_update_append)
qed

lemma pq_push_ok:
  assumes "heap_inv c" "list_all known c" "known v"
  shows "\<exists>c'. pq_push v c = Inr c' \<and> heap_inv c' \<and> mset c' = add_mset v (mset c)"
  using sift_up_spec [OF hole_inv_snoc [OF assms(1)] assms(3)] assms(2,3)
  by (auto simp: pq_push_def list_update_append)

lemma pq_push_unknown:
  assumes "list_all known c" "\<not> known v"
  shows "pq_push v c = (if c = [] then Inr [v] else Inl OutOfRange)"
proof (cases c)
  case Nil
  then show ?thesis by (simp add: pq_push_def sift_up.simps)
next
  case (Cons x xs)
  then show ?thesis using assms
    by (simp add: pq_push_def) (subst sift_up.simps, simp add: info_less_unknown)
qed

lemma heap_inv_Nil [simp]: "heap_inv []"
  by (simp add: heap_inv_def)

section \<open>The interface: a best-first queue\<close>

text \<open>
  What the manager relies on: a push of an acceptable element succeeds and adds exactly that
  element; a non-empty queue of acceptable elements has a top, an element no other is better than.
\<close>

fun pushes :: "('a \<Rightarrow> 'q \<Rightarrow> exn + 'q) \<Rightarrow> 'a list \<Rightarrow> 'q \<Rightarrow> exn + 'q" where
  "pushes push [] q = Inr q"
| "pushes push (x # xs) q = bindR (push x q) (pushes push xs)"

locale best_first_queue =
  fixes push :: "'a \<Rightarrow> 'q \<Rightarrow> exn + 'q"
    and top :: "'q \<Rightarrow> exn + 'a"
    and elems :: "'q \<Rightarrow> 'a multiset"
    and wf :: "'q \<Rightarrow> bool"
    and ok :: "'a \<Rightarrow> bool"
    and cost :: "'a \<Rightarrow> int"
  assumes push_ok: "wf q \<Longrightarrow> ok x \<Longrightarrow> \<exists>q'. push x q = Inr q' \<and> wf q' \<and> elems q' = add_mset x (elems q)"
    and top_ok: "wf q \<Longrightarrow> elems q \<noteq> {#} \<Longrightarrow>
      \<exists>x. top q = Inr x \<and> x \<in># elems q \<and> (\<forall>y\<in>#elems q. cost x \<le> cost y)"
begin

lemma pushes_ok:
  "wf q \<Longrightarrow> list_all ok xs \<Longrightarrow>
     \<exists>q'. pushes push xs q = Inr q' \<and> wf q' \<and> elems q' = mset xs + elems q"
proof (induction xs arbitrary: q)
  case (Cons x xs)
  from Cons.prems push_ok [of q x] obtain q1 where
    "push x q = Inr q1" "wf q1" "elems q1 = add_mset x (elems q)" by auto
  with Cons.IH [of q1] Cons.prems show ?case by auto
qed simp

lemma pushes_top:
  assumes "wf q" "list_all ok xs" "xs \<noteq> [] \<or> elems q \<noteq> {#}"
  shows "\<exists>q' x. pushes push xs q = Inr q' \<and> top q' = Inr x
    \<and> x \<in># mset xs + elems q \<and> (\<forall>y\<in>#mset xs + elems q. cost x \<le> cost y)"
proof -
  from pushes_ok [OF assms(1,2)] obtain q' where q': "pushes push xs q = Inr q'" "wf q'"
    "elems q' = mset xs + elems q" by blast
  with assms(3) have "elems q' \<noteq> {#}" by auto
  from top_ok [OF q'(2) this] q' show ?thesis by auto
qed

end

definition pq_wf :: "MctpEidInfo list \<Rightarrow> bool" where
  "pq_wf c \<longleftrightarrow> heap_inv c \<and> list_all known c"

interpretation pq: best_first_queue pq_push pq_top mset pq_wf known rank
proof
  fix c :: "MctpEidInfo list" and x
  assume "pq_wf c" "known x"
  then obtain c' where c': "pq_push x c = Inr c'" "heap_inv c'" "mset c' = add_mset x (mset c)"
    using pq_push_ok [of c x] by (auto simp: pq_wf_def)
  have "set c' = insert x (set c)" using c'(3) by (metis set_mset_add_mset_insert set_mset_mset)
  with c' \<open>pq_wf c\<close> \<open>known x\<close>
  show "\<exists>c'. pq_push x c = Inr c' \<and> pq_wf c' \<and> mset c' = add_mset x (mset c)"
    by (auto simp: pq_wf_def list_all_iff)
next
  fix c :: "MctpEidInfo list"
  assume wf: "pq_wf c" and "mset c \<noteq> {#}"
  then obtain x xs where c: "c = x # xs" by (cases c) auto
  have "rank x \<le> rank y" if "y \<in> set c" for y
  proof -
    from that obtain i where "i < length c" "c ! i = y" by (auto simp: in_set_conv_nth)
    with heap_root_least [of c i] wf c show ?thesis by (auto simp: pq_wf_def)
  qed
  with c show "\<exists>x. pq_top c = Inr x \<and> x \<in># mset c \<and> (\<forall>y\<in>#mset c. rank x \<le> rank y)"
    by (auto simp: pq_top_def)
qed

section \<open>Properties\<close>

text \<open>
  After any sequence of registrations over known media, the top of an ERoT's queue is one of
  the registered endpoints, reached over a medium of the best priority among them (PCIe before SPI
  before I3C before USB before SMBus), and no registration is lost.
\<close>

theorem top_is_best_medium:
  assumes "list_all known infos" and "infos \<noteq> []"
  shows "\<exists>c x. pushes pq_push infos [] = Inr c \<and> pq_top c = Inr x \<and> mset c = mset infos
    \<and> x \<in> set infos \<and> (\<forall>y\<in>set infos. rank x \<le> rank y)"
proof -
  have wf: "pq_wf []" by (simp add: pq_wf_def)
  from pq.pushes_ok [OF wf assms(1)] obtain c where
    c: "pushes pq_push infos [] = Inr c" "mset c = mset infos" by auto
  from pq.pushes_top [OF wf assms(1)] assms(2) obtain c' x where
    x: "pushes pq_push infos [] = Inr c'" "pq_top c' = Inr x" "x \<in> set infos"
      "\<forall>y\<in>set infos. rank x \<le> rank y" by auto
  from c(1) x(1) have "c' = c" by simp
  with c x show ?thesis by blast
qed

definition sample_infos :: "MctpEidInfo list" where
  "sample_infos =
     [\<lparr>info_eid = 30, info_medium = media_prefix @ ''SMBus''\<rparr>,
      \<lparr>info_eid = 20, info_medium = media_prefix @ ''PCIe''\<rparr>,
      \<lparr>info_eid = 10, info_medium = media_prefix @ ''USB''\<rparr>]"

lemma sample_infos_ranks: "map rank sample_infos = [4, 0, 3]" "list_all known sample_infos"
  by (simp_all add: sample_infos_def rank_def known_def mediumPriority_def media_prefix_def)

theorem top_is_best_medium_witness:
  "\<exists>c x. pushes pq_push sample_infos [] = Inr c \<and> pq_top c = Inr x \<and> info_eid x = 20"
proof -
  have "sample_infos \<noteq> []" by (simp add: sample_infos_def)
  from top_is_best_medium [OF sample_infos_ranks(2) this] obtain c x where
    cx: "pushes pq_push sample_infos [] = Inr c" "pq_top c = Inr x" "x \<in> set sample_infos"
    "\<forall>y\<in>set sample_infos. rank x \<le> rank y" by blast
  from cx(3,4) sample_infos_ranks(1) have "info_eid x = 20" by (auto simp: sample_infos_def)
  with cx show ?thesis by blast
qed

text \<open>
  A medium outside the table is accepted as the first endpoint of an ERoT, where nothing is
  compared, and makes every registration next to another endpoint throw \<open>std::out_of_range\<close>.
\<close>

theorem unknown_medium_throws:
  assumes "pq_wf c" and "\<not> known v"
  shows "pq_push v c = (if c = [] then Inr [v] else Inl OutOfRange)
    \<and> pq_push w [v] = Inl OutOfRange"
proof
  show "pq_push v c = (if c = [] then Inr [v] else Inl OutOfRange)"
    using assms by (intro pq_push_unknown) (simp_all add: pq_wf_def)
  show "pq_push w [v] = Inl OutOfRange"
    unfolding pq_push_def using assms(2) by (subst sift_up.simps) (simp add: info_less_unknown)
qed

theorem unknown_medium_throws_witness:
  "pq_push \<lparr>info_eid = 8, info_medium = ''UART''\<rparr> [] = Inr [\<lparr>info_eid = 8, info_medium = ''UART''\<rparr>]
   \<and> pq_push (hd sample_infos) [\<lparr>info_eid = 8, info_medium = ''UART''\<rparr>] = Inl OutOfRange"
proof -
  have "pq_wf []" by (simp add: pq_wf_def)
  moreover have "\<not> known \<lparr>info_eid = 8, info_medium = ''UART''\<rparr>"
    by (simp add: known_def mediumPriority_def media_prefix_def)
  ultimately show ?thesis using unknown_medium_throws by simp
qed

end
