(* ===== verification/CoroutineFrames.thy ===== *)
theory CoroutineFrames
  imports Prelude
begin

text \<open>
  The type \<open>Coroutine\<close> of \<open>oem/nvidia/handler.hpp\<close> on a store of frames: what the language does with
  the promise, the two awaiters, the destructor and \<open>detach\<close>. A handle is the number of a frame; a
  frame that is destroyed leaves the store, and any use of it is undefined behaviour, as is asking or
  destroying a coroutine that runs. \<open>ErotTimeManager\<close> keeps of a suspended chain of these coroutines
  only what their bodies need; this theory shows that the links and lifetimes underneath work out.
\<close>

section \<open>Frames\<close>

datatype status = Running | Waiting | AtEnd

record promise =
  parent_handle :: "nat option"
  promise_data :: u8
  detached :: bool
  status :: status

record coheap =
  frames :: "nat \<rightharpoonup> promise"
  next_frame :: nat

definition frame_at :: "nat \<Rightarrow> coheap \<Rightarrow> exn + promise" where
  "frame_at h c = (case frames c h of None \<Rightarrow> Inl UndefinedBehaviour | Some p \<Rightarrow> Inr p)"

definition set_frame :: "nat \<Rightarrow> promise \<Rightarrow> coheap \<Rightarrow> coheap" where
  "set_frame h p c = c\<lparr>frames := (frames c)(h \<mapsto> p)\<rparr>"

text \<open>Calling a coroutine: \<open>get_return_object\<close>, and \<open>initial_suspend\<close> lets the body run at once.\<close>

definition coroutine_call :: "coheap \<Rightarrow> nat \<times> coheap" where
  "coroutine_call c =
     (next_frame c,
      c\<lparr>frames := (frames c)(next_frame c \<mapsto>
           \<lparr>parent_handle = None, promise_data = 0, detached = False, status = Running\<rparr>),
        next_frame := Suc (next_frame c)\<rparr>)"

definition handle_done :: "nat \<Rightarrow> coheap \<Rightarrow> exn + bool" where
  "handle_done h c =
     bindR (frame_at h c) (\<lambda>p.
       if status p = Running then Inl UndefinedBehaviour else Inr (status p = AtEnd))"

definition handle_destroy :: "nat \<Rightarrow> coheap \<Rightarrow> exn + coheap" where
  "handle_destroy h c =
     bindR (frame_at h c) (\<lambda>p.
       if status p = Running then Inl UndefinedBehaviour
       else Inr (c\<lparr>frames := (frames c)(h := None)\<rparr>))"

text \<open>A leaf awaitable suspends its coroutine; \<open>resumeHandle()\<close> resumes it.\<close>

definition handle_wait :: "nat \<Rightarrow> coheap \<Rightarrow> exn + coheap" where
  "handle_wait h c =
     bindR (frame_at h c) (\<lambda>p.
       if status p = Running then Inr (set_frame h (p\<lparr>status := Waiting\<rparr>) c) else Inl UndefinedBehaviour)"

definition handle_resume :: "nat \<Rightarrow> coheap \<Rightarrow> exn + coheap" where
  "handle_resume h c =
     bindR (frame_at h c) (\<lambda>p.
       if status p = Waiting then Inr (set_frame h (p\<lparr>status := Running\<rparr>) c) else Inl UndefinedBehaviour)"

section \<open>The promise\<close>

definition return_value :: "u8 \<Rightarrow> nat \<Rightarrow> coheap \<Rightarrow> exn + coheap" where
  "return_value v h c = bindR (frame_at h c) (\<lambda>p. Inr (set_frame h (p\<lparr>promise_data := v\<rparr>) c))"

definition unhandled_exception :: "nat \<Rightarrow> coheap \<Rightarrow> exn + coheap" where
  "unhandled_exception h c = Inr c"

text \<open>The parent's handle is read before a detached frame destroys itself; it is resumed next.\<close>

definition final_suspend :: "nat \<Rightarrow> coheap \<Rightarrow> exn + (nat option \<times> coheap)" where
  "final_suspend h c =
     bindR (frame_at h c) (\<lambda>p.
       if status p \<noteq> Running then Inl UndefinedBehaviour
       else
         (let parentHandle = parent_handle p; c1 = set_frame h (p\<lparr>status := AtEnd\<rparr>) c
          in bindR (if detached p then handle_destroy h c1 else Inr c1) (\<lambda>c2. Inr (parentHandle, c2))))"

section \<open>Awaiting, dropping and detaching a coroutine\<close>

text \<open>\<open>co_await\<close> in the frame \<open>parent\<close>: whether it goes on at once, or has suspended.\<close>

definition await_coroutine :: "nat \<Rightarrow> nat \<Rightarrow> coheap \<Rightarrow> exn + (bool \<times> coheap)" where
  "await_coroutine parent h c =
     bindR (handle_done h c) (\<lambda>ready.
       if ready then Inr (True, c)
       else bindR (handle_wait parent c) (\<lambda>c1.
            bindR (frame_at h c1) (\<lambda>p.
              Inr (False, set_frame h (p\<lparr>parent_handle := Some parent\<rparr>) c1))))"

definition await_resume :: "nat \<Rightarrow> coheap \<Rightarrow> exn + u8" where
  "await_resume h c = bindR (frame_at h c) (\<lambda>p. Inr (promise_data p))"

definition coroutine_drop :: "nat option \<Rightarrow> coheap \<Rightarrow> exn + coheap" where
  "coroutine_drop co c =
     (case co of
        None \<Rightarrow> Inr c
      | Some h \<Rightarrow> bindR (handle_done h c) (\<lambda>d. if d then handle_destroy h c else Inr c))"

definition coroutine_detach :: "nat option \<Rightarrow> coheap \<Rightarrow> exn + (nat option \<times> coheap)" where
  "coroutine_detach co c =
     (case co of
        None \<Rightarrow> Inr (None, c)
      | Some h \<Rightarrow>
          bindR (handle_done h c) (\<lambda>d.
          bindR (if d then handle_destroy h c
                 else bindR (frame_at h c) (\<lambda>p. Inr (set_frame h (p\<lparr>detached := True\<rparr>) c))) (\<lambda>c1.
            Inr (None, c1))))"

text \<open>
  A body returns \<open>v\<close>; if a parent waits, it resumes, reads the value and, its \<open>co_await\<close> expression
  being over, drops the temporary.
\<close>

definition finish_frame :: "nat \<Rightarrow> u8 \<Rightarrow> coheap \<Rightarrow> exn + ((nat \<times> u8) option \<times> coheap)" where
  "finish_frame h v c =
     bindR (return_value v h c) (\<lambda>c1.
     bindR (final_suspend h c1) (\<lambda>(parent, c2).
       case parent of
         None \<Rightarrow> Inr (None, c2)
       | Some p \<Rightarrow>
           bindR (handle_resume p c2) (\<lambda>c3.
           bindR (await_resume h c3) (\<lambda>r.
           bindR (coroutine_drop (Some h) c3) (\<lambda>c4. Inr (Some (p, r), c4))))))"

text \<open>
  A chain ends: each body in turn, the innermost first, returns a value computed from the one it
  has read. The result is what was read, and where.
\<close>

fun unwind :: "nat \<Rightarrow> u8 \<Rightarrow> (nat \<Rightarrow> u8 \<Rightarrow> u8) \<Rightarrow> nat \<Rightarrow> coheap \<Rightarrow> exn + ((nat \<times> u8) list \<times> coheap)" where
  "unwind h v body 0 c = Inr ([], c)"
| "unwind h v body (Suc n) c =
     bindR (finish_frame h v c) (\<lambda>(r, c1).
       case r of
         None \<Rightarrow> Inr ([], c1)
       | Some (p, x) \<Rightarrow>
           bindR (unwind p (body p x) body n c1) (\<lambda>(rs, c2). Inr ((p, x) # rs, c2)))"

section \<open>Lemmas\<close>

lemma frame_at_set [simp]: "frame_at h (set_frame h' p c) = (if h = h' then Inr p else frame_at h c)"
  by (simp add: frame_at_def set_frame_def)

lemma frames_set [simp]: "frames (set_frame h p c) = (frames c)(h \<mapsto> p)"
  by (simp add: set_frame_def)

lemma frame_at_Some: "frames c h = Some p \<Longrightarrow> frame_at h c = Inr p"
  by (simp add: frame_at_def)

lemmas coroutine_defs = return_value_def final_suspend_def handle_resume_def await_resume_def
  coroutine_drop_def handle_done_def handle_destroy_def handle_wait_def await_coroutine_def

text \<open>
  A chain, the innermost coroutine first: that one runs, each other waits for the one before it,
  and the outermost has no parent.
\<close>

fun chained :: "(nat \<rightharpoonup> promise) \<Rightarrow> status \<Rightarrow> nat list \<Rightarrow> bool" where
  "chained f st [] = False"
| "chained f st [h] =
     (\<exists>p. f h = Some p \<and> status p = st \<and> \<not> detached p \<and> parent_handle p = None)"
| "chained f st (h # h' # hs) =
     (h \<notin> set (h' # hs)
      \<and> (\<exists>p. f h = Some p \<and> status p = st \<and> \<not> detached p \<and> parent_handle p = Some h')
      \<and> chained f Waiting (h' # hs))"

lemma chained_upd: "h \<notin> set hs \<Longrightarrow> chained (f(h := x)) st hs = chained f st hs"
  by (induction f st hs rule: chained.induct) auto

lemma chained_restart:
  "chained f st (h # hs) \<Longrightarrow> f h = Some p \<Longrightarrow> chained (f(h \<mapsto> p\<lparr>status := st'\<rparr>)) st' (h # hs)"
  by (cases hs) (auto simp: chained_upd)

text \<open>Calling and awaiting one more coroutine makes the chain longer.\<close>

lemma nested_call:
  assumes "chained (frames c) Running (h # hs)" and "dom (frames c) \<subseteq> {..<next_frame c}"
    and "set (h # hs) \<subseteq> dom (frames c)"
    and "coroutine_call c = (k, c1)"
  shows "\<exists>c2 c3 c4. handle_wait k c1 = Inr c2 \<and> await_coroutine h k c2 = Inr (False, c3)
    \<and> handle_resume k c3 = Inr c4 \<and> chained (frames c4) Running (k # h # hs)"
proof -
  obtain p where p: "frames c h = Some p" "status p = Running"
    using assms(1) by (cases hs) auto
  let ?q = "\<lparr>parent_handle = None, promise_data = 0, detached = False, status = Running\<rparr>"
  from assms(4) have k: "k = next_frame c" and c1: "c1 = c\<lparr>frames := (frames c)(k \<mapsto> ?q), next_frame := Suc k\<rparr>"
    by (auto simp: coroutine_call_def)
  have new: "k \<notin> set (h # hs)" using assms(2,3) k by auto
  then have "k \<noteq> h" by simp
  have f1: "frame_at k c1 = Inr ?q" "frame_at h c1 = Inr p"
    using c1 p \<open>k \<noteq> h\<close> by (simp_all add: frame_at_def)
  let ?c2 = "set_frame k (?q\<lparr>status := Waiting\<rparr>) c1"
  let ?c3 = "set_frame k (?q\<lparr>status := Waiting, parent_handle := Some h\<rparr>)
    (set_frame h (p\<lparr>status := Waiting\<rparr>) ?c2)"
  let ?c4 = "set_frame k (?q\<lparr>parent_handle := Some h\<rparr>) ?c3"
  have "handle_wait k c1 = Inr ?c2" using f1 by (simp add: handle_wait_def)
  moreover have "await_coroutine h k ?c2 = Inr (False, ?c3)"
    using f1 p \<open>k \<noteq> h\<close> by (simp add: await_coroutine_def handle_done_def handle_wait_def)
  moreover have "handle_resume k ?c3 = Inr ?c4"
    by (simp add: handle_resume_def)
  moreover have "chained (frames ?c4) Running (k # h # hs)"
    using chained_restart [OF assms(1) p(1), of Waiting] new c1
    by (auto simp: chained_upd fun_upd_twist)
  ultimately show ?thesis by blast
qed

lemma finish_inner:
  assumes "chained (frames c) Running (h # h' # hs)"
  shows "\<exists>c'. finish_frame h v c = Inr (Some (h', v), c') \<and> frames c' h = None
    \<and> (\<forall>k. k \<noteq> h \<longrightarrow> k \<noteq> h' \<longrightarrow> frames c' k = frames c k) \<and> next_frame c' = next_frame c
    \<and> chained (frames c') Running (h' # hs)"
proof -
  obtain p where p: "frames c h = Some p" "status p = Running" "\<not> detached p" "parent_handle p = Some h'"
    using assms by auto
  have ch: "chained (frames c) Waiting (h' # hs)" "h \<notin> set (h' # hs)" using assms by auto
  then obtain q where q: "frames c h' = Some q" "status q = Waiting" by (cases hs) auto
  have neq: "h \<noteq> h'" using ch(2) by simp
  let ?c2 = "set_frame h (p\<lparr>promise_data := v, status := AtEnd\<rparr>) (set_frame h (p\<lparr>promise_data := v\<rparr>) c)"
  let ?c3 = "set_frame h' (q\<lparr>status := Running\<rparr>) ?c2"
  let ?c4 = "?c3\<lparr>frames := (frames ?c3)(h := None)\<rparr>"
  have "finish_frame h v c = Inr (Some (h', v), ?c4)"
    using p q neq by (simp add: finish_frame_def coroutine_defs frame_at_Some)
  moreover have "chained (frames ?c4) Running (h' # hs)"
  proof -
    have "frames ?c4 = (frames c)(h' \<mapsto> q\<lparr>status := Running\<rparr>, h := None)"
      using neq by (simp add: fun_eq_iff set_frame_def)
    then show ?thesis
      using chained_restart [OF ch(1) q(1), of Running] by (simp only: chained_upd [OF ch(2)])
  qed
  ultimately show ?thesis using neq by (intro exI [of _ ?c4]) (simp add: set_frame_def)
qed

lemma finish_outer:
  assumes "chained (frames c) Running [h]"
  shows "\<exists>c' p. finish_frame h v c = Inr (None, c') \<and> frames c' = (frames c)(h \<mapsto> p)
    \<and> status p = AtEnd \<and> promise_data p = v \<and> next_frame c' = next_frame c"
proof -
  obtain p where "frames c h = Some p" "status p = Running" "\<not> detached p" "parent_handle p = None"
    using assms by auto
  then show ?thesis
    by (intro exI [of _ "set_frame h (p\<lparr>promise_data := v, status := AtEnd\<rparr>) (set_frame h (p\<lparr>promise_data := v\<rparr>) c)"]
        exI [of _ "p\<lparr>promise_data := v, status := AtEnd\<rparr>"])
      (simp add: finish_frame_def coroutine_defs frame_at_Some, simp add: set_frame_def)
qed

text \<open>What the parents read, one after the other, and what the outermost returns.\<close>

fun reads :: "(nat \<Rightarrow> u8 \<Rightarrow> u8) \<Rightarrow> u8 \<Rightarrow> nat list \<Rightarrow> (nat \<times> u8) list" where
  "reads body v [] = []"
| "reads body v (h # hs) = (h, v) # reads body (body h v) hs"

section \<open>The owners of a coroutine that has ended\<close>

text \<open>
  The two callers of a coroutine in \<open>erot_time_manager.cpp\<close> keep its handle and a local \<open>Coroutine\<close>:
  \<open>handleTimeChange\<close> forgets the handle of one that has ended, \<open>handleMctpEndpoints\<close> destroys it; then
  the local's destructor runs.
\<close>

definition time_change_owner :: "nat \<Rightarrow> coheap \<Rightarrow> exn + (nat option \<times> coheap)" where
  "time_change_owner h c =
     bindR (handle_done h c) (\<lambda>d.
     bindR (coroutine_drop (Some h) c) (\<lambda>c1. Inr (if d then None else Some h, c1)))"

definition endpoints_owner :: "nat \<Rightarrow> coheap \<Rightarrow> exn + (nat option \<times> coheap)" where
  "endpoints_owner h c =
     bindR (handle_done h c) (\<lambda>d.
     bindR (if d then handle_destroy h c else Inr c) (\<lambda>c1.
     bindR (coroutine_drop (Some h) c1) (\<lambda>c2. Inr (if d then None else Some h, c2))))"

lemma owners_of_finished:
  assumes "frames c h = Some p" and "status p = AtEnd"
  shows "time_change_owner h c = Inr (None, c\<lparr>frames := (frames c)(h := None)\<rparr>)"
    and "endpoints_owner h c = Inl UndefinedBehaviour"
  using assms by (simp_all add: time_change_owner_def endpoints_owner_def coroutine_defs frame_at_def)

lemma owners_of_waiting:
  assumes "frames c h = Some p" and "status p = Waiting"
  shows "time_change_owner h c = Inr (Some h, c)" and "endpoints_owner h c = Inr (Some h, c)"
  using assms by (simp_all add: time_change_owner_def endpoints_owner_def coroutine_defs frame_at_def)

text \<open>A detached frame destroys itself when it ends, and its handle dangles.\<close>

lemma detached_frame_destroys_itself:
  assumes "frames c h = Some p" and "status p = Waiting"
  shows "\<exists>c1 c2 c3. coroutine_detach (Some h) c = Inr (None, c1) \<and> handle_resume h c1 = Inr c2
    \<and> final_suspend h c2 = Inr (parent_handle p, c3) \<and> frames c3 h = None
    \<and> handle_done h c3 = Inl UndefinedBehaviour"
  using assms by (simp add: coroutine_detach_def coroutine_defs frame_at_Some) (simp add: frame_at_def)

section \<open>Properties\<close>

text \<open>
  C25: a suspended chain of coroutines, of any depth, unwinds. When its innermost coroutine goes on and
  returns, each parent in turn is resumed once, reads exactly the value its child returned, and
  frees the child's frame once; in the end the outermost frame, at its final suspension with its
  own value, is the only one left of the chain, all other frames are untouched, and its owner in
  \<open>handleTimeChange\<close> would free it.
\<close>

theorem chain_unwinds:
  assumes "chained (frames c) Running (h # hs)"
  shows "\<exists>c' p. unwind h v body (Suc (length hs)) c = Inr (reads body v hs, c')
    \<and> frames c' = (\<lambda>k. if k = last (h # hs) then Some p else if k \<in> set (h # hs) then None else frames c k)
    \<and> status p = AtEnd \<and> promise_data p = fold body hs v
    \<and> time_change_owner (last (h # hs)) c' = Inr (None, c'\<lparr>frames := (frames c')(last (h # hs) := None)\<rparr>)"
proof -
  have "\<exists>c' p. unwind h v body (Suc (length hs)) c = Inr (reads body v hs, c')
    \<and> frames c' = (\<lambda>k. if k = last (h # hs) then Some p else if k \<in> set (h # hs) then None else frames c k)
    \<and> status p = AtEnd \<and> promise_data p = fold body hs v"
    using assms
  proof (induction hs arbitrary: h v c)
    case Nil
    from finish_outer [OF Nil, of v] obtain c' p where "finish_frame h v c = Inr (None, c')"
      "frames c' = (frames c)(h \<mapsto> p)" "status p = AtEnd" "promise_data p = v" by blast
    then show ?case by (intro exI [of _ c'] exI [of _ p]) (simp add: fun_eq_iff)
  next
    case (Cons h' hs)
    from finish_inner [OF Cons.prems, of v] obtain c1 where
      fin: "finish_frame h v c = Inr (Some (h', v), c1)" and
      f1: "frames c1 h = None" "\<And>k. k \<noteq> h \<Longrightarrow> k \<noteq> h' \<Longrightarrow> frames c1 k = frames c k" and
      ch: "chained (frames c1) Running (h' # hs)" by blast
    from Cons.IH [OF ch, of "body h' v"] obtain c' p where
      un: "unwind h' (body h' v) body (Suc (length hs)) c1 = Inr (reads body (body h' v) hs, c')" and
      f': "frames c' = (\<lambda>k. if k = last (h' # hs) then Some p else if k \<in> set (h' # hs) then None
        else frames c1 k)" and
      p: "status p = AtEnd" "promise_data p = fold body hs (body h' v)" by blast
    have new: "h \<notin> set (h' # hs)" using Cons.prems by simp
    have last: "last (h' # hs) \<in> set (h' # hs)" by (rule last_in_set) simp
    have "frames c' = (\<lambda>k. if k = last (h # h' # hs) then Some p
        else if k \<in> set (h # h' # hs) then None else frames c k)"
      unfolding f' using f1 new last by (fastforce simp: fun_eq_iff)
    moreover have "unwind h v body (Suc (length (h' # hs))) c = Inr (reads body v (h' # hs), c')"
      using fin un by simp
    ultimately show ?case using p by auto
  qed
  then obtain c' p where "unwind h v body (Suc (length hs)) c = Inr (reads body v hs, c')"
    and f: "frames c' = (\<lambda>k. if k = last (h # hs) then Some p else if k \<in> set (h # hs) then None else frames c k)"
    and "status p = AtEnd" "promise_data p = fold body hs v" by blast
  moreover have "frames c' (last (h # hs)) = Some p" using f by simp
  ultimately show ?thesis using owners_of_finished(1) by blast
qed

definition sample_chain :: coheap where
  "sample_chain = \<lparr>frames = [
      0 \<mapsto> \<lparr>parent_handle = None, promise_data = 0, detached = False, status = Waiting\<rparr>,
      1 \<mapsto> \<lparr>parent_handle = Some 0, promise_data = 0, detached = False, status = Waiting\<rparr>,
      2 \<mapsto> \<lparr>parent_handle = Some 1, promise_data = 0, detached = False, status = Running\<rparr>],
    next_frame = 3\<rparr>"

theorem chain_unwinds_witness:
  "\<exists>c' p. unwind 2 7 (\<lambda>h x. x + 1) 3 sample_chain = Inr ([(1, 7), (0, 8)], c')
     \<and> frames c' = [0 \<mapsto> p] \<and> promise_data p = 9"
proof -
  have ch: "chained (frames sample_chain) Running [2, 1, 0]" by (simp add: sample_chain_def)
  have three: "Suc (length [1, 0 :: nat]) = 3" by simp
  from chain_unwinds [OF ch, of 7 "\<lambda>h x. x + 1", unfolded three] obtain c' p where
    "unwind 2 7 (\<lambda>h x. x + 1) 3 sample_chain = Inr (reads (\<lambda>h x. x + 1) 7 [1, 0], c')" and
    f: "frames c' = (\<lambda>k. if k = last [2, 1, 0] then Some p else if k \<in> set [2, 1, 0] then None
      else frames sample_chain k)" and
    "promise_data p = fold (\<lambda>h x. x + 1) [1, 0 :: nat] 7"
    by blast
  moreover from f have "frames c' = [0 \<mapsto> p]"
    by (auto simp: fun_eq_iff sample_chain_def)
  ultimately show ?thesis
    by (intro exI [of _ c'] exI [of _ p] conjI) (simp_all del: unwind.simps)
qed

end
