(* ===== verification/Lifetimes.thy ===== *)
theory Lifetimes
  imports CoroutineFrames
begin

text \<open>
  How long the objects live that \<open>ErotTimeManager\<close> shares between ordinary functions and coroutines
  (\<open>oem/nvidia/erot_time_manager.cpp\<close>): the vector of endpoints \<open>setTimeOnErots\<close> takes by reference,
  and the frame of the task, to which a local \<open>Coroutine\<close> and the member \<open>setErotTimeHandle\<close> both refer.
  A local of a function dies when the function returns, a local of a coroutine with its frame; reading
  a dead object, or asking or destroying a destroyed frame, is undefined behaviour.
\<close>

section \<open>Locals\<close>

text \<open>
  Vectors by address, with the addresses of the locals of each active call, the innermost first, and
  of each coroutine frame.
\<close>

record memory =
  vectors :: "nat \<rightharpoonup> u8 list"
  call_stack :: "nat list list"
  frame_locals :: "nat \<rightharpoonup> nat list"
  next_address :: nat

definition no_memory :: memory where
  "no_memory = \<lparr>vectors = Map.empty, call_stack = [], frame_locals = Map.empty, next_address = 0\<rparr>"

definition enter_call :: "memory \<Rightarrow> memory" where
  "enter_call m = m\<lparr>call_stack := [] # call_stack m\<rparr>"

definition kill :: "nat list \<Rightarrow> memory \<Rightarrow> memory" where
  "kill as m = m\<lparr>vectors := (\<lambda>a. if a \<in> set as then None else vectors m a)\<rparr>"

definition leave_call :: "memory \<Rightarrow> memory" where
  "leave_call m =
     (case call_stack m of [] \<Rightarrow> m | locals # rest \<Rightarrow> kill locals (m\<lparr>call_stack := rest\<rparr>))"

definition new_local :: "u8 list \<Rightarrow> memory \<Rightarrow> nat \<times> memory" where
  "new_local v m =
     (let a = next_address m
      in (a, m\<lparr>vectors := (vectors m)(a \<mapsto> v), next_address := Suc a,
               call_stack := (case call_stack m of [] \<Rightarrow> [] | locals # rest \<Rightarrow> (a # locals) # rest)\<rparr>))"

definition new_frame :: "nat \<Rightarrow> memory \<Rightarrow> memory" where
  "new_frame h m = m\<lparr>frame_locals := (frame_locals m)(h \<mapsto> [])\<rparr>"

definition new_frame_local :: "nat \<Rightarrow> u8 list \<Rightarrow> memory \<Rightarrow> nat \<times> memory" where
  "new_frame_local h v m =
     (let a = next_address m
      in (a, m\<lparr>vectors := (vectors m)(a \<mapsto> v), next_address := Suc a,
               frame_locals := (case frame_locals m h of
                                  None \<Rightarrow> frame_locals m
                                | Some locals \<Rightarrow> (frame_locals m)(h \<mapsto> a # locals))\<rparr>))"

definition destroy_frame :: "nat \<Rightarrow> memory \<Rightarrow> memory" where
  "destroy_frame h m =
     (case frame_locals m h of
        None \<Rightarrow> m
      | Some locals \<Rightarrow> kill locals (m\<lparr>frame_locals := (frame_locals m)(h := None)\<rparr>))"

definition read_vector :: "nat \<Rightarrow> memory \<Rightarrow> exn + u8 list" where
  "read_vector a m = (case vectors m a of None \<Rightarrow> Inl UndefinedBehaviour | Some v \<Rightarrow> Inr v)"

section \<open>The two callers of \<open>setTimeOnErots\<close>\<close>

text \<open>
  Calling a coroutine that suspends is a call that returns; its parameter is the address of the
  caller's vector. Each function yields that address and the memory once its caller, the event loop,
  goes on, which is the memory the coroutine is resumed in.
\<close>

definition coroutine_returns :: "memory \<Rightarrow> memory" where
  "coroutine_returns m = leave_call (enter_call m)"

text \<open>\<open>handleTimeChange\<close>: the vector is a local of the event loop's callback.\<close>

definition handleTimeChange_memory :: "u8 list \<Rightarrow> nat \<times> memory" where
  "handleTimeChange_memory eids =
     (let m = enter_call no_memory;
          (a, m1) = new_local eids m;
          m2 = coroutine_returns m1
      in (a, leave_call m2))"

text \<open>
  \<open>handleMctpEndpointsTask\<close>: the vector is a local of the coroutine, in its frame, which was made in a
  call of \<open>handleMctpEndpoints\<close> that has returned. The frame is destroyed when the task is over.
\<close>

definition handleMctpEndpointsTask_memory :: "u8 list \<Rightarrow> nat \<times> memory" where
  "handleMctpEndpointsTask_memory eids =
     (let m = new_frame 0 (enter_call no_memory);
          (a, m1) = new_frame_local 0 eids m;
          m2 = coroutine_returns m1
      in (a, leave_call m2))"

lemmas memory_defs = no_memory_def enter_call_def leave_call_def kill_def new_local_def new_frame_def
  new_frame_local_def coroutine_returns_def read_vector_def Let_def

lemma read_time_change: "handleTimeChange_memory eids = (a, m) \<Longrightarrow> read_vector a m = Inl UndefinedBehaviour"
  by (auto simp: handleTimeChange_memory_def memory_defs)

lemma read_task: "handleMctpEndpointsTask_memory eids = (a, m) \<Longrightarrow> read_vector a m = Inr eids"
  by (auto simp: handleMctpEndpointsTask_memory_def memory_defs)

text \<open>Not so after the task: a frame takes its locals with it.\<close>

lemma read_task_over:
  "handleMctpEndpointsTask_memory eids = (a, m) \<Longrightarrow> read_vector a (destroy_frame 0 m) = Inl UndefinedBehaviour"
  by (auto simp: handleMctpEndpointsTask_memory_def destroy_frame_def memory_defs)

section \<open>The handle of a task just started\<close>

text \<open>
  The task is called, and runs at once up to its first suspension or to its end. The code then copies
  the handle, destroys the frame through the copy if the task is over, and leaves the scope of the
  local \<open>co\<close>, whose destructor asks the frame. The result is the handle kept.
\<close>

definition no_frames :: coheap where
  "no_frames = \<lparr>frames = Map.empty, next_frame = 0\<rparr>"

definition start_task :: "bool \<Rightarrow> exn + (nat option \<times> coheap)" where
  "start_task over =
     (let (co, c) = coroutine_call no_frames
      in bindR (if over then bindR (final_suspend co c) (\<lambda>(parent, c1). Inr c1) else handle_wait co c)
           (\<lambda>c1.
         bindR (handle_done co c1) (\<lambda>d.
         bindR (if d then bindR (handle_destroy co c1) (\<lambda>c2. Inr (None, c2)) else Inr (Some co, c1))
           (\<lambda>(handle, c2).
         bindR (coroutine_drop (Some co) c2) (\<lambda>c3. Inr (handle, c3))))))"

lemmas start_task_defs = start_task_def coroutine_call_def no_frames_def coroutine_defs frame_at_def set_frame_def

lemma start_task_over [simp]: "start_task True = Inl UndefinedBehaviour"
  by (simp add: start_task_defs Let_def)

lemma start_task_suspended: "\<exists>c. start_task False = Inr (Some 0, c)"
  by (simp add: start_task_defs)

end
