(* ===== verification/ErotTimeManager.thy ===== *)
theory ErotTimeManager
  imports Receive MediumQueue Lifetimes
begin

text \<open>
  The ERoT time manager (\<open>oem/nvidia/erot_time_manager.cpp\<close>) with the awaitable and the coroutine
  type it is written in (\<open>SendRecvMctpVdmMsg\<close> and \<open>Coroutine\<close> of \<open>oem/nvidia/handler.hpp\<close>).

  The manager's members extend the requester's record, so that a resumed coroutine is a response
  handler of the requester: the response handler of a request is the awaitable that sent it, named
  by a number no other awaitable ever gets. A suspended chain of coroutines is the value
  \<open>Suspended\<close>: which awaitable it waits on and the locals its frames still need. All of a chain that
  runs to its end without suspending happens inside the call that starts it.
\<close>

section \<open>State\<close>

text \<open>Which coroutine called \<open>setTimeOnErots\<close>: \<open>handleTimeChange\<close> (no coroutine) or the task.\<close>

datatype caller = TimeChange | EndpointsTask

text \<open>
  The handle \<open>setErotTimeHandle\<close>: null; a chain waiting on an awaitable, with the time to set, the
  endpoint being set and those still to come; or a coroutine at its final suspension point.
\<close>

datatype coro =
    NoCoro
  | Suspended caller nat u64 u8 "u8 list"
  | Finished

type_synonym mctp_info = "u8 \<times> string \<times> string \<times> u8"

record world = "nat requester" +
  mctpInfoMap :: "(string \<times> MctpEidInfo list) list"
  queuedMctpInfos :: "mctp_info list list"
  setErotTimeHandle :: coro
  erotTimeSyncLast :: int
  next_awaitable :: nat

section \<open>Error logs\<close>

fun find_uuid :: "u8 \<Rightarrow> (string \<times> MctpEidInfo list) list \<Rightarrow> string \<Rightarrow> string" where
  "find_uuid eid [] mctpUUID = mctpUUID"
| "find_uuid eid ((uuid, infos) # rest) mctpUUID =
     (let found = (if list_ex (\<lambda>info. info_eid info = eid) infos then uuid else mctpUUID)
      in if found \<noteq> [] then found else find_uuid eid rest found)"

definition uuidInterface :: string where
  "uuidInterface = ''xyz.openbmc_project.Common.UUID''"

text \<open>
  The search of PLDM's objects for the ERoT's name. An object whose UUID is no string throws; the
  exception is caught around the search, which leaves the name empty.
\<close>

fun erot_name :: "platform \<Rightarrow> string \<Rightarrow> object_tree \<Rightarrow> string" where
  "erot_name P mctpUUID [] = []"
| "erot_name P mctpUUID ((path, interfaces) # rest) =
     (case map_of interfaces uuidInterface of
        None \<Rightarrow> erot_name P mctpUUID rest
      | Some properties \<Rightarrow>
          (case map_of properties ''UUID'' of
             None \<Rightarrow> erot_name P mctpUUID rest
           | Some v \<Rightarrow>
               (case get_string v of
                  Inl e \<Rightarrow> []
                | Inr uuid \<Rightarrow> if uuid = mctpUUID then path_filename P path
                              else erot_name P mctpUUID rest)))"

text \<open>The message and resolution by completion code; other codes are not logged.\<close>

definition error_text :: "u8 \<Rightarrow> (string \<times> string) option" where
  "error_text rc =
     (if rc = cc_val ErrGeneral then
        Some (''Failed to add external timestamp'',
              ''Retry the operation, if problem persists contact NVIDIA'')
      else if rc = cc_val ErrInvalidData then
        Some (''The message version for add external timestamp operation is not supported'',
              ''Contact NVIDIA.'')
      else if rc = cc_val ErrNotReady then
        Some (''Add external timestamp failed due to rate limit threshold exceeded'',
              ''Wait for rate limit threshold to be cleared and retry the operation.'')
      else None)"

definition createErrorLog :: "platform \<Rightarrow> u8 \<Rightarrow> u8 \<Rightarrow> world \<Rightarrow> world" where
  "createErrorLog P eid rc w =
     (let mctpUUID = find_uuid eid (mctpInfoMap w) [];
          name = (case managed_objects P (log w) of
                    None \<Rightarrow> []
                  | Some objects \<Rightarrow> erot_name P mctpUUID objects);
          erotName = (if name = [] then to_string (unat rc) else name);
          w1 = w\<lparr>log := log w @ [IO_get_managed_objects]\<rparr>
      in case error_text rc of
           Some (message, resolution) \<Rightarrow>
             w1\<lparr>log := log w1 @ [IO_create_log (erotName @ '','' @ message) resolution]\<rparr>
         | None \<Rightarrow>
             if rc = cc_val ErrUnsupportedCmd
             then w1\<lparr>mctpInfoMap := AList.delete mctpUUID (mctpInfoMap w1)\<rparr>
             else w1)"

section \<open>Setting the time on one ERoT\<close>

text \<open>
  \<open>setTimeOnErot\<close> up to its \<open>co_await\<close>: it either returns a code or waits on a fresh awaitable. The
  exception of an exhausted identifier pool ends the coroutine in \<open>unhandled_exception\<close>, which does
  nothing, so the promise keeps its initial value 0. The result of \<open>registerRequest\<close>, an \<open>int\<close>, is
  stored in a \<open>uint8_t\<close>.
\<close>

datatype outcome = Returned u8 | Awaits nat

definition await_suspend :: "platform \<Rightarrow> u8 \<Rightarrow> bytes \<Rightarrow> world \<Rightarrow> exn + (outcome \<times> world)" where
  "await_suspend P eid request w =
     (let awaitable = next_awaitable w
      in bindR (request_key eid request) (\<lambda>key.
         bindR (registerRequest P eid (key_instanceId key) (key_type key) (key_command key) request
                  awaitable (w\<lparr>next_awaitable := Suc awaitable\<rparr>)) (\<lambda>(rc, w1).
           if (word_of_int rc :: u8) \<noteq> 0 then Inr (Returned (word_of_int rc), w1)
           else Inr (Awaits awaitable, w1))))"

definition setTimeOnErot_start :: "platform \<Rightarrow> u8 \<Rightarrow> u64 \<Rightarrow> world \<Rightarrow> exn + (outcome \<times> world)" where
  "setTimeOnErot_start P eid epochElapsedTime w =
     (case getInstanceId eid (ids w) of
        (Inl e, m) \<Rightarrow> Inr (Returned 0, w\<lparr>ids := m\<rparr>)
      | (Inr i, m) \<Rightarrow>
          await_suspend P eid (addExtTimestamp_request i epochElapsedTime) (w\<lparr>ids := m\<rparr>))"

text \<open>The awaitable's \<open>handleResponse\<close>: the code it stores and the response it passes on.\<close>

definition awaitable_rc :: "response \<Rightarrow> u8" where
  "awaitable_rc r =
     (case r of
        None \<Rightarrow> cc_val ErrGeneral
      | Some (msg, len) \<Rightarrow> if len = 0 then cc_val ErrGeneral else cc_val Success)"

text \<open>\<open>setTimeOnErot\<close> from its \<open>co_await\<close> to the value it returns.\<close>

definition setTimeOnErot_finish :: "response \<Rightarrow> exn + u8" where
  "setTimeOnErot_finish r =
     (if awaitable_rc r \<noteq> 0 then Inr (awaitable_rc r)
      else case r of
        None \<Rightarrow> Inl UndefinedBehaviour
      | Some (msg, responseLen) \<Rightarrow>
          if responseLen \<noteq> word_of_nat addExtTimestampRespBytes then Inr (cc_val ErrInvalidLength)
          else read_payload0 msg)"

section \<open>Setting the time on a list of ERoTs\<close>

text \<open>
  The loop of \<open>setTimeOnErots\<close> over the endpoints still to come. It ends with the sockets closed and
  no result, or with the awaitable it waits on, the current endpoint and the rest. The coroutine
  flows off its end without \<open>co_return\<close>; both callers ignore its value.
\<close>

type_synonym suspension = "(nat \<times> u8 \<times> u8 list) option"

definition close_sockets :: "world \<Rightarrow> world" where
  "close_sockets w = (let (s, l) = deactivateSockets (socks w) (log w) in w\<lparr>socks := s, log := l\<rparr>)"

definition report :: "platform \<Rightarrow> u8 \<Rightarrow> u8 \<Rightarrow> world \<Rightarrow> world" where
  "report P eid rc w = (if rc \<noteq> 0 then createErrorLog P eid rc w else w)"

fun erots_loop :: "platform \<Rightarrow> u64 \<Rightarrow> u8 list \<Rightarrow> world \<Rightarrow> exn + (suspension \<times> world)" where
  "erots_loop P epochElapsedTime [] w = Inr (None, close_sockets w)"
| "erots_loop P epochElapsedTime (eid # eids) w =
     bindR (setTimeOnErot_start P eid epochElapsedTime w) (\<lambda>(r, w1).
       case r of
         Awaits a \<Rightarrow> Inr (Some (a, eid, eids), w1)
       | Returned rc \<Rightarrow> erots_loop P epochElapsedTime eids (report P eid rc w1))"

definition setTimeOnErots ::
    "platform \<Rightarrow> u64 \<Rightarrow> u8 list \<Rightarrow> world \<Rightarrow> exn + (suspension \<times> world)" where
  "setTimeOnErots P epochElapsedTime eids w =
     (if eids = [] then Inr (None, w)
      else bindR (activateSockets P eids (socks w) (log w)) (\<lambda>(rc, s, l).
        if rc < 0 then Inr (None, w\<lparr>socks := s, log := l\<rparr>)
        else erots_loop P epochElapsedTime eids (w\<lparr>socks := s, log := l\<rparr>)))"

text \<open>
  The loop resumed with the code of the endpoint it waited for. The loop refers to its caller's vector,
  through \<open>eid\<close> for the error log and through the iterator for the next endpoint, and finds it as the
  caller has left it: \<open>handleTimeChange\<close> has returned, the task's frame still exists. Comparing the
  iterators does not read the vector.
\<close>

definition setTimeOnErots_resume ::
    "platform \<Rightarrow> caller \<Rightarrow> u64 \<Rightarrow> u8 \<Rightarrow> u8 list \<Rightarrow> u8 \<Rightarrow> world \<Rightarrow> exn + (suspension \<times> world)" where
  "setTimeOnErots_resume P c epochElapsedTime eid eids rc w =
     (let (vector, m) = (case c of
            TimeChange \<Rightarrow> handleTimeChange_memory (eid # eids)
          | EndpointsTask \<Rightarrow> handleMctpEndpointsTask_memory (eid # eids))
      in bindR (if rc \<noteq> 0 then bindR (read_vector vector m) (\<lambda>v. Inr (report P (hd v) rc w)) else Inr w)
           (\<lambda>w1.
         bindR (if eids \<noteq> [] then bindR (read_vector vector m) (\<lambda>v. Inr (tl v)) else Inr []) (\<lambda>rest.
           erots_loop P epochElapsedTime rest w1)))"

text \<open>Reading a dead vector is undefined; otherwise the loop goes on with the rest.\<close>

lemma setTimeOnErots_resume_eq:
  "setTimeOnErots_resume P c t eid eids rc w =
     (if c = TimeChange \<and> (rc \<noteq> 0 \<or> eids \<noteq> []) then Inl UndefinedBehaviour
      else erots_loop P t eids (report P eid rc w))"
proof (cases c)
  case TimeChange
  obtain a m where h: "handleTimeChange_memory (eid # eids) = (a, m)" by (metis surj_pair)
  show ?thesis using read_time_change [OF h]
    by (auto simp: setTimeOnErots_resume_def TimeChange h report_def)
next
  case EndpointsTask
  obtain a m where h: "handleMctpEndpointsTask_memory (eid # eids) = (a, m)" by (metis surj_pair)
  show ?thesis using read_task [OF h]
    by (auto simp: setTimeOnErots_resume_def EndpointsTask h report_def)
qed

section \<open>What these operations leave alone\<close>

lemma registerRequest_frame [frame]:
  assumes "registerRequest P eid i type command msg rh w = Inr (rc, w')"
  shows "removeRequestContainer w' = removeRequestContainer w"
    and "requester.more w' = requester.more w"
  using registerRequest_run [OF assms] by (auto dest: runRegisteredRequest_frame)

text \<open>The manager's own members are the extension of the requester's record.\<close>

lemma world_more:
  assumes "requester.more (w' :: world) = requester.more w"
  shows "mctpInfoMap w' = mctpInfoMap w" "queuedMctpInfos w' = queuedMctpInfos w"
    "setErotTimeHandle w' = setErotTimeHandle w" "erotTimeSyncLast w' = erotTimeSyncLast w"
    "next_awaitable w' = next_awaitable w"
  using assms by (cases w; cases w'; simp)+

text \<open>
  Setting times changes the requester, the sockets, the identifiers and, through an error log, the
  map of ERoTs; the queue, the handle and the time of the last synchronisation stay as they are.
\<close>

definition same_queue :: "world \<Rightarrow> world \<Rightarrow> bool" where
  "same_queue w w' \<longleftrightarrow> queuedMctpInfos w' = queuedMctpInfos w
     \<and> setErotTimeHandle w' = setErotTimeHandle w \<and> erotTimeSyncLast w' = erotTimeSyncLast w"

lemma same_queue_refl [simp]: "same_queue w w"
  by (simp add: same_queue_def)

lemma same_queue_trans: "same_queue w w' \<Longrightarrow> same_queue w' w'' \<Longrightarrow> same_queue w w''"
  by (simp add: same_queue_def)

lemma report_frame [frame]:
  "handlers (report P eid rc w) = handlers w" "ids (report P eid rc w) = ids w"
  "socks (report P eid rc w) = socks w" "next_awaitable (report P eid rc w) = next_awaitable w"
  "removeRequestContainer (report P eid rc w) = removeRequestContainer w"
  "same_queue w (report P eid rc w)"
  by (auto simp: report_def createErrorLog_def Let_def same_queue_def split: option.splits)

lemma close_sockets_frame [frame]:
  "handlers (close_sockets w) = handlers w" "ids (close_sockets w) = ids w"
  "next_awaitable (close_sockets w) = next_awaitable w"
  "mctpInfoMap (close_sockets w) = mctpInfoMap w" "same_queue w (close_sockets w)"
  "removeRequestContainer (close_sockets w) = removeRequestContainer w"
  by (auto simp: close_sockets_def same_queue_def split: prod.splits)

lemma await_suspend_frame [frame]:
  assumes "await_suspend P eid request w = Inr (r, w')"
  shows "same_queue w w'" "mctpInfoMap w' = mctpInfoMap w"
    "next_awaitable w' = Suc (next_awaitable w)" "removeRequestContainer w' = removeRequestContainer w"
proof -
  from assms obtain key rc where
    "registerRequest P eid (key_instanceId key) (key_type key) (key_command key) request
      (next_awaitable w) (w\<lparr>next_awaitable := Suc (next_awaitable w)\<rparr>) = Inr (rc, w')"
    by (auto simp: await_suspend_def Let_def bindR_eq_Inr split: if_splits)
  note F = registerRequest_frame [OF this]
  note M = world_more [OF F(2)]
  show "same_queue w w'" "mctpInfoMap w' = mctpInfoMap w"
    "next_awaitable w' = Suc (next_awaitable w)" "removeRequestContainer w' = removeRequestContainer w"
    using F(1) M by (simp_all add: same_queue_def)
qed

lemma setTimeOnErot_start_frame [frame]:
  assumes "setTimeOnErot_start P eid t w = Inr (r, w')"
  shows "same_queue w w'" "mctpInfoMap w' = mctpInfoMap w"
    "next_awaitable w \<le> next_awaitable w'" "removeRequestContainer w' = removeRequestContainer w"
proof -
  have F: "same_queue w0 w' \<and> mctpInfoMap w' = mctpInfoMap w0 \<and> next_awaitable w0 \<le> next_awaitable w'
      \<and> removeRequestContainer w' = removeRequestContainer w0"
    if "await_suspend P eid q w0 = Inr (r, w')" for q w0
    using await_suspend_frame [OF that] by simp
  have "same_queue w w' \<and> mctpInfoMap w' = mctpInfoMap w \<and> next_awaitable w \<le> next_awaitable w'
      \<and> removeRequestContainer w' = removeRequestContainer w"
    using assms by (auto simp: setTimeOnErot_start_def same_queue_def split: prod.splits sum.splits
        dest!: F)
  then show "same_queue w w'" "mctpInfoMap w' = mctpInfoMap w"
    "next_awaitable w \<le> next_awaitable w'" "removeRequestContainer w' = removeRequestContainer w"
    by simp_all
qed

lemma erots_loop_frame [frame]:
  "erots_loop P t eids w = Inr (s, w') \<Longrightarrow>
     same_queue w w' \<and> next_awaitable w \<le> next_awaitable w'
     \<and> removeRequestContainer w' = removeRequestContainer w"
proof (induction eids arbitrary: w)
  case Nil
  then show ?case by (auto simp: close_sockets_frame)
next
  case (Cons eid eids)
  from Cons.prems obtain r w1 where st: "setTimeOnErot_start P eid t w = Inr (r, w1)"
    and rest: "(case r of Awaits a \<Rightarrow> Inr (Some (a, eid, eids), w1)
       | Returned rc \<Rightarrow> erots_loop P t eids (report P eid rc w1)) = Inr (s, w')"
    by (auto simp: bindR_eq_Inr)
  note F = setTimeOnErot_start_frame [OF st]
  show ?case
  proof (cases r)
    case (Returned rc)
    with rest have "erots_loop P t eids (report P eid rc w1) = Inr (s, w')" by simp
    from Cons.IH [OF this] F show ?thesis
      by (auto simp: report_frame intro: same_queue_trans same_queue_trans [OF _ report_frame(6)])
  qed (use rest F in auto)
qed

lemma setTimeOnErots_frame [frame]:
  assumes "setTimeOnErots P t eids w = Inr (s, w')"
  shows "same_queue w w'" and "removeRequestContainer w' = removeRequestContainer w"
    and "next_awaitable w \<le> next_awaitable w'"
proof -
  have "same_queue w (w\<lparr>socks := k, log := l\<rparr>)" for k l by (simp add: same_queue_def)
  then have "same_queue w w' \<and> removeRequestContainer w' = removeRequestContainer w
    \<and> next_awaitable w \<le> next_awaitable w'"
    using assms
    by (auto simp: setTimeOnErots_def bindR_eq_Inr split: if_splits dest!: erots_loop_frame
        intro: same_queue_trans)
  then show "same_queue w w'" "removeRequestContainer w' = removeRequestContainer w"
    "next_awaitable w \<le> next_awaitable w'" by simp_all
qed

text \<open>A suspended loop stands at an endpoint of its list, with the rest still to come.\<close>

lemma erots_loop_suspended:
  "erots_loop P t eids w = Inr (Some (a, eid, rest), w') \<Longrightarrow> \<exists>before. eids = before @ eid # rest"
proof (induction eids arbitrary: w)
  case (Cons x eids)
  then obtain r w1 where "setTimeOnErot_start P x t w = Inr (r, w1)"
    and "(case r of Awaits a \<Rightarrow> Inr (Some (a, x, eids), w1)
       | Returned rc \<Rightarrow> erots_loop P t eids (report P x rc w1)) = Inr (Some (a, eid, rest), w')"
    by (auto simp: bindR_eq_Inr)
  with Cons.IH show ?case by (cases r) (auto, metis append_Cons)
qed simp

lemma setTimeOnErots_suspended:
  "setTimeOnErots P t eids w = Inr (Some (a, eid, rest), w') \<Longrightarrow> \<exists>before. eids = before @ eid # rest"
  by (auto simp: setTimeOnErots_def bindR_eq_Inr split: if_splits dest: erots_loop_suspended)

section \<open>The task that serves discovered endpoints\<close>

text \<open>The loop \<open>while (!queuedMctpInfos.empty())\<close>: a list leaves the queue once it is served.\<close>

function task_loop :: "platform \<Rightarrow> u64 \<Rightarrow> world \<Rightarrow> exn + (suspension \<times> world)" where
  "task_loop P elapsedTime w =
     (case queuedMctpInfos w of
        [] \<Rightarrow> Inr (None, w)
      | mctpInfos # rest \<Rightarrow>
          bindR (setTimeOnErots P elapsedTime (map fst mctpInfos) w) (\<lambda>(s, w1).
            case s of
              Some x \<Rightarrow> Inr (Some x, w1)
            | None \<Rightarrow> task_loop P elapsedTime (w1\<lparr>queuedMctpInfos := tl (queuedMctpInfos w1)\<rparr>)))"
  by pat_completeness auto
termination
  by (relation "measure (\<lambda>(P, t, w). length (queuedMctpInfos w))")
    (auto dest!: setTimeOnErots_frame(1) simp: same_queue_def)

declare task_loop.simps [simp del]

text \<open>
  The task fetches the elapsed time once. A D-Bus error returns \<open>ErrGeneral\<close>, a reply of another
  type throws into \<open>unhandled_exception\<close>; either way the task is over and the queue is kept.
\<close>

definition handleMctpEndpointsTask ::
    "platform \<Rightarrow> world \<Rightarrow> exn + ((u64 \<times> nat \<times> u8 \<times> u8 list) option \<times> world)" where
  "handleMctpEndpointsTask P w =
     (let w1 = w\<lparr>log := log w @ [IO_get_elapsed]\<rparr>
      in case elapsed_reply P (log w) of
           None \<Rightarrow> Inr (None, w1)
         | Some value \<Rightarrow>
             (case get_uint64 value of
                Inl e \<Rightarrow> Inr (None, w1)
              | Inr elapsedTime \<Rightarrow>
                  bindR (task_loop P elapsedTime w1) (\<lambda>(s, w2).
                    Inr (map_option (\<lambda>x. (elapsedTime, x)) s, w2))))"

lemma task_loop_last:
  "task_loop P t w = Inr (s, w') \<Longrightarrow> erotTimeSyncLast w' = erotTimeSyncLast w"
proof (induction P t w rule: task_loop.induct)
  case (1 P t w)
  show ?case
  proof (cases "queuedMctpInfos w")
    case Nil
    with 1(2) show ?thesis by (subst (asm) task_loop.simps) auto
  next
    case (Cons infos q)
    with 1(2) obtain s1 w1 where set: "setTimeOnErots P t (map fst infos) w = Inr (s1, w1)"
      and rest: "(case s1 of Some x \<Rightarrow> Inr (Some x, w1)
        | None \<Rightarrow> task_loop P t (w1\<lparr>queuedMctpInfos := tl (queuedMctpInfos w1)\<rparr>)) = Inr (s, w')"
      by (subst (asm) task_loop.simps) (auto simp: bindR_eq_Inr)
    from setTimeOnErots_frame(1) [OF set] 1(1) [OF Cons set refl] rest show ?thesis
      by (cases s1) (auto simp: same_queue_def)
  qed
qed

section \<open>Resuming\<close>

definition suspend :: "caller \<Rightarrow> u64 \<Rightarrow> nat \<times> u8 \<times> u8 list \<Rightarrow> world \<Rightarrow> world" where
  "suspend c t s w = (case s of (a, eid, eids) \<Rightarrow> w\<lparr>setErotTimeHandle := Suspended c a t eid eids\<rparr>)"

text \<open>
  After the loop of \<open>setTimeOnErots\<close> has ended or suspended again: from the task, the list just
  served leaves the queue and the task goes on.
\<close>

definition after_loop :: "platform \<Rightarrow> caller \<Rightarrow> u64 \<Rightarrow> suspension \<times> world \<Rightarrow> exn + world" where
  "after_loop P c t r =
     (case r of
        (Some s, w) \<Rightarrow> Inr (suspend c t s w)
      | (None, w) \<Rightarrow>
          (case c of
             TimeChange \<Rightarrow> Inr (w\<lparr>setErotTimeHandle := Finished\<rparr>)
           | EndpointsTask \<Rightarrow>
               bindR (task_loop P t (w\<lparr>queuedMctpInfos := tl (queuedMctpInfos w)\<rparr>)) (\<lambda>(s, w1).
                 case s of
                   Some x \<Rightarrow> Inr (suspend c t x w1)
                 | None \<Rightarrow> Inr (w1\<lparr>setErotTimeHandle := Finished\<rparr>))))"

text \<open>
  A response handler is called: the awaitable's \<open>handleResponse\<close> resumes the chain. An awaitable
  whose coroutine no longer waits on it has been destroyed with its frame.
\<close>

definition erot_invoke :: "platform \<Rightarrow> nat \<Rightarrow> u8 \<Rightarrow> response \<Rightarrow> world \<Rightarrow> exn + world" where
  "erot_invoke P awaitable eid r w =
     (case setErotTimeHandle w of
        Suspended c a t cur eids \<Rightarrow>
          if a = awaitable then
            bindR (setTimeOnErot_finish r) (\<lambda>rc.
            bindR (setTimeOnErots_resume P c t cur eids rc w) (after_loop P c t))
          else Inl UndefinedBehaviour
      | _ \<Rightarrow> Inl UndefinedBehaviour)"

section \<open>The two entry points\<close>

text \<open>
  Recording discovered endpoints. The inner loop that looks for the endpoint in the ERoT's queue
  only continues itself, so every endpoint is pushed.
\<close>

fun record_infos ::
    "platform \<Rightarrow> mctp_info list \<Rightarrow> (string \<times> MctpEidInfo list) list
      \<Rightarrow> exn + (string \<times> MctpEidInfo list) list" where
  "record_infos P [] m = Inr m"
| "record_infos P ((eid, uuid, mediumType, networkId) # infos) m =
     (case map_of m uuid of
        Some queue \<Rightarrow>
          bindR (pq_push \<lparr>info_eid = eid, info_medium = mediumType\<rparr> queue) (\<lambda>queue'.
            record_infos P infos (AList.update uuid queue' m))
      | None \<Rightarrow>
          bindR (pq_push \<lparr>info_eid = eid, info_medium = mediumType\<rparr> []) (\<lambda>queue.
            record_infos P infos (hash_emplace (uuid_order P) uuid queue m)))"

text \<open>
  A new task is started unless a chain is in progress; one that is over is destroyed first. The frame
  of the new one is handled as \<open>start_task\<close> has it.
\<close>

definition handleMctpEndpoints :: "platform \<Rightarrow> mctp_info list \<Rightarrow> world \<Rightarrow> exn + world" where
  "handleMctpEndpoints P mctpInfos w =
     bindR (record_infos P mctpInfos (mctpInfoMap w)) (\<lambda>m.
       let w1 = w\<lparr>mctpInfoMap := m, queuedMctpInfos := queuedMctpInfos w @ [mctpInfos]\<rparr>
       in case setErotTimeHandle w1 of
            Suspended c a t cur eids \<Rightarrow> Inr w1
          | _ \<Rightarrow>
              bindR (handleMctpEndpointsTask P (w1\<lparr>setErotTimeHandle := NoCoro\<rparr>)) (\<lambda>(s, w2).
              bindR (start_task (s = None)) (\<lambda>(handle, c).
                Inr (case s of
                       Some (t, x) \<Rightarrow> suspend EndpointsTask t x w2
                     | None \<Rightarrow> w2\<lparr>setErotTimeHandle := NoCoro\<rparr>))))"

text \<open>A task that is over before it suspends is destroyed twice.\<close>

lemma handleMctpEndpoints_eq:
  "handleMctpEndpoints P mctpInfos w =
     bindR (record_infos P mctpInfos (mctpInfoMap w)) (\<lambda>m.
       let w1 = w\<lparr>mctpInfoMap := m, queuedMctpInfos := queuedMctpInfos w @ [mctpInfos]\<rparr>
       in case setErotTimeHandle w1 of
            Suspended c a t cur eids \<Rightarrow> Inr w1
          | _ \<Rightarrow>
              bindR (handleMctpEndpointsTask P (w1\<lparr>setErotTimeHandle := NoCoro\<rparr>)) (\<lambda>(s, w2).
                case s of
                  Some (t, x) \<Rightarrow> Inr (suspend EndpointsTask t x w2)
                | None \<Rightarrow> Inl UndefinedBehaviour))"
proof -
  have "bindR (start_task (s = None)) (\<lambda>(handle, c).
      Inr (case s of Some (t, x) \<Rightarrow> suspend EndpointsTask t x w2 | None \<Rightarrow> w2\<lparr>setErotTimeHandle := NoCoro\<rparr>))
    = (case s of Some (t, x) \<Rightarrow> Inr (suspend EndpointsTask t x w2) | None \<Rightarrow> Inl UndefinedBehaviour)" for s w2
    using start_task_suspended by (cases s) (auto split: prod.splits)
  then show ?thesis unfolding handleMctpEndpoints_def
    by (auto simp: Let_def fun_eq_iff split: coro.splits intro!: bindR_cong)
qed

fun top_eids :: "(string \<times> MctpEidInfo list) list \<Rightarrow> exn + u8 list" where
  "top_eids [] = Inr []"
| "top_eids ((uuid, queue) # rest) =
     bindR (pq_top queue) (\<lambda>info. bindR (top_eids rest) (\<lambda>eids. Inr (info_eid info # eids)))"

definition ECANCELED :: int where
  "ECANCELED = 125"

text \<open>
  The timer descriptor is readable: \<open>result\<close> is what \<open>read\<close> returned (\<open>-errno\<close> on failure), \<open>now\<close> the
  steady clock in nanoseconds, \<open>elapsed\<close> the system clock in microseconds. Both clocks are \<open>int64_t\<close>
  counts; the second is converted to \<open>uint64_t\<close>.
\<close>

definition handleTimeChange :: "platform \<Rightarrow> int \<Rightarrow> int \<Rightarrow> int \<Rightarrow> world \<Rightarrow> exn + world" where
  "handleTimeChange P result now elapsed w =
     (if result \<noteq> - ECANCELED then Inr w
      else if duration_cast_down 1000000000 (now - erotTimeSyncLast w) < sync_interval P then Inr w
      else case setErotTimeHandle w of
             Suspended c a t cur eids \<Rightarrow> Inr w
           | _ \<Rightarrow>
               bindR (top_eids (mctpInfoMap w)) (\<lambda>eids.
               bindR (setTimeOnErots P (word_of_int elapsed) eids w) (\<lambda>(s, w1).
                 let w2 = (case s of
                             Some x \<Rightarrow> suspend TimeChange (word_of_int elapsed) x w1
                           | None \<Rightarrow> w1\<lparr>setErotTimeHandle := NoCoro\<rparr>)
                 in Inr (w2\<lparr>erotTimeSyncLast := now\<rparr>))))"

section \<open>The manager's invariant\<close>

text \<open>
  The requester's invariant; every registered response handler is an awaitable that has been made
  and belongs to one entry only; the map of ERoTs has one non-empty queue per UUID; and a chain
  suspended in the task is serving the list at the front of the queue.
\<close>

definition handler_at :: "('rh, 'z) requester_scheme \<Rightarrow> RequestKey \<Rightarrow> 'rh option" where
  "handler_at w k = map_option e_handler (map_of (handlers w) k)"

definition token_inv :: "world \<Rightarrow> bool" where
  "token_inv w \<longleftrightarrow> (\<forall>k a. handler_at w k = Some a \<longrightarrow> a < next_awaitable w)
     \<and> (\<forall>k k' a. handler_at w k = Some a \<longrightarrow> handler_at w k' = Some a \<longrightarrow> k = k')"

definition map_inv :: "(string \<times> MctpEidInfo list) list \<Rightarrow> bool" where
  "map_inv m \<longleftrightarrow> distinct (map fst m) \<and> (\<forall>q\<in>snd ` set m. q \<noteq> [])"

definition core_inv :: "world \<Rightarrow> bool" where
  "core_inv w \<longleftrightarrow> req_inv w \<and> token_inv w \<and> map_inv (mctpInfoMap w)"

definition chain_ok :: "world \<Rightarrow> bool" where
  "chain_ok w = (case setErotTimeHandle w of
     Suspended c a t eid eids \<Rightarrow> a < next_awaitable w
       \<and> (c = EndpointsTask \<longrightarrow>
           (\<exists>infos q before. queuedMctpInfos w = infos # q \<and> map fst infos = before @ eid # eids))
   | _ \<Rightarrow> True)"

definition sys_inv :: "world \<Rightarrow> bool" where
  "sys_inv w \<longleftrightarrow> core_inv w \<and> chain_ok w"

lemma handler_at_upd: "(\<And>e. e_handler (f e) = e_handler e) \<Longrightarrow> handler_at (upd_entry key f w) = handler_at w"
  by (auto simp: handler_at_def map_of_upd_entry option.map_comp comp_def fun_eq_iff)

lemma handler_at_cong: "handlers w' = handlers w \<Longrightarrow> handler_at w' = handler_at w"
  by (simp add: handler_at_def fun_eq_iff)

lemma handler_at_run:
  "runRegisteredRequest P eid w = Inr (rc, w') \<Longrightarrow> req_inv w \<Longrightarrow> handler_at w' = handler_at w"
  by (simp add: handler_at_def fun_eq_iff runRegisteredRequest_result(2) [OF req_inv_distinct])

text \<open>Taking handlers away, and making more awaitables, keeps the handlers in order.\<close>

lemma token_inv_shrink:
  assumes "token_inv w" and "next_awaitable w \<le> next_awaitable w'"
    and "\<And>k. handler_at w' k = None \<or> handler_at w' k = handler_at w k"
  shows "token_inv w'"
proof -
  have sub: "handler_at w k = Some a" if "handler_at w' k = Some a" for k a
    using assms(3) [of k] that by simp
  with assms(1,2) show ?thesis unfolding token_inv_def by (meson order_less_le_trans)
qed

lemma token_inv_cong:
  "handler_at w' = handler_at w \<Longrightarrow> next_awaitable w' = next_awaitable w \<Longrightarrow> token_inv w' = token_inv w"
  by (simp add: token_inv_def)

lemma core_inv_cong:
  assumes "handlers w' = handlers w" and "next_awaitable w' = next_awaitable w"
    and "mctpInfoMap w' = mctpInfoMap w"
  shows "core_inv w' = core_inv w"
  using req_inv_cong [OF assms(1)] token_inv_cong [OF handler_at_cong [OF assms(1)] assms(2)] assms(3)
  by (simp add: core_inv_def)

lemma sys_inv_cong:
  assumes "handlers w' = handlers w" and "next_awaitable w' = next_awaitable w"
    and "mctpInfoMap w' = mctpInfoMap w" and "setErotTimeHandle w' = setErotTimeHandle w"
    and "queuedMctpInfos w' = queuedMctpInfos w"
  shows "sys_inv w' = sys_inv w"
  using core_inv_cong [OF assms(1-3)] unfolding sys_inv_def chain_ok_def assms(2,4,5) by simp

lemma chain_ok_cong:
  assumes "same_queue w w'" and "next_awaitable w \<le> next_awaitable w'"
  shows "chain_ok w \<Longrightarrow> chain_ok w'"
  using assms by (auto simp: chain_ok_def same_queue_def split: coro.splits)

text \<open>Registering a request under a fresh awaitable.\<close>

lemma register_core_inv:
  assumes "registerRequest P eid i type command msg a (w\<lparr>next_awaitable := Suc a\<rparr>) = Inr (rc, w')"
    and "core_inv w" and "a = next_awaitable w" and "unat i < maxInstanceIds"
  shows "core_inv w'"
proof -
  let ?w0 = "w\<lparr>next_awaitable := Suc a\<rparr>" and ?key = "RequestKey eid i type command"
  have r0: "req_inv ?w0" using assms(2) req_inv_cong [of ?w0 w] by (simp add: core_inv_def)
  from registerRequest_run [OF assms(1)] obtain wa e where
    run: "runRegisteredRequest P eid wa = Inr (rc, w')"
    and ha: "handlers wa = hash_emplace (key_order P) ?key e (handlers w)"
    and e: "e_handler e = a" by auto
  have "req_inv w'" by (rule registerRequest_inv [OF assms(1) r0 assms(4)])
  moreover note F = world_more [OF registerRequest_frame(2) [OF assms(1)]]
  moreover have "handler_at w' = handler_at wa"
  proof -
    have "distinct (map fst (handlers wa))"
      using req_inv_distinct [OF r0] ha by simp
    from runRegisteredRequest_result(2) [OF this run] show ?thesis
      by (simp add: handler_at_def fun_eq_iff)
  qed
  moreover have "handler_at wa k =
      (if k = ?key \<and> handler_at w k = None then Some a else handler_at w k)" for k
    using map_of_hash_emplace [OF req_inv_distinct [OF r0], of "key_order P" ?key e] ha e
    by (auto simp: handler_at_def map_of_eq_None_iff image_iff)
  moreover have "handler_at w k \<noteq> Some a" for k
    using assms(2,3) by (auto simp: core_inv_def token_inv_def)
  moreover have "\<And>k b. handler_at w k = Some b \<Longrightarrow> b < a"
    "\<And>k k' b. handler_at w k = Some b \<Longrightarrow> handler_at w k' = Some b \<Longrightarrow> k = k'"
    using assms(2,3) by (auto simp: core_inv_def token_inv_def)
  ultimately show ?thesis using assms(2)
    unfolding core_inv_def token_inv_def by (auto split: if_splits simp: less_Suc_eq)
qed

lemma start_core_inv:
  assumes "setTimeOnErot_start P eid t w = Inr (r, w')" and "core_inv w"
  shows "core_inv w' \<and> (\<forall>a. r = Awaits a \<longrightarrow> a < next_awaitable w')"
proof (cases "getInstanceId eid (ids w)")
  case (Pair x m)
  have inv: "core_inv (w\<lparr>ids := m\<rparr>)" using assms(2) core_inv_cong [of "w\<lparr>ids := m\<rparr>" w] by simp
  show ?thesis
  proof (cases x)
    case (Inl e)
    with Pair assms(1) inv show ?thesis by (auto simp: setTimeOnErot_start_def)
  next
    case (Inr i)
    with Pair assms(1) have aw: "await_suspend P eid (addExtTimestamp_request i t) (w\<lparr>ids := m\<rparr>) = Inr (r, w')"
      by (simp add: setTimeOnErot_start_def)
    then obtain key rc where key: "request_key eid (addExtTimestamp_request i t) = Inr key"
      and reg: "registerRequest P eid (key_instanceId key) (key_type key) (key_command key)
        (addExtTimestamp_request i t) (next_awaitable w)
        ((w\<lparr>ids := m\<rparr>)\<lparr>next_awaitable := Suc (next_awaitable w)\<rparr>) = Inr (rc, w')"
      and r: "r = Awaits (next_awaitable w) \<or> (\<exists>c. r = Returned c)"
      by (auto simp: await_suspend_def Let_def bindR_eq_Inr split: if_splits)
    from key have "unat (key_instanceId key) < maxInstanceIds"
      by (auto simp: request_key_def bindR_eq_Inr maxInstanceIds_def dest: unat_read_instanceId)
    with register_core_inv [OF reg inv] have "core_inv w'" by simp
    moreover have "next_awaitable w' = Suc (next_awaitable w)"
      using await_suspend_frame(3) [OF aw] by simp
    ultimately show ?thesis using r by auto
  qed
qed

lemma report_core_inv: "core_inv w \<Longrightarrow> core_inv (report P eid rc w)"
proof -
  assume inv: "core_inv w"
  have "mctpInfoMap (report P eid rc w) = mctpInfoMap w
    \<or> (\<exists>u. mctpInfoMap (report P eid rc w) = AList.delete u (mctpInfoMap w))"
    by (auto simp: report_def createErrorLog_def Let_def split: option.splits)
  then have "map_inv (mctpInfoMap (report P eid rc w))"
    using inv by (auto simp: core_inv_def map_inv_def set_delete)
  with inv show ?thesis
    unfolding core_inv_def
    using req_inv_cong [OF report_frame(1)] token_inv_cong [OF handler_at_cong [OF report_frame(1)] report_frame(4)]
    by blast
qed

lemma close_core_inv: "core_inv w \<Longrightarrow> core_inv (close_sockets w)"
  using core_inv_cong [of "close_sockets w" w] by (simp add: close_sockets_frame)

lemma erots_loop_core_inv:
  "erots_loop P t eids w = Inr (s, w') \<Longrightarrow> core_inv w \<Longrightarrow>
     core_inv w' \<and> (\<forall>a eid rest. s = Some (a, eid, rest) \<longrightarrow>
       a < next_awaitable w' \<and> (\<exists>before. eids = before @ eid # rest))"
proof (induction eids arbitrary: w)
  case Nil
  then show ?case by (auto intro: close_core_inv)
next
  case (Cons x eids)
  from Cons.prems(1) obtain r w1 where st: "setTimeOnErot_start P x t w = Inr (r, w1)"
    and rest: "(case r of Awaits a \<Rightarrow> Inr (Some (a, x, eids), w1)
       | Returned rc \<Rightarrow> erots_loop P t eids (report P x rc w1)) = Inr (s, w')"
    by (auto simp: bindR_eq_Inr)
  note S = start_core_inv [OF st Cons.prems(2)]
  show ?case
  proof (cases r)
    case (Awaits a)
    with S rest show ?thesis by auto
  next
    case (Returned rc)
    with rest have "erots_loop P t eids (report P x rc w1) = Inr (s, w')" by simp
    from Cons.IH [OF this report_core_inv] S show ?thesis by (metis append_Cons)
  qed
qed

lemma setTimeOnErots_core_inv:
  assumes "setTimeOnErots P t eids w = Inr (s, w')" and "core_inv w"
  shows "core_inv w' \<and> (\<forall>a eid rest. s = Some (a, eid, rest) \<longrightarrow>
    a < next_awaitable w' \<and> (\<exists>before. eids = before @ eid # rest))"
proof -
  have "core_inv (w\<lparr>socks := k, log := l\<rparr>)" for k l
    using assms(2) core_inv_cong [of "w\<lparr>socks := k, log := l\<rparr>" w] by simp
  with assms show ?thesis
    by (auto simp: setTimeOnErots_def bindR_eq_Inr split: if_splits dest: erots_loop_core_inv)
qed

lemma task_loop_core_inv:
  "task_loop P t w = Inr (s, w') \<Longrightarrow> core_inv w \<Longrightarrow>
     core_inv w' \<and> setErotTimeHandle w' = setErotTimeHandle w
     \<and> erotTimeSyncLast w' = erotTimeSyncLast w \<and> next_awaitable w \<le> next_awaitable w'
     \<and> (s = None \<longrightarrow> queuedMctpInfos w' = [])
     \<and> (\<forall>a eid rest. s = Some (a, eid, rest) \<longrightarrow> a < next_awaitable w'
         \<and> (\<exists>infos q before. queuedMctpInfos w' = infos # q \<and> map fst infos = before @ eid # rest))
     \<and> (\<exists>n. queuedMctpInfos w' = drop n (queuedMctpInfos w))"
proof (induction P t w rule: task_loop.induct)
  case (1 P t w)
  show ?case
  proof (cases "queuedMctpInfos w")
    case Nil
    with 1(2,3) show ?thesis by (subst (asm) task_loop.simps) auto
  next
    case (Cons infos q)
    with 1(2) obtain s1 w1 where set: "setTimeOnErots P t (map fst infos) w = Inr (s1, w1)"
      and rest: "(case s1 of Some x \<Rightarrow> Inr (Some x, w1)
        | None \<Rightarrow> task_loop P t (w1\<lparr>queuedMctpInfos := tl (queuedMctpInfos w1)\<rparr>)) = Inr (s, w')"
      by (subst (asm) task_loop.simps) (auto simp: bindR_eq_Inr)
    note F = setTimeOnErots_frame [OF set] and S = setTimeOnErots_core_inv [OF set 1(3)]
    from F(1) Cons have q1: "queuedMctpInfos w1 = infos # q" by (simp add: same_queue_def)
    show ?thesis
    proof (cases s1)
      case (Some x)
      with rest have "s = Some x" "w' = w1" by auto
      with F S q1 Cons Some show ?thesis
        by (cases x) (auto simp: same_queue_def intro!: exI [of _ 0])
    next
      case None
      let ?w2 = "w1\<lparr>queuedMctpInfos := tl (queuedMctpInfos w1)\<rparr>"
      have "core_inv ?w2" using S core_inv_cong [of ?w2 w1] by simp
      moreover from None rest have "task_loop P t ?w2 = Inr (s, w')" by simp
      ultimately have IH: "core_inv w' \<and> setErotTimeHandle w' = setErotTimeHandle ?w2
          \<and> erotTimeSyncLast w' = erotTimeSyncLast ?w2 \<and> next_awaitable ?w2 \<le> next_awaitable w'
          \<and> (s = None \<longrightarrow> queuedMctpInfos w' = [])
          \<and> (\<forall>a eid rest. s = Some (a, eid, rest) \<longrightarrow> a < next_awaitable w'
              \<and> (\<exists>infos q before. queuedMctpInfos w' = infos # q \<and> map fst infos = before @ eid # rest))
          \<and> (\<exists>n. queuedMctpInfos w' = drop n (queuedMctpInfos ?w2))"
        using 1(1) [OF Cons set refl None] by blast
      from IH obtain n where "queuedMctpInfos w' = drop n q" using q1 by auto
      then have "\<exists>n. queuedMctpInfos w' = drop n (queuedMctpInfos w)"
        using Cons by (intro exI [of _ "Suc n"]) simp
      with IH F show ?thesis by (auto simp: same_queue_def)
    qed
  qed
qed

lemma suspend_sys_inv:
  assumes "core_inv w" and "a < next_awaitable w"
    and "c = EndpointsTask \<Longrightarrow>
      \<exists>infos q before. queuedMctpInfos w = infos # q \<and> map fst infos = before @ eid # eids"
  shows "sys_inv (suspend c t (a, eid, eids) w)"
proof -
  let ?w = "suspend c t (a, eid, eids) w"
  have "core_inv ?w" using assms(1) core_inv_cong [of ?w w] by (simp add: suspend_def)
  moreover have "chain_ok ?w" using assms(2,3) by (simp add: chain_ok_def suspend_def)
  ultimately show ?thesis by (simp add: sys_inv_def)
qed

lemma idle_sys_inv:
  assumes "core_inv w" and "h = NoCoro \<or> h = Finished"
  shows "sys_inv (w\<lparr>setErotTimeHandle := h\<rparr>)"
  using assms core_inv_cong [of "w\<lparr>setErotTimeHandle := h\<rparr>" w]
  by (auto simp: sys_inv_def chain_ok_def)

lemma erot_invoke_inv [inv_intro]:
  assumes "erot_invoke P b eid' r w = Inr w'" and "sys_inv w"
  shows "sys_inv w'"
proof -
  from assms(1) obtain c a t eid eids where h: "setErotTimeHandle w = Suspended c a t eid eids"
    by (auto simp: erot_invoke_def split: coro.splits)
  with assms(1) obtain rc s w1 where
    res: "setTimeOnErots_resume P c t eid eids rc w = Inr (s, w1)" and
    after: "after_loop P c t (s, w1) = Inr w'"
    by (auto simp: erot_invoke_def bindR_eq_Inr split: if_splits)
  from res have loop: "erots_loop P t eids (report P eid rc w) = Inr (s, w1)"
    by (simp add: setTimeOnErots_resume_eq split: if_splits)
  from assms(2) have core: "core_inv (report P eid rc w)" by (simp add: sys_inv_def report_core_inv)
  note L = erots_loop_core_inv [OF loop core]
  have q1: "queuedMctpInfos w1 = queuedMctpInfos w"
    using erots_loop_frame [OF loop] report_frame(6) [of w P eid rc] by (simp add: same_queue_def)
  show ?thesis
  proof (cases s)
    case (Some x)
    obtain a2 eid2 rest where x: "x = (a2, eid2, rest)" by (metis prod.collapse)
    from L Some x obtain before where b: "eids = before @ eid2 # rest" "a2 < next_awaitable w1" by auto
    have "\<exists>infos q before. queuedMctpInfos w1 = infos # q \<and> map fst infos = before @ eid2 # rest"
      if task: "c = EndpointsTask"
    proof -
      from assms(2) h task q1 obtain infos q b0 where
        "queuedMctpInfos w1 = infos # q" "map fst infos = b0 @ eid # eids"
        by (auto simp: sys_inv_def chain_ok_def)
      with b(1) show ?thesis by (intro exI [of _ infos] exI [of _ q] exI [of _ "b0 @ eid # before"]) simp
    qed
    with L b(2) Some x after show ?thesis by (auto simp: after_loop_def intro!: suspend_sys_inv)
  next
    case None
    show ?thesis
    proof (cases c)
      case TimeChange
      with None after L show ?thesis by (auto simp: after_loop_def intro!: idle_sys_inv)
    next
      case EndpointsTask
      let ?w2 = "w1\<lparr>queuedMctpInfos := tl (queuedMctpInfos w1)\<rparr>"
      have "core_inv ?w2" using L core_inv_cong [of ?w2 w1] by simp
      moreover from None EndpointsTask after obtain s2 w3 where
        task: "task_loop P t ?w2 = Inr (s2, w3)" and
        w': "w' = (case s2 of Some x \<Rightarrow> suspend c t x w3 | None \<Rightarrow> w3\<lparr>setErotTimeHandle := Finished\<rparr>)"
        by (auto simp: after_loop_def bindR_eq_Inr split: option.splits)
      ultimately have T: "core_inv w3" "\<And>a eid rest. s2 = Some (a, eid, rest) \<Longrightarrow>
          a < next_awaitable w3 \<and>
          (\<exists>infos q before. queuedMctpInfos w3 = infos # q \<and> map fst infos = before @ eid # rest)"
        using task_loop_core_inv [OF task] by auto
      show ?thesis
      proof (cases s2)
        case (Some x)
        with T w' show ?thesis by (cases x) (auto intro!: suspend_sys_inv)
      qed (use T w' in \<open>auto intro!: idle_sys_inv\<close>)
    qed
  qed
qed

text \<open>The requester's own operations keep it as well: they only take handlers away.\<close>

lemma requester_op_inv:
  assumes "sys_inv w" and "req_inv w'" and "requester.more w' = requester.more w"
    and "\<And>k. handler_at w' k = None \<or> handler_at w' k = handler_at w k"
  shows "sys_inv w'"
proof -
  note M = world_more [OF assms(3)]
  have "token_inv w'"
  proof (rule token_inv_shrink)
    show "token_inv w" using assms(1) by (simp add: sys_inv_def core_inv_def)
    show "next_awaitable w \<le> next_awaitable w'" by (simp add: M(5))
  qed (rule assms(4))
  moreover have "chain_ok w'"
  proof (rule chain_ok_cong)
    show "same_queue w w'" by (simp add: same_queue_def M)
    show "next_awaitable w \<le> next_awaitable w'" by (simp add: M(5))
    show "chain_ok w" using assms(1) by (simp add: sys_inv_def)
  qed
  ultimately show ?thesis using assms(1,2) M(1) by (simp add: sys_inv_def core_inv_def)
qed

lemma sys_inv_req: "sys_inv w \<Longrightarrow> req_inv w"
  by (simp add: sys_inv_def core_inv_def)

interpretation erot: response_contract "erot_invoke P" sys_inv for P
proof
  show "erot_invoke P rh eid r w = Inr w' \<Longrightarrow> sys_inv w \<Longrightarrow> sys_inv w'" for rh eid r w w'
    by (rule erot_invoke_inv)
next
  fix w :: world and key assume I: "sys_inv w"
  show "sys_inv (upd_entry key stop_entry w)"
    by (rule requester_op_inv [OF I req_inv_stop [OF sys_inv_req [OF I]]])
      (simp_all add: handler_at_upd stop_entry_def)
next
  fix w :: world and key assume I: "sys_inv w"
  show "sys_inv (w\<lparr>handlers := AList.delete key (handlers w)\<rparr>)"
    by (rule requester_op_inv [OF I req_inv_delete [OF sys_inv_req [OF I]]])
      (auto simp: handler_at_def delete_conv')
next
  fix eid i and w w' :: world assume f: "free_id eid i w = Inr w'" and I: "sys_inv w"
  from handlers_free_id [OF f] have h: "handlers w' = handlers w"
    and m: "requester.more w' = requester.more w" by auto
  show "sys_inv w'"
    by (rule requester_op_inv [OF I req_inv_free_id [OF f sys_inv_req [OF I]] m])
      (simp add: handler_at_cong [OF h])
next
  fix P' eid rc and w w' :: world
  assume r: "runRegisteredRequest P' eid w = Inr (rc, w')" and I: "sys_inv w"
  show "sys_inv w'"
    by (rule requester_op_inv [OF I runRegisteredRequest_inv [OF r sys_inv_req [OF I]]
          runRegisteredRequest_frame(3) [OF r]])
      (simp add: handler_at_run [OF r sys_inv_req [OF I]])
next
  fix w :: world and c assume I: "sys_inv w"
  have "req_inv (w\<lparr>removeRequestContainer := c\<rparr>)"
    using sys_inv_req [OF I] req_inv_cong [of "w\<lparr>removeRequestContainer := c\<rparr>" w] by simp
  then show "sys_inv (w\<lparr>removeRequestContainer := c\<rparr>)"
    by (rule requester_op_inv [OF I]) (simp_all add: handler_at_def)
qed

end
