(* ===== verification/Discovery.thy ===== *)
theory Discovery
  imports ErotTimeManager
begin

text \<open>
  Discovery of MCTP endpoints (\<open>oem/nvidia/mctp_endpoint_discovery.cpp\<close>): reading an endpoint's
  properties into an \<open>mctp::Info\<close>, the walk over the object mapper's answer at start-up, the signal
  for added interfaces, and the call of the registered handlers. The replies of the mapper and of
  \<open>GetAll\<close> are parameters; \<open>None\<close> stands for a call or a read that throws.
\<close>

section \<open>Reading one endpoint\<close>

definition mctpEndpointIntfName :: string where
  "mctpEndpointIntfName = ''xyz.openbmc_project.MCTP.Endpoint''"

definition unixSocketIntfName :: string where
  "unixSocketIntfName = ''xyz.openbmc_project.Common.UnixSocket''"

text \<open>The conversion of a \<open>size_t\<close> to \<open>int\<close>.\<close>

definition to_int :: "u64 \<Rightarrow> int" where
  "to_int n = sint (ucast n :: u32)"

text \<open>The loop over the interfaces, with the locals \<open>uuid\<close>, \<open>type\<close>, \<open>protocol\<close> and \<open>address\<close>.\<close>

type_synonym endpoint_locals = "string \<times> int \<times> int \<times> bytes"

fun scan_interfaces :: "interface_map \<Rightarrow> endpoint_locals \<Rightarrow> exn + endpoint_locals" where
  "scan_interfaces [] l = Inr l"
| "scan_interfaces ((intfName, properties) # rest) (uuid, type, protocol, address) =
     bindR (if intfName = uuidInterface then bindR (map_at ''UUID'' properties) get_string
            else Inr uuid) (\<lambda>uuid.
     bindR (if intfName = unixSocketIntfName then
              bindR (bindR (map_at ''Type'' properties) get_uint64) (\<lambda>t.
              bindR (bindR (map_at ''Protocol'' properties) get_uint64) (\<lambda>p.
              bindR (bindR (map_at ''Address'' properties) get_bytes) (\<lambda>a.
                Inr (to_int t, to_int p, a))))
            else Inr (type, protocol, address)) (\<lambda>(type, protocol, address).
       scan_interfaces rest (uuid, type, protocol, address)))"

text \<open>The endpoint's own properties; the answer is \<open>None\<close> where the code falls through.\<close>

definition read_endpoint :: "property_map \<Rightarrow> exn + (u64 \<times> string \<times> u64) option" where
  "read_endpoint properties =
     (if map_of properties ''EID'' \<noteq> None \<and> map_of properties ''SupportedMessageTypes'' \<noteq> None
         \<and> map_of properties ''MediumType'' \<noteq> None
      then
        bindR (bindR (map_at ''EID'' properties) get_uint64) (\<lambda>eid.
        bindR (bindR (map_at ''SupportedMessageTypes'' properties) get_bytes) (\<lambda>mctpTypes.
        bindR (bindR (map_at ''MediumType'' properties) get_string) (\<lambda>mediumType.
        bindR (bindR (map_at ''NetworkId'' properties) get_uint64) (\<lambda>networkId.
          if messageType \<in> set mctpTypes then Inr (Some (eid, mediumType, networkId))
          else Inr None))))
      else Inr None)"

text \<open>
  Any exception is caught and leaves the endpoint out; nothing has been stored before it. The
  endpoint and network numbers are cut to \<open>uint8_t\<close>.
\<close>

definition populateMctpInfo ::
    "interface_map \<Rightarrow> mctp_info list \<times> sock_state \<Rightarrow> mctp_info list \<times> sock_state" where
  "populateMctpInfo interfaces r =
     (case r of (mctpInfos, s) \<Rightarrow>
       case scan_interfaces interfaces ([], 0, 0, []) of
         Inl e \<Rightarrow> (mctpInfos, s)
       | Inr (uuid, type, protocol, address) \<Rightarrow>
           if uuid = [] \<or> address = [] \<or> type = 0 then (mctpInfos, s)
           else (case map_of interfaces mctpEndpointIntfName of
                   None \<Rightarrow> (mctpInfos, s)
                 | Some properties \<Rightarrow>
                     (case read_endpoint properties of
                        Inr (Some (eid, mediumType, networkId)) \<Rightarrow>
                          (mctpInfos @ [(ucast eid, uuid, mediumType, ucast networkId)],
                           registerMctpEndpoint (ucast eid) type protocol address s)
                      | _ \<Rightarrow> (mctpInfos, s))))"

section \<open>Discovering\<close>

text \<open>A registered handler may be a null pointer.\<close>

fun call_handlers ::
    "(mctp_info list \<Rightarrow> world \<Rightarrow> exn + world) option list \<Rightarrow> mctp_info list \<Rightarrow> world \<Rightarrow> exn + world"
  where
  "call_handlers [] mctpInfos w = Inr w"
| "call_handlers (None # hs) mctpInfos w = call_handlers hs mctpInfos w"
| "call_handlers (Some h # hs) mctpInfos w = bindR (h mctpInfos w) (call_handlers hs mctpInfos)"

definition discoverEndpoints ::
    "(mctp_info list \<Rightarrow> world \<Rightarrow> exn + world) option list \<Rightarrow> interface_map \<Rightarrow> world \<Rightarrow> exn + world"
  where
  "discoverEndpoints hs interfaces w =
     (let (mctpInfos, s) = populateMctpInfo interfaces ([], socks w)
      in call_handlers hs mctpInfos (w\<lparr>socks := s\<rparr>))"

text \<open>The three \<open>GetAll\<close> calls for an object, and the endpoint they describe.\<close>

definition fetch_endpoint ::
    "(string \<Rightarrow> string \<Rightarrow> string \<Rightarrow> property_map option) \<Rightarrow> string \<Rightarrow> string
      \<Rightarrow> mctp_info list \<times> sock_state \<Rightarrow> mctp_info list \<times> sock_state" where
  "fetch_endpoint getAll object service r =
     (case (getAll service object uuidInterface, getAll service object unixSocketIntfName,
            getAll service object mctpEndpointIntfName) of
        (Some uuidMap, Some sockMap, Some epMap) \<Rightarrow>
          populateMctpInfo
            [(uuidInterface, uuidMap), (unixSocketIntfName, sockMap), (mctpEndpointIntfName, epMap)] r
      | _ \<Rightarrow> r)"

fun fetch_services ::
    "(string \<Rightarrow> string \<Rightarrow> string \<Rightarrow> property_map option) \<Rightarrow> string \<Rightarrow> (string \<times> string list) list
      \<Rightarrow> mctp_info list \<times> sock_state \<Rightarrow> mctp_info list \<times> sock_state" where
  "fetch_services getAll object [] r = r"
| "fetch_services getAll object ((service, interfaces) # rest) r =
     fetch_services getAll object rest (fetch_endpoint getAll object service r)"

fun fetch_objects ::
    "(string \<Rightarrow> string \<Rightarrow> string \<Rightarrow> property_map option)
      \<Rightarrow> (string \<times> (string \<times> string list) list) list
      \<Rightarrow> mctp_info list \<times> sock_state \<Rightarrow> mctp_info list \<times> sock_state" where
  "fetch_objects getAll [] r = r"
| "fetch_objects getAll ((object, serviceMap) # rest) r =
     fetch_objects getAll rest (fetch_services getAll object serviceMap r)"

definition MctpDiscovery ::
    "(mctp_info list \<Rightarrow> world \<Rightarrow> exn + world) option list
      \<Rightarrow> (string \<times> (string \<times> string list) list) list option
      \<Rightarrow> (string \<Rightarrow> string \<Rightarrow> string \<Rightarrow> property_map option) \<Rightarrow> world \<Rightarrow> exn + world" where
  "MctpDiscovery hs subtree getAll w =
     (case subtree of
        None \<Rightarrow> call_handlers hs [] w
      | Some tree \<Rightarrow>
          if tree = [] then Inr w
          else (let (mctpInfos, s) = fetch_objects getAll tree ([], socks w)
                in call_handlers hs mctpInfos (w\<lparr>socks := s\<rparr>)))"

section \<open>Lemmas\<close>

text \<open>An endpoint is added at the end of the list, or nothing changes.\<close>

lemma populateMctpInfo_cases:
  obtains (skip) "populateMctpInfo interfaces (infos, s) = (infos, s)"
  | (add) uuid type protocol address properties types eid medium net where
      "uuid \<noteq> []" "address \<noteq> []" "type \<noteq> 0"
      "scan_interfaces interfaces ([], 0, 0, []) = Inr (uuid, type, protocol, address)"
      "map_of interfaces mctpEndpointIntfName = Some properties"
      "map_of properties ''SupportedMessageTypes'' = Some (V_bytes types)" "messageType \<in> set types"
      "map_of properties ''EID'' = Some (V_uint64 eid)"
      "populateMctpInfo interfaces (infos, s) =
         (infos @ [(ucast eid, uuid, medium, ucast (net :: u64))],
          registerMctpEndpoint (ucast eid) type protocol address s)"
proof (cases "scan_interfaces interfaces ([], 0, 0, [])")
  case (Inl e)
  then show ?thesis by (intro skip) (simp add: populateMctpInfo_def)
next
  case (Inr l)
  obtain uuid type protocol address where l: "l = (uuid, type, protocol, address)"
    by (metis surj_pair)
  show ?thesis
  proof (cases "uuid = [] \<or> address = [] \<or> type = 0 \<or> map_of interfaces mctpEndpointIntfName = None")
    case True
    with Inr l show ?thesis by (intro skip) (auto simp: populateMctpInfo_def)
  next
    case False
    then obtain properties where p: "map_of interfaces mctpEndpointIntfName = Some properties" by auto
    show ?thesis
    proof (cases "\<exists>eid medium net. read_endpoint properties = Inr (Some (eid, medium, net))")
      case True
      then obtain eid medium net where r: "read_endpoint properties = Inr (Some (eid, medium, net))"
        by blast
      then obtain types where "map_of properties ''SupportedMessageTypes'' = Some (V_bytes types)"
        "messageType \<in> set types" "map_of properties ''EID'' = Some (V_uint64 eid)"
        by (auto simp: read_endpoint_def bindR_eq_Inr get_eq split: if_splits)
      with False Inr l p r show ?thesis
        by (intro add [where net = net and medium = medium]) (auto simp: populateMctpInfo_def)
    next
      case no: False
      with False Inr l p show ?thesis
        by (intro skip) (auto simp: populateMctpInfo_def split: sum.splits option.splits)
    qed
  qed
qed

lemma fetch_services_keeps:
  assumes "\<And>interfaces r. I r \<Longrightarrow> I (populateMctpInfo interfaces r)"
  shows "I r \<Longrightarrow> I (fetch_services getAll object svcs r)"
  by (induction getAll object svcs r rule: fetch_services.induct)
    (auto simp: fetch_endpoint_def assms split: option.splits)

lemma fetch_objects_keeps:
  assumes "\<And>interfaces r. I r \<Longrightarrow> I (populateMctpInfo interfaces r)"
  shows "I r \<Longrightarrow> I (fetch_objects getAll tree r)"
  by (induction getAll tree r rule: fetch_objects.induct)
    (auto intro: fetch_services_keeps [where I = I] assms)

text \<open>What discovery promises of its result: every endpoint it reports has socket parameters.\<close>

definition registered_all :: "mctp_info list \<times> sock_state \<Rightarrow> bool" where
  "registered_all r \<longleftrightarrow>
     (\<forall>(eid, uuid, medium, net)\<in>set (fst r). uuid \<noteq> [] \<and>
        (\<exists>type protocol address. eidToSockMap (snd r) eid = Some (type, protocol, address)
          \<and> type \<noteq> 0 \<and> address \<noteq> []))"

definition params_ok :: "sock_state \<Rightarrow> bool" where
  "params_ok s \<longleftrightarrow> (\<forall>(type, protocol, address)\<in>ran (eidToSockMap s). type \<noteq> 0 \<and> address \<noteq> [])"

lemma eidToSockMap_register:
  "eidToSockMap (registerMctpEndpoint eid type protocol address s) =
     (if eidToSockMap s eid = None then (eidToSockMap s)(eid \<mapsto> (type, protocol, address))
      else eidToSockMap s)"
  by (simp add: registerMctpEndpoint_def)

lemma populateMctpInfo_keeps:
  "registered_all r \<and> params_ok (snd r) \<Longrightarrow>
     registered_all (populateMctpInfo interfaces r) \<and> params_ok (snd (populateMctpInfo interfaces r))"
proof -
  obtain infos s where r: "r = (infos, s)" by (metis surj_pair)
  assume I: "registered_all r \<and> params_ok (snd r)"
  show ?thesis
  proof (cases rule: populateMctpInfo_cases [of interfaces infos s])
    case skip
    with I r show ?thesis by simp
  next
    case (add uuid type protocol address properties types eid medium net)
    let ?s = "registerMctpEndpoint (ucast eid) type protocol address s"
    have p: "params_ok ?s"
      using I r add(2,3) by (auto simp: params_ok_def eidToSockMap_register ran_def split: if_splits)
    moreover have "eidToSockMap ?s (ucast eid) \<noteq> None"
      by (simp add: eidToSockMap_register)
    then have "\<exists>t p a. eidToSockMap ?s (ucast eid) = Some (t, p, a) \<and> t \<noteq> 0 \<and> a \<noteq> []"
      using p by (fastforce simp: params_ok_def ran_def)
    moreover have "\<And>e t. eidToSockMap s e = Some t \<Longrightarrow> eidToSockMap ?s e = Some t"
      by (auto simp: eidToSockMap_register)
    ultimately show ?thesis using I r add(1,9) by (fastforce simp: registered_all_def)
  qed
qed

section \<open>Properties\<close>

text \<open>
  Whatever the object mapper and the endpoints answer, every endpoint that discovery reports
  has a UUID and socket parameters with an address and a non-zero type, so that opening its socket
  later never falls back to the empty entry that \<open>operator[]\<close> inserts.
\<close>

theorem discovered_have_parameters:
  assumes "params_ok s"
  shows "registered_all (fetch_objects getAll tree ([], s))
    \<and> registered_all (populateMctpInfo interfaces ([], s))"
proof
  have I: "registered_all ([], s) \<and> params_ok (snd ([] :: mctp_info list, s))"
    using assms by (simp add: registered_all_def)
  show "registered_all (fetch_objects getAll tree ([], s))"
    using fetch_objects_keeps [of "\<lambda>r. registered_all r \<and> params_ok (snd r)", OF populateMctpInfo_keeps I]
    by simp
  show "registered_all (populateMctpInfo interfaces ([], s))"
    using populateMctpInfo_keeps [OF I] by simp
qed

text \<open>An endpoint's interfaces as the demux daemon's object has them.\<close>

definition endpoint_interfaces ::
    "string \<Rightarrow> u64 \<Rightarrow> u64 \<Rightarrow> bytes \<Rightarrow> u64 \<Rightarrow> bytes \<Rightarrow> string \<Rightarrow> property_map \<Rightarrow> interface_map" where
  "endpoint_interfaces uuid type protocol address eid types medium extra =
     [(uuidInterface, [(''UUID'', V_string uuid)]),
      (unixSocketIntfName, [(''Address'', V_bytes address), (''Protocol'', V_uint64 protocol),
                            (''Type'', V_uint64 type)]),
      (mctpEndpointIntfName, (''EID'', V_uint64 eid) # (''MediumType'', V_string medium)
         # (''SupportedMessageTypes'', V_bytes types) # extra)]"

lemmas interface_names = uuidInterface_def unixSocketIntfName_def mctpEndpointIntfName_def

lemma populate_complete:
  "populateMctpInfo (endpoint_interfaces uuid type protocol address eid types medium
       [(''NetworkId'', V_uint64 net)]) (infos, s) =
     (if uuid \<noteq> [] \<and> address \<noteq> [] \<and> to_int type \<noteq> 0 \<and> 0x7F \<in> set types
      then (infos @ [(ucast eid, uuid, medium, ucast net)],
            registerMctpEndpoint (ucast eid) (to_int type) (to_int protocol) address s)
      else (infos, s))"
  by (simp add: populateMctpInfo_def endpoint_interfaces_def interface_names read_endpoint_def
      map_at_def messageType_def)

lemma params_ok_init: "params_ok sock_init"
  by (simp add: params_ok_def sock_init_def)

theorem discovered_have_parameters_witness:
  "registered_all (populateMctpInfo
     (endpoint_interfaces ''u'' 5 0 [0, 1] 9 [0x7F] ''m'' [(''NetworkId'', V_uint64 1)]) ([], sock_init))"
  using discovered_have_parameters [OF params_ok_init] by blast

text \<open>
  An endpoint with all its properties is reported exactly when it has a UUID, an address, a
  socket type that is not 0 as an \<open>int\<close>, and supports VDM messages (type \<open>0x7F\<close>); its endpoint and
  network numbers are then the low bytes of the advertised ones.
\<close>

theorem endpoint_reported:
  "populateMctpInfo (endpoint_interfaces uuid type protocol address eid types medium
       [(''NetworkId'', V_uint64 net)]) (infos, s) =
     (if uuid \<noteq> [] \<and> address \<noteq> [] \<and> to_int type \<noteq> 0 \<and> 0x7F \<in> set types
      then (infos @ [(ucast eid, uuid, medium, ucast net)],
            registerMctpEndpoint (ucast eid) (to_int type) (to_int protocol) address s)
      else (infos, s))"
  by (rule populate_complete)

text \<open>
  Only the presence of \<open>EID\<close>, \<open>SupportedMessageTypes\<close> and \<open>MediumType\<close> is checked. An endpoint
  that has these but no \<open>NetworkId\<close> is left out, whatever else it offers.
\<close>

theorem missing_network_id_drops_endpoint:
  assumes "map_of extra ''NetworkId'' = None"
  shows "populateMctpInfo (endpoint_interfaces uuid type protocol address eid types medium extra)
    (infos, s) = (infos, s)"
  using assms
  by (simp add: populateMctpInfo_def endpoint_interfaces_def interface_names read_endpoint_def
      map_at_def)

theorem missing_network_id_drops_endpoint_witness:
  "populateMctpInfo (endpoint_interfaces ''u'' 5 0 [0, 1] 9 [0x7F] ''m'' []) ([], sock_init)
     = ([], sock_init)"
  by (rule missing_network_id_drops_endpoint) simp

end
