(* ===== verification/ErotSystem.thy ===== *)
theory ErotSystem
  imports Discovery
begin

text \<open>
  The ERoT time manager as a whole: discovery, the manager, the requester and the sockets, driven by
  the event loop (\<open>oem/nvidia/main.cpp\<close>). A step is one callback of the loop: a readable socket, an
  expired identifier timer, a deferred removal, a retry timer, an added D-Bus object, a change of the
  system time. A callback that throws or runs into undefined behaviour ends the run, so steps are
  the callbacks that return. The invariants of the components are invariants of every reachable
  state.
\<close>

section \<open>The entry points keep the manager's invariant\<close>

lemma sift_up_length: "sift_up v h c = Inr c' \<Longrightarrow> length c' = length c"
proof (induction v h c rule: sift_up.induct)
  case (1 v h c)
  show ?case
  proof (cases "h = 0")
    case True
    with 1(2) show ?thesis by (subst (asm) sift_up.simps) auto
  next
    case False
    with 1(2) obtain lt where less: "info_less (c ! ((h - 1) div 2)) v = Inr lt"
      and rest: "(if lt then sift_up v ((h - 1) div 2) (c[h := c ! ((h - 1) div 2)])
        else Inr (c[h := v])) = Inr c'"
      by (subst (asm) sift_up.simps) (auto simp: bindR_eq_Inr)
    show ?thesis
    proof (cases lt)
      case True
      with rest 1(1) [OF False less True] show ?thesis by simp
    qed (use rest in auto)
  qed
qed

lemma pq_push_not_Nil: "pq_push v c = Inr c' \<Longrightarrow> c' \<noteq> []"
  by (auto simp: pq_push_def dest: sift_up_length)

lemma map_inv_alt:
  "map_inv m \<longleftrightarrow> distinct (map fst m) \<and> (\<forall>u q. map_of m u = Some q \<longrightarrow> q \<noteq> [])"
  unfolding map_inv_def by (metis (no_types, lifting) image_iff map_of_eq_Some_iff prod.collapse snd_conv)

lemma record_infos_inv: "record_infos P infos m = Inr m' \<Longrightarrow> map_inv m \<Longrightarrow> map_inv m'"
proof (induction P infos m rule: record_infos.induct)
  case (2 P eid uuid mediumType networkId infos m)
  show ?case
  proof (cases "map_of m uuid")
    case None
    with 2(3) obtain q where q: "pq_push \<lparr>info_eid = eid, info_medium = mediumType\<rparr> [] = Inr q"
      and rest: "record_infos P infos (hash_emplace (uuid_order P) uuid q m) = Inr m'"
      by (auto simp: bindR_eq_Inr)
    from 2(4) pq_push_not_Nil [OF q] have "map_inv (hash_emplace (uuid_order P) uuid q m)"
      by (auto simp: map_inv_alt map_of_hash_emplace)
    with 2(1) [OF None q rest] show ?thesis .
  next
    case (Some queue)
    with 2(3) obtain q where q: "pq_push \<lparr>info_eid = eid, info_medium = mediumType\<rparr> queue = Inr q"
      and rest: "record_infos P infos (AList.update uuid q m) = Inr m'"
      by (auto simp: bindR_eq_Inr)
    from 2(4) pq_push_not_Nil [OF q] have "map_inv (AList.update uuid q m)"
      by (auto simp: map_inv_alt update_conv' distinct_update)
    with 2(2) [OF Some q rest] show ?thesis .
  qed
qed simp

lemma handleMctpEndpointsTask_inv:
  assumes "handleMctpEndpointsTask P w = Inr (s, w')" and "core_inv w"
  shows "core_inv w' \<and> (\<forall>t a eid rest. s = Some (t, a, eid, rest) \<longrightarrow> a < next_awaitable w'
      \<and> (\<exists>infos q before. queuedMctpInfos w' = infos # q \<and> map fst infos = before @ eid # rest))
    \<and> setErotTimeHandle w' = setErotTimeHandle w \<and> erotTimeSyncLast w' = erotTimeSyncLast w"
proof -
  let ?w1 = "w\<lparr>log := log w @ [IO_get_elapsed]\<rparr>"
  have inv: "core_inv ?w1" using assms(2) core_inv_cong [of ?w1 w] by simp
  show ?thesis
  proof (cases "\<exists>t. map_option get_uint64 (elapsed_reply P (log w)) = Some (Inr t)")
    case True
    then obtain t where t: "elapsed_reply P (log w) = Some (V_uint64 t)" by (auto simp: get_eq)
    with assms(1) obtain s1 where loop: "task_loop P t ?w1 = Inr (s1, w')"
      and s: "s = map_option (\<lambda>x. (t, x)) s1"
      by (auto simp: handleMctpEndpointsTask_def bindR_eq_Inr)
    from task_loop_core_inv [OF loop inv] s show ?thesis by auto
  next
    case False
    with assms(1) have "s = None" "w' = ?w1"
      by (auto simp: handleMctpEndpointsTask_def Let_def split: option.splits sum.splits)
    with inv show ?thesis by simp
  qed
qed

lemma handleMctpEndpoints_inv [inv_intro]:
  assumes "handleMctpEndpoints P infos w = Inr w'" and "sys_inv w"
  shows "sys_inv w'"
proof -
  from assms(1) obtain m where m: "record_infos P infos (mctpInfoMap w) = Inr m"
    by (auto simp: handleMctpEndpoints_eq bindR_eq_Inr)
  let ?w1 = "w\<lparr>mctpInfoMap := m, queuedMctpInfos := queuedMctpInfos w @ [infos]\<rparr>"
  have r: "req_inv ?w1" using assms(2) req_inv_cong [of ?w1 w] by (simp add: sys_inv_req)
  have t: "token_inv ?w1"
    using assms(2) token_inv_cong [of ?w1 w] handler_at_cong [of ?w1 w]
    by (simp add: sys_inv_def core_inv_def)
  from assms(2) record_infos_inv [OF m] r t have core: "core_inv ?w1"
    by (simp add: sys_inv_def core_inv_def)
  show ?thesis
  proof (cases "\<exists>c a t cur eids. setErotTimeHandle w = Suspended c a t cur eids")
    case True
    with assms(1) m have w': "w' = ?w1" by (auto simp: handleMctpEndpoints_eq Let_def)
    have "chain_ok ?w1" using assms(2) True by (auto simp: sys_inv_def chain_ok_def)
    with core w' show ?thesis by (simp add: sys_inv_def)
  next
    case False
    let ?w2 = "?w1\<lparr>setErotTimeHandle := NoCoro\<rparr>"
    from False m assms(1) obtain s w3 where task: "handleMctpEndpointsTask P ?w2 = Inr (s, w3)"
      and s: "(case s of Some (t, x) \<Rightarrow> Inr (suspend EndpointsTask t x w3)
        | None \<Rightarrow> Inl UndefinedBehaviour) = Inr w'"
      by (cases "setErotTimeHandle w") (auto simp: handleMctpEndpoints_eq Let_def bindR_eq_Inr)
    have "core_inv ?w2" using core core_inv_cong [of ?w2 ?w1] by simp
    note T = handleMctpEndpointsTask_inv [OF task this]
    from s obtain t a eid rest where "s = Some (t, a, eid, rest)"
      "w' = suspend EndpointsTask t (a, eid, rest) w3"
      by (auto split: option.splits)
    with T show ?thesis by (auto intro!: suspend_sys_inv)
  qed
qed

lemma handleTimeChange_inv [inv_intro]:
  assumes "handleTimeChange P result now elapsed w = Inr w'" and "sys_inv w"
  shows "sys_inv w'"
proof (cases "w' = w")
  case True
  with assms(2) show ?thesis by simp
next
  case False
  with assms(1) obtain eids s w1 where
    set: "setTimeOnErots P (word_of_int elapsed) eids w = Inr (s, w1)" and
    w': "w' = (case s of Some x \<Rightarrow> suspend TimeChange (word_of_int elapsed) x w1
        | None \<Rightarrow> w1\<lparr>setErotTimeHandle := NoCoro\<rparr>)\<lparr>erotTimeSyncLast := now\<rparr>"
    by (auto simp: handleTimeChange_def bindR_eq_Inr Let_def split: if_splits coro.splits)
  from assms(2) have "core_inv w" by (simp add: sys_inv_def)
  note S = setTimeOnErots_core_inv [OF set this]
  have last: "sys_inv (v\<lparr>erotTimeSyncLast := now\<rparr>)" if "sys_inv v" for v
    using that sys_inv_cong [of "v\<lparr>erotTimeSyncLast := now\<rparr>" v] by simp
  show ?thesis
  proof (cases s)
    case None
    with S w' show ?thesis by (auto intro!: last idle_sys_inv)
  next
    case (Some x)
    with S w' show ?thesis by (cases x) (auto intro!: last suspend_sys_inv)
  qed
qed

lemma sys_inv_log: "sys_inv w \<Longrightarrow> sys_inv (w\<lparr>log := l\<rparr>)"
  using sys_inv_cong [of "w\<lparr>log := l\<rparr>" w] by simp

lemma sys_inv_socks: "sys_inv w \<Longrightarrow> sys_inv (w\<lparr>socks := s\<rparr>)"
  using sys_inv_cong [of "w\<lparr>socks := s\<rparr>" w] by simp

lemma handleReceivedMsg_inv [inv_intro]:
  assumes "handleReceivedMsg P (erot_invoke P) ev w = Inr w'" and "sys_inv w"
  shows "sys_inv w'"
  by (rule erot.handleReceivedMsg_keeps [OF assms sys_inv_log [OF assms(2)]])

lemma handler_at_retry_tick: "handler_at (retry_tick P key w) = handler_at w"
proof (cases "map_of (handlers w) key")
  case None
  then show ?thesis by (simp add: retry_tick_def)
next
  case (Some e)
  obtain rq l where "RetryTimer_callback P (e_request e) (log w) = (rq, l)" by (metis surj_pair)
  with Some have "retry_tick P key w = upd_entry key (\<lambda>e. e\<lparr>e_request := rq\<rparr>) (w\<lparr>log := l\<rparr>)"
    by (simp add: retry_tick_def)
  then have "handler_at (retry_tick P key w) = handler_at (w\<lparr>log := l\<rparr>)"
    by (simp add: handler_at_upd)
  also have "\<dots> = handler_at w" by (rule handler_at_cong) simp
  finally show ?thesis .
qed

lemma retry_tick_sys_inv [inv_intro]:
  assumes "sys_inv w" shows "sys_inv (retry_tick P key w)"
proof (rule requester_op_inv [OF assms retry_tick_inv [OF sys_inv_req [OF assms]]])
  show "requester.more (retry_tick P key w) = requester.more w"
    by (auto simp: retry_tick_def split: option.splits prod.splits)
qed (simp add: handler_at_retry_tick)

section \<open>The transition system\<close>

datatype event =
    Received rx_event
  | Expired RequestKey
  | Deferred RequestKey
  | Retried RequestKey
  | Added interface_map
  | TimeChanged int int int

abbreviation erot_handlers :: "platform \<Rightarrow> (mctp_info list \<Rightarrow> world \<Rightarrow> exn + world) option list" where
  "erot_handlers P \<equiv> [Some (handleMctpEndpoints P)]"

inductive erot_step :: "platform \<Rightarrow> world \<Rightarrow> event \<Rightarrow> world \<Rightarrow> bool" for P where
  received: "handleReceivedMsg P (erot_invoke P) ev w = Inr w' \<Longrightarrow> erot_step P w (Received ev) w'"
| expired: "map_of (handlers w) key = Some e \<Longrightarrow> e_timer e \<Longrightarrow>
    instanceIdExpiryCallBack (erot_invoke P) key w = Inr w' \<Longrightarrow> erot_step P w (Expired key) w'"
| deferred: "key \<in> set (removeRequestContainer w) \<Longrightarrow> removeRequestEntry P key w = Inr w' \<Longrightarrow>
    erot_step P w (Deferred key) w'"
| retried: "map_of (handlers w) key = Some e \<Longrightarrow> retry_timer (e_request e) \<Longrightarrow>
    w' = retry_tick P key w \<Longrightarrow> erot_step P w (Retried key) w'"
| added: "discoverEndpoints (erot_handlers P) interfaces w = Inr w' \<Longrightarrow>
    erot_step P w (Added interfaces) w'"
| time_changed: "handleTimeChange P result now elapsed w = Inr w' \<Longrightarrow>
    erot_step P w (TimeChanged result now elapsed) w'"

inductive_simps erot_step_simps:
  "erot_step P w (Received ev) w'" "erot_step P w (Expired key) w'" "erot_step P w (Deferred key) w'"
  "erot_step P w (Retried key) w'" "erot_step P w (Added interfaces) w'"
  "erot_step P w (TimeChanged result now elapsed) w'"

definition world_init :: world where
  "world_init = \<lparr>handlers = [], removeRequestContainer = [], ids = Map.empty, socks = sock_init,
     log = [], mctpInfoMap = [], queuedMctpInfos = [], setErotTimeHandle = NoCoro,
     erotTimeSyncLast = 0, next_awaitable = 0\<rparr>"

inductive erot_reachable :: "platform \<Rightarrow> world \<Rightarrow> bool" for P where
  start: "MctpDiscovery (erot_handlers P) subtree getAll world_init = Inr w \<Longrightarrow> erot_reachable P w"
| step: "erot_reachable P w \<Longrightarrow> erot_step P w ev w' \<Longrightarrow> erot_reachable P w'"

lemma discoverEndpoints_inv:
  assumes "discoverEndpoints (erot_handlers P) interfaces w = Inr w'" and "sys_inv w"
  shows "sys_inv w'"
  using assms
  by (auto simp: discoverEndpoints_def bindR_eq_Inr intro: handleMctpEndpoints_inv sys_inv_socks
      split: prod.splits)

lemma erot_step_inv: "erot_step P w ev w' \<Longrightarrow> sys_inv w \<Longrightarrow> sys_inv w'"
  by (induction rule: erot_step.induct)
    (auto intro: handleReceivedMsg_inv erot.instanceIdExpiryCallBack_keeps erot.removeRequestEntry_keeps
      retry_tick_sys_inv discoverEndpoints_inv handleTimeChange_inv)

lemma world_init_inv: "sys_inv world_init"
  by (simp add: world_init_def sys_inv_def core_inv_def req_inv_def keys_def running_def
      token_inv_def handler_at_def map_inv_def chain_ok_def)

lemma reachable_sys_inv: "erot_reachable P w \<Longrightarrow> sys_inv w"
proof (induction rule: erot_reachable.induct)
  case (start subtree getAll w)
  then show ?case using world_init_inv
    by (auto simp: MctpDiscovery_def bindR_eq_Inr intro: handleMctpEndpoints_inv sys_inv_socks
        split: option.splits if_splits prod.splits)
next
  case (step w ev w')
  then show ?case by (blast intro: erot_step_inv)
qed

end
