(* ===== verification/ErotProperties.thy ===== *)
theory ErotProperties
  imports ErotSystem
begin

text \<open>
  Properties of the ERoT time manager and of the transition system: what is sent and reported for
  one ERoT, in which order a list is served, what the entry points do while a chain is suspended,
  and the executions the coroutine code does not survive.
\<close>

section \<open>A sample run\<close>

text \<open>An added endpoint 9 of ERoT \<open>u\<close>, reached over PCIe.\<close>

definition sample_interfaces :: interface_map where
  "sample_interfaces = endpoint_interfaces ''u'' 5 0 [0, 0x6D] 9 [0x7F] (media_prefix @ ''PCIe'')
     [(''NetworkId'', V_uint64 1)]"

definition sample_info :: mctp_info where
  "sample_info = (9, ''u'', media_prefix @ ''PCIe'', 1)"

definition sample_entry :: "nat entry" where
  "sample_entry = \<lparr>e_request = \<lparr>rq_fd = 7, rq_eid = 9, requestMsg = addExtTimestamp_request 0 1000,
     numRetries = 3, retry_timer = True\<rparr>, e_handler = 0, e_timer = True\<rparr>"

text \<open>The state after its discovery: the request is sent, the chain waits.\<close>

definition sample_waiting :: world where
  "sample_waiting = world_init
     \<lparr>handlers := [(sample_key, sample_entry)], ids := [9 \<mapsto> 1],
      socks := sock_init\<lparr>eidToFd := [9 \<mapsto> 7], eidToSockMap := [9 \<mapsto> (5, 0, [0, 0x6D])],
        socketInfoMap := [([0, 0x6D], 7)]\<rparr>,
      log := [IO_get_elapsed, IO_socket_unix 5 0, IO_connect 7 [0, 0x6D], IO_write 7 [0x7F],
        IO_sendmsg 7 ([8, 9, 0x7F] @ addExtTimestamp_request 0 1000), IO_retry_timer_start,
        IO_expiry_timer_start],
      mctpInfoMap := [(''u'', [\<lparr>info_eid = 9, info_medium = media_prefix @ ''PCIe''\<rparr>])],
      queuedMctpInfos := [[sample_info]],
      setErotTimeHandle := Suspended EndpointsTask 0 1000 9 [], next_awaitable := 1\<rparr>"

lemmas run_defs = world_init_def sock_init_def kind_platform_def syscall_def Let_def

lemma sample_getInstanceId: "getInstanceId 9 Map.empty = (Inr 0, [9 \<mapsto> 1])"
  by (simp add: getInstanceId_def ids_at_def InstanceId_next_def next_scan.simps maxInstanceIds_def
      set_bit_eq)

lemma sample_record:
  "record_infos P [sample_info] [] =
     Inr [(''u'', [\<lparr>info_eid = 9, info_medium = media_prefix @ ''PCIe''\<rparr>])]"
  by (simp add: sample_info_def pq_push_def sift_up.simps hash_emplace_def)

lemma sample_populate:
  "populateMctpInfo sample_interfaces ([], sock_init) =
     ([sample_info], sock_init\<lparr>eidToSockMap := [9 \<mapsto> (5, 0, [0, 0x6D])]\<rparr>)"
  by (simp add: sample_interfaces_def populate_complete to_int_def sample_info_def
      registerMctpEndpoint_def sock_init_def)

lemma sample_discovery:
  "discoverEndpoints (erot_handlers (kind_platform DaemonRequest)) sample_interfaces world_init
     = Inr sample_waiting"
  unfolding discoverEndpoints_def
  apply (simp add: world_init_def sample_populate)
  apply (simp add: handleMctpEndpoints_eq sample_record)
  apply (simp add: handleMctpEndpointsTask_def run_defs)
  apply (subst task_loop.simps)
  apply (simp add: sample_info_def setTimeOnErots_def sock_params_def initSocket_def
      Daemon_initSocket_def run_defs sun_path_size_def registerEndpoint_def setTimeOnErot_start_def
      sample_getInstanceId await_suspend_def request_key_built registerRequest_def getSocket_def
      hash_emplace_def runRegisteredRequest_def run_entry_def RetryTimer_start_def request_send_def
      send_io_def upd_entry_def numCommandRetries_def suspend_def messageType_def)
  apply (simp add: sample_waiting_def sample_entry_def run_defs sample_info_def)
  done

lemma sample_reachable: "erot_reachable (kind_platform DaemonRequest) sample_waiting"
proof (rule erot_reachable.step)
  show "erot_reachable (kind_platform DaemonRequest) world_init"
    by (rule erot_reachable.start [of _ "Some []" "\<lambda>svc obj intf. None"]) (simp add: MctpDiscovery_def)
  show "erot_step (kind_platform DaemonRequest) world_init (Added sample_interfaces) sample_waiting"
    by (rule erot_step.added) (rule sample_discovery)
qed

section \<open>Invariants of every reachable state\<close>

text \<open>
  C1: in every state the daemon can reach, each endpoint has at most one running request, every
  registered response handler belongs to one entry only, all identifiers in the table fit the pool,
  and a chain suspended in the discovery task is serving the list at the front of the queue.
\<close>

theorem reachable_invariant:
  assumes "erot_reachable P w"
  shows "(\<forall>eid. card (running w eid) \<le> 1)
    \<and> inj_on (\<lambda>k. handler_at w k) (keys w)
    \<and> (\<forall>k\<in>keys w. unat (key_instanceId k) < 32)
    \<and> (case setErotTimeHandle w of
         Suspended EndpointsTask a t eid eids \<Rightarrow>
           \<exists>infos q before. queuedMctpInfos w = infos # q \<and> map fst infos = before @ eid # eids
       | _ \<Rightarrow> True)"
proof (intro conjI)
  note I = reachable_sys_inv [OF assms]
  note R = sys_inv_req [OF I, unfolded req_inv_def]
  show "\<forall>eid. card (running w eid) \<le> 1"
  proof
    fix eid
    have "finite (running w eid)"
      by (rule finite_subset [OF running_subset_keys]) (simp add: keys_def)
    with R show "card (running w eid) \<le> 1" by (simp add: card_le_Suc0_iff_eq)
  qed
  show "inj_on (\<lambda>k. handler_at w k) (keys w)"
  proof (rule inj_onI)
    fix k k' assume k: "k \<in> keys w" and eq: "handler_at w k = handler_at w k'"
    from k obtain a where "handler_at w k = Some a" by (auto simp: keys_map_of handler_at_def)
    moreover from this eq have "handler_at w k' = Some a" by simp
    moreover note I
    ultimately show "k = k'" unfolding sys_inv_def core_inv_def token_inv_def by blast
  qed
  show "\<forall>k\<in>keys w. unat (key_instanceId k) < 32" using R by (simp add: maxInstanceIds_def)
  show "case setErotTimeHandle w of
         Suspended EndpointsTask a t eid eids \<Rightarrow>
           \<exists>infos q before. queuedMctpInfos w = infos # q \<and> map fst infos = before @ eid # eids
       | _ \<Rightarrow> True"
    using I by (auto simp: sys_inv_def chain_ok_def split: coro.splits caller.splits)
qed

theorem reachable_invariant_witness:
  "card (running sample_waiting 9) \<le> 1
   \<and> (\<exists>infos q before. queuedMctpInfos sample_waiting = infos # q \<and> map fst infos = before @ [9])"
  using reachable_invariant [OF sample_reachable] by (simp add: sample_waiting_def)

interpretation erot_last: client_contract "erot_invoke P" "\<lambda>w. erotTimeSyncLast w = n" for P n
proof
  fix rh eid r and w w' :: world
  assume inv: "erot_invoke P rh eid r w = Inr w'" and n: "erotTimeSyncLast w = n"
  from inv obtain c a t cur eids where h: "setErotTimeHandle w = Suspended c a t cur eids"
    by (auto simp: erot_invoke_def split: coro.splits)
  with inv obtain rc s w1 where
    res: "setTimeOnErots_resume P c t cur eids rc w = Inr (s, w1)" and
    after: "after_loop P c t (s, w1) = Inr w'"
    by (auto simp: erot_invoke_def bindR_eq_Inr split: if_splits)
  from res have "erots_loop P t eids (report P cur rc w) = Inr (s, w1)"
    by (simp add: setTimeOnErots_resume_eq split: if_splits)
  from erots_loop_frame [OF this] report_frame(6) [of w P cur rc] n
  have "erotTimeSyncLast w1 = n" by (simp add: same_queue_def)
  with after show "erotTimeSyncLast w' = n"
    by (auto simp: after_loop_def suspend_def bindR_eq_Inr split: option.splits caller.splits
        dest!: task_loop_last)
qed (drule world_more(4), simp)

lemma handleMctpEndpoints_last:
  "handleMctpEndpoints P infos w = Inr w' \<Longrightarrow> erotTimeSyncLast w' = erotTimeSyncLast w"
  by (cases "setErotTimeHandle w")
    (auto simp: handleMctpEndpoints_eq handleMctpEndpointsTask_def bindR_eq_Inr Let_def suspend_def
      split: option.splits sum.splits dest!: task_loop_last)

text \<open>No other step moves the time of the last synchronisation.\<close>

lemma step_last:
  assumes "erot_step P w ev w'" and "\<forall>r now e. ev = TimeChanged r now e \<longrightarrow> w' = w"
  shows "erotTimeSyncLast w' = erotTimeSyncLast w"
  using assms(1)
proof (cases rule: erot_step.cases)
  case (received ev)
  with erot_last.received_keeps [OF _ refl] show ?thesis by blast
next
  case (expired key e)
  with erot_last.instanceIdExpiryCallBack_keeps [OF _ refl] show ?thesis by blast
next
  case (deferred key)
  with erot_last.removeRequestEntry_keeps [OF _ refl] show ?thesis by blast
next
  case (retried key e)
  with erot_last.retry_tick_keeps [OF refl] show ?thesis by blast
next
  case (added interfaces)
  then show ?thesis
    by (auto simp: discoverEndpoints_def bindR_eq_Inr split: prod.splits
        dest!: handleMctpEndpoints_last)
next
  case (time_changed result now elapsed)
  with assms(2) show ?thesis by blast
qed

text \<open>A change of the system time that has any effect is a synchronisation.\<close>

lemma sync_step:
  assumes "erot_step P w (TimeChanged result now elapsed) w'" and "w' \<noteq> w"
  shows "result = - ECANCELED \<and> (setErotTimeHandle w = NoCoro \<or> setErotTimeHandle w = Finished)
    \<and> sync_interval P \<le> duration_cast_down 1000000000 (now - erotTimeSyncLast w)
    \<and> erotTimeSyncLast w' = now"
  using assms
  by (auto simp: erot_step_simps handleTimeChange_def bindR_eq_Inr Let_def split: if_splits coro.splits)

text \<open>A run of the event loop, with the times of the synchronisations in it.\<close>

inductive sync_run :: "platform \<Rightarrow> world \<Rightarrow> int list \<Rightarrow> world \<Rightarrow> bool" for P where
  here: "sync_run P w [] w"
| other: "erot_step P w ev w1 \<Longrightarrow> \<forall>r now e. ev = TimeChanged r now e \<longrightarrow> w1 = w \<Longrightarrow>
    sync_run P w1 ts w' \<Longrightarrow> sync_run P w ts w'"
| sync: "erot_step P w (TimeChanged r now e) w1 \<Longrightarrow> w1 \<noteq> w \<Longrightarrow>
    sync_run P w1 ts w' \<Longrightarrow> sync_run P w (now # ts) w'"

text \<open>The same state with no chain left, ready for a change of the system time.\<close>

definition sample_idle :: world where
  "sample_idle = sample_waiting\<lparr>handlers := [], ids := Map.empty, queuedMctpInfos := [],
     setErotTimeHandle := Finished\<rparr>"

definition sample_timed :: world where
  "sample_timed = sample_idle
     \<lparr>handlers := [(sample_key, sample_entry\<lparr>e_handler := 1,
        e_request := (e_request sample_entry)\<lparr>requestMsg := addExtTimestamp_request 0 2000\<rparr>\<rparr>)],
      ids := [9 \<mapsto> 1],
      log := log sample_idle @ [IO_sendmsg 7 ([8, 9, 0x7F] @ addExtTimestamp_request 0 2000),
        IO_retry_timer_start, IO_expiry_timer_start],
      setErotTimeHandle := Suspended TimeChange 1 2000 9 [], erotTimeSyncLast := 60000000000,
      next_awaitable := 2\<rparr>"

lemma sample_time_change:
  "handleTimeChange (kind_platform DaemonRequest) (- ECANCELED) 60000000000 2000 sample_idle
     = Inr sample_timed"
  apply (simp add: handleTimeChange_def duration_cast_down_def sample_idle_def sample_waiting_def run_defs pq_top_def)
  apply (simp add: setTimeOnErots_def sock_params_def run_defs registerEndpoint_def
      setTimeOnErot_start_def
      sample_getInstanceId await_suspend_def request_key_built registerRequest_def getSocket_def
      hash_emplace_def runRegisteredRequest_def run_entry_def RetryTimer_start_def request_send_def
      send_io_def upd_entry_def numCommandRetries_def suspend_def messageType_def)
  apply (simp add: sample_timed_def sample_idle_def sample_waiting_def sample_entry_def run_defs)
  done

text \<open>
  C18: time synchronisations are rate limited. In any run of the event loop, a change of the system time
  that has any effect at all - on the sockets, the requests, the identifiers, the log or the chain of
  coroutines - comes at least \<open>EROT_TIME_SYNC_INTERVAL\<close> whole seconds after the one before it, the
  first one that long after the last synchronisation before the run; and it has an effect only when
  \<open>read\<close> has failed with \<open>ECANCELED\<close> and no chain is in progress.
\<close>

theorem sync_rate_limited:
  assumes "sync_run P w ts w'"
  shows "successively (\<lambda>last now. sync_interval P \<le> duration_cast_down 1000000000 (now - last))
      (erotTimeSyncLast w # ts)
    \<and> (\<forall>r now e w2. handleTimeChange P r now e w' = Inr w2 \<and> w2 \<noteq> w' \<longrightarrow>
          r = - ECANCELED \<and> (setErotTimeHandle w' = NoCoro \<or> setErotTimeHandle w' = Finished))"
proof
  show "successively (\<lambda>last now. sync_interval P \<le> duration_cast_down 1000000000 (now - last))
      (erotTimeSyncLast w # ts)" using assms
  proof (induction rule: sync_run.induct)
    case (other w ev w1 ts w')
    then show ?case using step_last [OF other.hyps(1,2)] by simp
  next
    case (sync w r now e w1 ts w')
    then show ?case using sync_step [OF sync.hyps(1,2)] by simp
  qed simp
  show "\<forall>r now e w2. handleTimeChange P r now e w' = Inr w2 \<and> w2 \<noteq> w' \<longrightarrow>
      r = - ECANCELED \<and> (setErotTimeHandle w' = NoCoro \<or> setErotTimeHandle w' = Finished)"
    using sync_step [OF erot_step.time_changed] by blast
qed

theorem sync_rate_limited_witness:
  "sync_run (kind_platform DaemonRequest) sample_idle [60000000000] sample_timed
   \<and> 60 \<le> duration_cast_down 1000000000 (60000000000 - erotTimeSyncLast sample_idle)"
proof -
  have st: "erot_step (kind_platform DaemonRequest) sample_idle
      (TimeChanged (- ECANCELED) 60000000000 2000) sample_timed"
    by (rule erot_step.time_changed) (rule sample_time_change)
  have ne: "sample_timed \<noteq> sample_idle"
    by (rule notI, drule arg_cong [where f = erotTimeSyncLast])
      (simp add: sample_timed_def sample_idle_def sample_waiting_def world_init_def)
  have run: "sync_run (kind_platform DaemonRequest) sample_idle [60000000000] sample_timed"
    by (rule sync_run.sync [OF st ne sync_run.here])
  from sync_rate_limited [OF run] run show ?thesis by (simp add: kind_platform_def)
qed

section \<open>One ERoT\<close>

text \<open>
  C26: the result of setting the time on one ERoT. No response, or one without payload, is
  \<open>ErrGeneral\<close>; a payload of one byte is itself the result; any longer payload is
  \<open>ErrInvalidLength\<close>. So the result is 0 exactly for a one-byte payload 0.
\<close>

theorem timestamp_result:
  assumes "length payload < 2 ^ 64"
  shows "setTimeOnErot_finish None = Inr (cc_val ErrGeneral)
    \<and> setTimeOnErot_finish (Some (header_bytes h @ payload, word_of_nat (length payload))) =
        Inr (case payload of [] \<Rightarrow> cc_val ErrGeneral | [rc] \<Rightarrow> rc | _ \<Rightarrow> cc_val ErrInvalidLength)
    \<and> (setTimeOnErot_finish (Some (header_bytes h @ payload, word_of_nat (length payload))) = Inr 0)
        = (payload = [0])"
proof -
  have len: "(word_of_nat (length payload) :: u64) = word_of_nat n \<longleftrightarrow> length payload = n"
    if "n < 2 ^ 64" for n
    using assms that by (simp add: word_of_nat_eq_iff take_bit_nat_eq_self_iff take_bit_nat_eq_self)
  have l0: "(word_of_nat (length payload) :: u64) = 0 \<longleftrightarrow> payload = []"
    using len [of 0] by simp
  have l1: "(word_of_nat (length payload) :: u64) = 1 \<longleftrightarrow> length payload = 1"
    using len [of 1] by simp
  have hd: "read_payload0 (header_bytes h @ b # bs) = Inr b" for b bs
    by (simp add: read_payload0_def read_byte_def nth_append)
  have "setTimeOnErot_finish (Some (header_bytes h @ payload, word_of_nat (length payload))) =
      Inr (case payload of [] \<Rightarrow> cc_val ErrGeneral | [rc] \<Rightarrow> rc | _ \<Rightarrow> cc_val ErrInvalidLength)"
    using l0 l1
    by (auto simp: setTimeOnErot_finish_def awaitable_rc_def addExtTimestampRespBytes_def hd
        split: list.splits)
  then show ?thesis
    by (auto simp: setTimeOnErot_finish_def awaitable_rc_def split: list.splits)
qed

theorem timestamp_result_witness:
  "setTimeOnErot_finish (Some (header_bytes (addExtTimestamp_header 0) @ [4],
     word_of_nat (length [4 :: u8]))) = Inr 4"
  using timestamp_result [of "[4]" "addExtTimestamp_header 0"] by simp

text \<open>
  When all 32 identifiers of an endpoint are in use, the time is not set on it and nobody is
  told: \<open>TooManyResources\<close> ends in the empty \<open>unhandled_exception\<close>, the result is the promise's
  initial 0, which stands for success, nothing is sent and no error is logged.
\<close>

theorem exhausted_identifiers_count_as_success:
  assumes "card (held (ids w) eid) = 32"
  shows "\<exists>m. setTimeOnErot_start P eid t w = Inr (Returned 0, w\<lparr>ids := m\<rparr>)
    \<and> erots_loop P t (eid # eids) w = erots_loop P t eids (w\<lparr>ids := m\<rparr>)"
proof -
  from iid.alloc_at_cap [of "ids w" eid] assms obtain e m where
    "getInstanceId eid (ids w) = (Inl e, m)"
    by (auto simp: maxInstanceIds_def)
  then show ?thesis
    by (intro exI [of _ m]) (simp add: setTimeOnErot_start_def report_def)
qed

lemma held_full: "held [eid \<mapsto> - 1] eid = {i. unat i < maxInstanceIds}"
  by (auto simp: held_def ids_at_def maxInstanceIds_def)

theorem exhausted_identifiers_count_as_success_witness:
  "\<exists>m. setTimeOnErot_start (kind_platform DaemonRequest) 9 1000 (world_init\<lparr>ids := [9 \<mapsto> - 1]\<rparr>)
     = Inr (Returned 0, world_init\<lparr>ids := m\<rparr>)"
proof -
  have "card (held (ids (world_init\<lparr>ids := [9 \<mapsto> - 1]\<rparr>)) 9) = 32"
    using card_all_ids by (simp add: held_full maxInstanceIds_def)
  from exhausted_identifiers_count_as_success [OF this, of "kind_platform DaemonRequest" 1000]
  show ?thesis by auto
qed

text \<open>
  Which failures are logged. Every failure asks PLDM for the ERoT's name. Completion codes 1, 2
  and 4 create one log entry, whose arguments are the name, or the code when no name is found, and
  the code's message; code 5 drops the ERoT with that endpoint from the map; every other code
  leaves no trace. In particular a request that could not be sent, whose code is the low byte of
  \<open>-errno\<close>, is never logged.
\<close>

theorem error_log_by_code:
  "log (createErrorLog P eid rc w) = log w @ IO_get_managed_objects #
      (if rc \<in> {1, 2, 4}
       then [IO_create_log
         ((case managed_objects P (log w) of
             None \<Rightarrow> to_string (unat rc)
           | Some objects \<Rightarrow>
               (let name = erot_name P (find_uuid eid (mctpInfoMap w) []) objects
                in if name = [] then to_string (unat rc) else name))
          @ '','' @ fst (the (error_text rc))) (snd (the (error_text rc)))]
       else [])
   \<and> mctpInfoMap (createErrorLog P eid rc w) =
      (if rc = 5 then AList.delete (find_uuid eid (mctpInfoMap w) []) (mctpInfoMap w)
       else mctpInfoMap w)
   \<and> (\<lambda>errno. word_of_int (- errno) :: u8) ` {1..133} \<inter> {1, 2, 4, 5} = {}"
proof (intro conjI)
  have none: "error_text rc = None \<longleftrightarrow> rc \<notin> {1, 2, 4}" by (simp add: error_text_def)
  show "log (createErrorLog P eid rc w) = log w @ IO_get_managed_objects #
      (if rc \<in> {1, 2, 4}
       then [IO_create_log
         ((case managed_objects P (log w) of
             None \<Rightarrow> to_string (unat rc)
           | Some objects \<Rightarrow>
               (let name = erot_name P (find_uuid eid (mctpInfoMap w) []) objects
                in if name = [] then to_string (unat rc) else name))
          @ '','' @ fst (the (error_text rc))) (snd (the (error_text rc)))]
       else [])"
  proof (cases "error_text rc")
    case None
    then show ?thesis using none by (simp add: createErrorLog_def Let_def)
  next
    case (Some p)
    then have "rc \<in> {1, 2, 4}" using none by simp
    then show ?thesis
      unfolding if_P [OF \<open>rc \<in> {1, 2, 4}\<close>]
      by (cases p; cases "managed_objects P (log w)") (simp_all add: createErrorLog_def Let_def Some)
  qed
  show "mctpInfoMap (createErrorLog P eid rc w) =
      (if rc = 5 then AList.delete (find_uuid eid (mctpInfoMap w) []) (mctpInfoMap w)
       else mctpInfoMap w)"
    using none by (auto simp: createErrorLog_def Let_def error_text_def split: option.splits)
  have u: "uint (word_of_int (- errno) :: u8) = 256 - errno" if "errno \<in> {1..133}" for errno
  proof -
    have "uint (word_of_int (- errno) :: u8) = (- errno) mod 256"
      by (simp only: uint_word_of_int) simp
    also have "\<dots> = 256 - errno" using that by (simp add: zmod_zminus1_eq_if)
    finally show ?thesis .
  qed
  show "(\<lambda>errno. word_of_int (- errno) :: u8) ` {1..133} \<inter> {1, 2, 4, 5} = {}"
  proof (rule Int_emptyI)
    fix x :: u8 assume x: "x \<in> (\<lambda>errno. word_of_int (- errno)) ` {1..133}" and "x \<in> {1, 2, 4, 5}"
    then have "uint x \<le> 5" by auto
    from x show False
    proof (rule imageE)
      fix errno :: int assume e: "x = word_of_int (- errno)" "errno \<in> {1..133}"
      from u [OF e(2)] have "uint x = 256 - errno" unfolding e(1) .
      with e(2) \<open>uint x \<le> 5\<close> show False by simp
    qed
  qed
qed

section \<open>Executions the coroutines do not survive\<close>

lemma handleResponse_stale:
  assumes "map_of (handlers w) key = Some e" and "unat (key_instanceId key) < maxInstanceIds"
    and "setErotTimeHandle w = Suspended c a t cur eids" and "e_handler e \<noteq> a"
  shows "handleResponse P (erot_invoke P) key msg len w = Inl UndefinedBehaviour"
    and "instanceIdExpiryCallBack (erot_invoke P) key w = Inl UndefinedBehaviour"
proof -
  have h: "setErotTimeHandle (upd_entry key stop_entry w) = Suspended c a t cur eids"
    using assms(3) by (simp add: upd_entry_def)
  from free_id_ok [OF assms(2), of "key_eid key" "upd_entry key stop_entry w"] obtain w1 where
    f: "free_id (key_eid key) (key_instanceId key) (upd_entry key stop_entry w) = Inr w1" by blast
  with h have "setErotTimeHandle w1 = Suspended c a t cur eids"
    by (auto dest: handlers_free_id)
  with f assms(1,4) show "handleResponse P (erot_invoke P) key msg len w = Inl UndefinedBehaviour"
    by (simp add: handleResponse_def erot_invoke_def)
  from h assms(1,4) show "instanceIdExpiryCallBack (erot_invoke P) key w = Inl UndefinedBehaviour"
    by (simp add: instanceIdExpiryCallBack_def erot_invoke_def)
qed

text \<open>The registration behind \<open>setTimeOnErot\<close>.\<close>

lemma start_register:
  assumes "setTimeOnErot_start P eid t w = Inr (r, w')" and "getInstanceId eid (ids w) = (Inr i, m)"
  shows "\<exists>rc. registerRequest P eid i 1 0x13 (addExtTimestamp_request i t) (next_awaitable w)
      (w\<lparr>ids := m, next_awaitable := Suc (next_awaitable w)\<rparr>) = Inr (rc, w')
    \<and> r = (if (word_of_int rc :: u8) \<noteq> 0 then Returned (word_of_int rc) else Awaits (next_awaitable w))"
proof -
  have "unat i < 32" using getInstanceId_Inr(1) [OF assms(2)] by (simp add: maxInstanceIds_def)
  with assms show ?thesis
    by (auto simp: setTimeOnErot_start_def await_suspend_def request_key_built Let_def bindR_eq_Inr
        split: if_splits)
qed

text \<open>
  C9: after one failed send to an endpoint, the next attempt to set its time ends in a use after
  free. The failed request stays in the table under the identifier it gives back; the next attempt
  gets that identifier, its own registration is dropped, and the entry that is sent belongs to an
  awaitable that no longer exists. Whether the ERoT answers or the identifier expires, the
  destroyed awaitable is called.
\<close>

theorem failed_send_then_use_after_free:
  assumes "sys_inv w" and "eid \<notin> key_eid ` keys w"
    and "setTimeOnErot_start P eid t w = Inr (Returned rc, w1)" and "rc \<noteq> 0"
    and "setTimeOnErot_start P eid t' w1 = Inr (Awaits a, w2)"
  shows "\<exists>i. RequestKey eid i 1 0x13 \<in> keys w2
    \<and> handleResponse P (erot_invoke P) (RequestKey eid i 1 0x13) msg len (suspend c t' (a, eid, eids) w2)
        = Inl UndefinedBehaviour
    \<and> instanceIdExpiryCallBack (erot_invoke P) (RequestKey eid i 1 0x13)
        (suspend c t' (a, eid, eids) w2) = Inl UndefinedBehaviour"
proof -
  from assms(3,4) obtain i m where g: "getInstanceId eid (ids w) = (Inr i, m)"
    by (auto simp: setTimeOnErot_start_def split: prod.splits sum.splits)
  let ?key = "RequestKey eid i 1 0x13" and ?a = "next_awaitable w"
  let ?w0 = "w\<lparr>ids := m, next_awaitable := Suc ?a\<rparr>"
  note G = getInstanceId_Inr [OF g]
  from start_register [OF assms(3) g] assms(4) obtain rc1 where
    reg: "registerRequest P eid i 1 0x13 (addExtTimestamp_request i t) ?a ?w0 = Inr (rc1, w1)"
    and "(word_of_int rc1 :: u8) \<noteq> 0" by (auto split: if_splits)
  then have rc1: "rc1 \<noteq> 0" by (intro notI) simp
  have r0: "req_inv ?w0" using sys_inv_req [OF assms(1)] req_inv_cong [of ?w0 w] by simp
  have k0: "eid \<notin> key_eid ` keys ?w0" using assms(2) by (simp add: keys_def)
  note F = registerRequest_failed [OF r0 k0 reg rc1]
  have held1: "held (ids w1) = held (ids w)"
    using F(3) G(2,3) by (auto simp: fun_eq_iff)
  from assms(5) obtain i2 m2 where g2: "getInstanceId eid (ids w1) = (Inr i2, m2)"
    by (auto simp: setTimeOnErot_start_def split: prod.splits sum.splits)
  note G2 = getInstanceId_Inr [OF g2, unfolded held1]
  have "i2 = i" using G(4) [OF G2(1,2)] G2(4) [OF G(1,2)] by simp
  with start_register [OF assms(5) g2] obtain rc2 where
    reg2: "registerRequest P eid i 1 0x13 (addExtTimestamp_request i t') (next_awaitable w1)
      (w1\<lparr>ids := m2, next_awaitable := Suc (next_awaitable w1)\<rparr>) = Inr (rc2, w2)"
    and a: "a = next_awaitable w1" by (auto split: if_splits)
  have "?key \<in> keys (w1\<lparr>ids := m2, next_awaitable := Suc (next_awaitable w1)\<rparr>)"
    using F(5) by (simp add: keys_def)
  from registerRequest_present [OF reg2 this, of ?key] F(1,4)
  have "map_option e_handler (map_of (handlers w2) ?key) = Some ?a" by simp
  then obtain e where e: "map_of (handlers w2) ?key = Some e" "e_handler e = ?a" by auto
  have "next_awaitable w1 = Suc ?a" using world_more(5) [OF registerRequest_frame(2) [OF reg]] by simp
  with a e(2) have ne: "e_handler e \<noteq> a" by simp
  let ?w3 = "suspend c t' (a, eid, eids) w2"
  have "map_of (handlers ?w3) ?key = Some e" "setErotTimeHandle ?w3 = Suspended c a t' eid eids"
    using e by (simp_all add: suspend_def)
  from handleResponse_stale [OF this(1) _ this(2) ne] G(1) e(1)
  show ?thesis by (intro exI [of _ i]) (auto simp: keys_map_of)
qed

text \<open>A platform whose first send fails and whose later ones succeed.\<close>

definition flaky_platform :: platform where
  "flaky_platform = (kind_platform DaemonRequest)
     \<lparr>sys := (\<lambda>log c. if log = [] then -11 else 7)\<rparr>"

theorem failed_send_then_use_after_free_witness:
  "\<exists>w1 w2 i. setTimeOnErot_start flaky_platform 9 1 world_init = Inr (Returned 245, w1)
    \<and> setTimeOnErot_start flaky_platform 9 2 w1 = Inr (Awaits 1, w2)
    \<and> handleResponse flaky_platform (erot_invoke flaky_platform) (RequestKey 9 i 1 0x13) [] 1
        (suspend EndpointsTask 2 (1, 9, []) w2) = Inl UndefinedBehaviour"
proof -
  have ids0: "getInstanceId 9 ([9 \<mapsto> 0]) = (Inr 0, [9 \<mapsto> 1])"
    by (simp add: getInstanceId_def ids_at_def InstanceId_next_def next_scan.simps
        maxInstanceIds_def set_bit_eq)
  have unset: "unset_bit 0 (1 :: 32 word) = 0" by (simp add: unset_bit_eq)
  note ev = setTimeOnErot_start_def sample_getInstanceId await_suspend_def request_key_built
    registerRequest_def getSocket_def hash_emplace_def runRegisteredRequest_def run_entry_def
    RetryTimer_start_def request_send_def send_io_def upd_entry_def numCommandRetries_def
    flaky_platform_def run_defs free_id_def markFree_def InstanceId_markFree_def maxInstanceIds_def
    ids_at_def unset
  obtain w1 where w1: "setTimeOnErot_start flaky_platform 9 1 world_init = Inr (Returned 245, w1)"
    and w1': "ids w1 = [9 \<mapsto> 0]" "next_awaitable w1 = 1" "log w1 \<noteq> []"
      "\<exists>e. handlers w1 = [(sample_key, e)] \<and> \<not> e_timer e \<and> numRetries (e_request e) = 3"
      "\<exists>s. getSocket 9 (socks w1) = (0, s)"
    by (simp add: ev)
  obtain w2 where w2: "setTimeOnErot_start flaky_platform 9 2 w1 = Inr (Awaits 1, w2)"
    using w1' by (auto simp: ev ids0)
  have fresh: "9 \<notin> key_eid ` keys world_init" by (simp add: world_init_def keys_def)
  have nz: "(245 :: u8) \<noteq> 0" by simp
  from failed_send_then_use_after_free [OF world_init_inv fresh w1 nz w2,
      where msg = "[]" and len = 1 and c = EndpointsTask and eids = "[]"]
  show ?thesis using w1 w2 by blast
qed

text \<open>A task whose time cannot be fetched, or whose lists are all empty, is over at once.\<close>

lemma task_over_at_once:
  assumes "elapsed_reply P (log w) = None \<or> concat (queuedMctpInfos w) = []"
  shows "\<exists>w'. handleMctpEndpointsTask P w = Inr (None, w')"
proof -
  have loop: "\<exists>v'. task_loop P t v = Inr (None, v')" if "concat (queuedMctpInfos v) = []" for t v
    using that
  proof (induction P t v rule: task_loop.induct)
    case (1 P t v)
    show ?case
    proof (cases "queuedMctpInfos v")
      case Nil
      then show ?thesis by (subst task_loop.simps) simp
    next
      case (Cons x q)
      with 1(2) have set: "setTimeOnErots P t (map fst x) v = Inr (None, v)"
        by (simp add: setTimeOnErots_def)
      from 1(1) [OF Cons set refl refl] 1(2) Cons set show ?thesis
        by (subst task_loop.simps) simp
    qed
  qed
  show ?thesis
  proof (cases "elapsed_reply P (log w)")
    case (Some v)
    show ?thesis
    proof (cases "get_uint64 v")
      case (Inl e)
      with Some show ?thesis by (simp add: handleMctpEndpointsTask_def)
    next
      case (Inr t)
      let ?w1 = "w\<lparr>log := log w @ [IO_get_elapsed]\<rparr>"
      have "concat (queuedMctpInfos ?w1) = []" using assms Some by simp
      from loop [OF this, of t] obtain v' where "task_loop P t ?w1 = Inr (None, v')" ..
      with Some Inr show ?thesis by (simp add: handleMctpEndpointsTask_def)
    qed
  qed (simp add: handleMctpEndpointsTask_def)
qed

lemma task_outcome:
  assumes "setErotTimeHandle w = NoCoro \<or> setErotTimeHandle w = Finished"
    and "record_infos P infos (mctpInfoMap w) = Inr m"
    and "handleMctpEndpointsTask P (w\<lparr>mctpInfoMap := m,
      queuedMctpInfos := queuedMctpInfos w @ [infos], setErotTimeHandle := NoCoro\<rparr>) = Inr (s, w2)"
  shows "handleMctpEndpoints P infos w = (case s of
      None \<Rightarrow> Inl UndefinedBehaviour | Some (t, x) \<Rightarrow> Inr (suspend EndpointsTask t x w2))"
  using assms by (auto simp: handleMctpEndpoints_eq)

text \<open>
  C28: a discovery task that is over before it waits for anything is destroyed twice, for whatever reason
  it is over: its frame is destroyed through \<open>setErotTimeHandle\<close>, and then the destructor of the local
  \<open>co\<close> asks the destroyed frame whether it is done. A task that waits is kept. Two of the reasons
  are that the time cannot be fetched and that all queued lists are empty; so a signal for an added
  object that is no usable endpoint, met by an idle manager with an empty queue, is undefined behaviour.
\<close>

theorem idle_task_destroyed_twice:
  assumes "setErotTimeHandle w = NoCoro \<or> setErotTimeHandle w = Finished"
    and "record_infos P infos (mctpInfoMap w) = Inr m"
    and "task = handleMctpEndpointsTask P (w\<lparr>mctpInfoMap := m,
      queuedMctpInfos := queuedMctpInfos w @ [infos], setErotTimeHandle := NoCoro\<rparr>)"
  shows "(\<forall>w2. task = Inr (None, w2) \<longrightarrow> handleMctpEndpoints P infos w = Inl UndefinedBehaviour)
    \<and> (\<forall>t x w2. task = Inr (Some (t, x), w2) \<longrightarrow>
          handleMctpEndpoints P infos w = Inr (suspend EndpointsTask t x w2))
    \<and> (elapsed_reply P (log w) = None \<or> concat (queuedMctpInfos w @ [infos]) = [] \<longrightarrow>
          handleMctpEndpoints P infos w = Inl UndefinedBehaviour)"
proof (intro conjI allI impI)
  fix w2 assume "task = Inr (None, w2)"
  from task_outcome [OF assms(1,2) this [unfolded assms(3)]]
  show "handleMctpEndpoints P infos w = Inl UndefinedBehaviour" by simp
next
  fix t x w2 assume "task = Inr (Some (t, x), w2)"
  from task_outcome [OF assms(1,2) this [unfolded assms(3)]]
  show "handleMctpEndpoints P infos w = Inr (suspend EndpointsTask t x w2)" by simp
next
  assume early: "elapsed_reply P (log w) = None \<or> concat (queuedMctpInfos w @ [infos]) = []"
  let ?w = "w\<lparr>mctpInfoMap := m, queuedMctpInfos := queuedMctpInfos w @ [infos],
    setErotTimeHandle := NoCoro\<rparr>"
  have "elapsed_reply P (log ?w) = None \<or> concat (queuedMctpInfos ?w) = []" using early by simp
  from task_over_at_once [OF this] task_outcome [OF assms(1,2)]
  show "handleMctpEndpoints P infos w = Inl UndefinedBehaviour" by auto
qed

text \<open>
  A signal for an object that is no endpoint; and one for an endpoint on a system whose calls fail: the
  request cannot be sent, so that the task is over after its only endpoint.
\<close>

definition dead_platform :: platform where
  "dead_platform = (kind_platform DaemonRequest)\<lparr>sys := (\<lambda>log c. -5)\<rparr>"

lemma dead_task:
  "\<exists>w2. handleMctpEndpointsTask dead_platform (world_init\<lparr>
      mctpInfoMap := [(''u'', [\<lparr>info_eid = 9, info_medium = media_prefix @ ''PCIe''\<rparr>])],
      queuedMctpInfos := queuedMctpInfos world_init @ [[sample_info]], setErotTimeHandle := NoCoro\<rparr>)
    = Inr (None, w2)"
proof -
  have q: "queuedMctpInfos (close_sockets (report P eid rc w)) = queuedMctpInfos w" for P eid rc w
    using report_frame(6) [of w P eid rc] close_sockets_frame(5) [of "report P eid rc w"]
    by (simp add: same_queue_def)
  have over: "queuedMctpInfos w = [] \<Longrightarrow> task_loop P t w = Inr (None, w)" for P t w
    by (subst task_loop.simps) simp
  show ?thesis
    apply (simp add: handleMctpEndpointsTask_def dead_platform_def run_defs)
    apply (subst task_loop.simps)
    apply (simp add: sample_info_def setTimeOnErots_def sock_params_def initSocket_def
        Daemon_initSocket_def run_defs sun_path_size_def registerEndpoint_def setTimeOnErot_start_def
        sample_getInstanceId await_suspend_def request_key_built registerRequest_def getSocket_def
        hash_emplace_def runRegisteredRequest_def run_entry_def RetryTimer_start_def request_send_def
        send_io_def upd_entry_def numCommandRetries_def suspend_def messageType_def
        free_id_def markFree_def InstanceId_markFree_def maxInstanceIds_def over q)
    done
qed

theorem idle_task_destroyed_twice_witness:
  "discoverEndpoints (erot_handlers (kind_platform DaemonRequest)) [(''some.Interface'', [])] world_init
     = Inl UndefinedBehaviour
   \<and> handleMctpEndpoints dead_platform [sample_info] world_init = Inl UndefinedBehaviour"
proof
  have a: "setErotTimeHandle world_init = NoCoro \<or> setErotTimeHandle world_init = Finished"
    by (simp add: world_init_def)
  have "populateMctpInfo [(''some.Interface'', [])] ([], sock_init) = ([], sock_init)"
    by (simp add: populateMctpInfo_def interface_names)
  moreover have b: "record_infos (kind_platform DaemonRequest) [] (mctpInfoMap world_init) = Inr []"
    by (simp add: world_init_def)
  from idle_task_destroyed_twice [OF a b refl]
  have "handleMctpEndpoints (kind_platform DaemonRequest) [] world_init = Inl UndefinedBehaviour"
    by (simp add: world_init_def)
  ultimately show "discoverEndpoints (erot_handlers (kind_platform DaemonRequest))
      [(''some.Interface'', [])] world_init = Inl UndefinedBehaviour"
    by (simp add: discoverEndpoints_def world_init_def)
  have c: "record_infos dead_platform [sample_info] (mctpInfoMap world_init)
      = Inr [(''u'', [\<lparr>info_eid = 9, info_medium = media_prefix @ ''PCIe''\<rparr>])]"
    by (simp add: world_init_def sample_info_def pq_push_def sift_up.simps hash_emplace_def)
  from idle_task_destroyed_twice [OF a c refl] dead_task
  show "handleMctpEndpoints dead_platform [sample_info] world_init = Inl UndefinedBehaviour" by blast
qed

text \<open>
  C27: a change of the system time with several ERoTs. Once the coroutine that sets their times has
  suspended on one that is not the last, its vector of endpoints, a local of \<open>handleTimeChange\<close>, is
  gone, and whatever response arrives the resumed coroutine reads it. The same holds on the last
  one when its result is a failure to be logged.
\<close>

theorem time_change_outlives_its_endpoints:
  assumes "handleTimeChange P result now elapsed w = Inr w1"
    and "setErotTimeHandle w = NoCoro \<or> setErotTimeHandle w = Finished"
    and "setErotTimeHandle w1 = Suspended c a t cur rest"
    and "rest \<noteq> [] \<or> setTimeOnErot_finish r \<noteq> Inr 0"
  shows "erot_invoke P a eid r w1 = Inl UndefinedBehaviour
    \<and> (\<exists>eids before. top_eids (mctpInfoMap w) = Inr eids \<and> eids = before @ cur # rest)"
proof -
  from assms(1-3) obtain eids s w2 where top: "top_eids (mctpInfoMap w) = Inr eids"
    and set: "setTimeOnErots P (word_of_int elapsed) eids w = Inr (s, w2)"
    and w1: "w1 = (case s of Some x \<Rightarrow> suspend TimeChange (word_of_int elapsed) x w2
        | None \<Rightarrow> w2\<lparr>setErotTimeHandle := NoCoro\<rparr>)\<lparr>erotTimeSyncLast := now\<rparr>"
    by (auto simp: handleTimeChange_def bindR_eq_Inr Let_def split: if_splits coro.splits)
  with assms(3) have s: "s = Some (a, cur, rest)" "c = TimeChange"
    by (auto simp: suspend_def split: option.splits prod.splits)
  have fin: "setTimeOnErot_finish r = Inl e \<Longrightarrow> e = UndefinedBehaviour" for e
    by (auto simp: setTimeOnErot_finish_def read_payload0_def read_byte_def
        split: option.splits if_splits prod.splits)
  have "erot_invoke P a eid r w1 = Inl UndefinedBehaviour"
    using assms(3,4) s(2) fin
    by (cases "setTimeOnErot_finish r") (auto simp: erot_invoke_def setTimeOnErots_resume_eq)
  moreover from set s(1) have "\<exists>before. eids = before @ cur # rest"
    using setTimeOnErots_suspended by blast
  ultimately show ?thesis using top by blast
qed

theorem time_change_outlives_its_endpoints_witness:
  "erot_invoke (kind_platform DaemonRequest) 1 9 None sample_timed = Inl UndefinedBehaviour"
proof -
  have idle: "setErotTimeHandle sample_idle = NoCoro \<or> setErotTimeHandle sample_idle = Finished"
    by (simp add: sample_idle_def)
  have s: "setErotTimeHandle sample_timed = Suspended TimeChange 1 2000 9 []"
    by (simp add: sample_timed_def)
  have r: "[] \<noteq> ([] :: u8 list) \<or> setTimeOnErot_finish None \<noteq> Inr 0"
    by (simp add: setTimeOnErot_finish_def awaitable_rc_def)
  from time_change_outlives_its_endpoints [OF sample_time_change idle s r] show ?thesis by blast
qed

section \<open>What is served, and when\<close>

text \<open>
  C29: endpoints discovered while a change of the system time is being served are queued and then
  forgotten: when the chain of the time change ends, the queue still holds them and nothing is in
  progress that would serve it.
\<close>

theorem discovery_during_time_change_is_left:
  assumes "setErotTimeHandle w = Suspended TimeChange a t cur []"
    and "handleMctpEndpoints P infos w = Inr w1"
    and "setTimeOnErot_finish r = Inr 0"
  shows "\<exists>w2. erot_invoke P a eid r w1 = Inr w2 \<and> setErotTimeHandle w2 = Finished
    \<and> queuedMctpInfos w2 = queuedMctpInfos w @ [infos] \<and> handlers w2 = handlers w"
proof -
  from assms(1,2) obtain m where w1: "w1 = w\<lparr>mctpInfoMap := m, queuedMctpInfos := queuedMctpInfos w @ [infos]\<rparr>"
    by (auto simp: handleMctpEndpoints_eq Let_def bindR_eq_Inr)
  let ?w2 = "(close_sockets w1)\<lparr>setErotTimeHandle := Finished\<rparr>"
  have "erot_invoke P a eid r w1 = Inr ?w2"
    using assms(1,3) w1
    by (simp add: erot_invoke_def setTimeOnErots_resume_eq report_def after_loop_def)
  moreover have "queuedMctpInfos ?w2 = queuedMctpInfos w @ [infos]" "handlers ?w2 = handlers w"
    using close_sockets_frame(1,5) [of w1] w1 by (simp_all add: same_queue_def)
  ultimately show ?thesis by simp
qed

theorem discovery_during_time_change_is_left_witness:
  "\<exists>w1 w2. handleMctpEndpoints (kind_platform DaemonRequest) [sample_info] sample_timed = Inr w1
    \<and> erot_invoke (kind_platform DaemonRequest) 1 9
        (Some (header_bytes (addExtTimestamp_header 0) @ [0], 1)) w1 = Inr w2
    \<and> queuedMctpInfos w2 = [[sample_info]] \<and> setErotTimeHandle w2 = Finished"
proof -
  let ?P = "kind_platform DaemonRequest"
  have s: "setErotTimeHandle sample_timed = Suspended TimeChange 1 2000 9 []"
    by (simp add: sample_timed_def)
  have q: "queuedMctpInfos sample_timed = []" by (simp add: sample_timed_def sample_idle_def)
  have "\<exists>m. record_infos ?P [sample_info] (mctpInfoMap sample_timed) = Inr m"
    by (simp add: sample_timed_def sample_idle_def sample_waiting_def sample_info_def pq_push_def
        sift_up.simps info_less_def mediumPriority_def media_prefix_def)
  then obtain w1 where w1: "handleMctpEndpoints ?P [sample_info] sample_timed = Inr w1"
    using s by (auto simp: handleMctpEndpoints_eq Let_def)
  have r: "setTimeOnErot_finish (Some (header_bytes (addExtTimestamp_header 0) @ [0], 1)) = Inr 0"
    by (simp add: setTimeOnErot_finish_def awaitable_rc_def addExtTimestampRespBytes_def
        read_payload0_def read_byte_def nth_append)
  from discovery_during_time_change_is_left [OF s w1 r] w1 q show ?thesis by auto
qed

end
