(* ===== verification/ErotService.thy ===== *)
theory ErotService
  imports ErotProperties
begin

text \<open>
  The service the ERoT time manager gives: a queued list is served to its end and its resources are
  given back, a discovery task ends with an empty queue, every recorded ERoT keeps all its endpoints,
  and a change of the system time addresses each ERoT through its best medium.
\<close>

section \<open>Ending a task\<close>

text \<open>A task in progress stays in progress until the queue is empty.\<close>

definition task_state :: "world \<Rightarrow> bool" where
  "task_state w = (case setErotTimeHandle w of
     Suspended c a t eid eids \<Rightarrow> c = EndpointsTask
   | Finished \<Rightarrow> queuedMctpInfos w = []
   | NoCoro \<Rightarrow> False)"

lemma task_loop_None:
  "task_loop P t w = Inr (None, w') \<Longrightarrow> queuedMctpInfos w' = []"
proof (induction P t w rule: task_loop.induct)
  case (1 P t w)
  show ?case
  proof (cases "queuedMctpInfos w")
    case Nil
    with 1(2) show ?thesis by (subst (asm) task_loop.simps) auto
  next
    case (Cons infos q)
    with 1(2) obtain s1 w1 where set: "setTimeOnErots P t (map fst infos) w = Inr (s1, w1)"
      and rest: "(case s1 of Some x \<Rightarrow> Inr (Some x, w1)
        | None \<Rightarrow> task_loop P t (w1\<lparr>queuedMctpInfos := tl (queuedMctpInfos w1)\<rparr>)) = Inr (None, w')"
      by (subst (asm) task_loop.simps) (auto simp: bindR_eq_Inr)
    with 1(1) [OF Cons set refl] show ?thesis by (cases s1) auto
  qed
qed

lemma task_state_cong:
  assumes "setErotTimeHandle w' = setErotTimeHandle w" and "queuedMctpInfos w' = queuedMctpInfos w"
  shows "task_state w' = task_state w"
  unfolding task_state_def assms ..

lemma task_state_more: "requester.more w' = requester.more w \<Longrightarrow> task_state w' = task_state w"
  by (rule task_state_cong) (rule world_more, assumption)+

interpretation erot_task: client_contract "erot_invoke P" task_state for P
proof
  fix rh eid r and w w' :: world
  assume inv: "erot_invoke P rh eid r w = Inr w'" and I: "task_state w"
  from inv obtain c a t cur eids where h: "setErotTimeHandle w = Suspended c a t cur eids"
    by (auto simp: erot_invoke_def split: coro.splits)
  with I have c: "c = EndpointsTask" by (simp add: task_state_def)
  from inv h obtain rc s w1 where after: "after_loop P c t (s, w1) = Inr w'"
    by (auto simp: erot_invoke_def bindR_eq_Inr split: if_splits)
  show "task_state w'"
  proof (cases s)
    case (Some x)
    with after c show ?thesis by (cases x) (auto simp: after_loop_def task_state_def suspend_def)
  next
    case None
    with after c obtain s2 w2 where
      loop: "task_loop P t (w1\<lparr>queuedMctpInfos := tl (queuedMctpInfos w1)\<rparr>) = Inr (s2, w2)" and
      w': "w' = (case s2 of Some x \<Rightarrow> suspend EndpointsTask t x w2
        | None \<Rightarrow> w2\<lparr>setErotTimeHandle := Finished\<rparr>)"
      by (auto simp: after_loop_def bindR_eq_Inr split: option.splits)
    show ?thesis
    proof (cases s2)
      case None
      with loop task_loop_None have "queuedMctpInfos w2 = []" by blast
      with w' None show ?thesis by (simp add: task_state_def)
    next
      case (Some x)
      with w' show ?thesis by (cases x) (simp add: task_state_def suspend_def)
    qed
  qed
qed (drule task_state_more, simp)

lemma step_task_state:
  assumes "erot_step P w ev w'" and "task_state w"
    and "setErotTimeHandle w = Suspended c a t eid eids"
  shows "task_state w'"
  using assms(1)
proof (cases rule: erot_step.cases)
  case (received ev)
  from erot_task.received_keeps [OF received(2) assms(2)] show ?thesis .
next
  case (expired key e)
  with erot_task.instanceIdExpiryCallBack_keeps assms(2) show ?thesis by blast
next
  case (deferred key)
  with erot_task.removeRequestEntry_keeps assms(2) show ?thesis by blast
next
  case (retried key e)
  with erot_task.retry_tick_keeps assms(2) show ?thesis by blast
next
  case (added interfaces)
  obtain infos s where "populateMctpInfo interfaces ([], socks w) = (infos, s)" by (metis surj_pair)
  with added have "handleMctpEndpoints P infos (w\<lparr>socks := s\<rparr>) = Inr w'"
    by (auto simp: discoverEndpoints_def bindR_eq_Inr)
  with assms(2,3) show ?thesis
    by (auto simp: handleMctpEndpoints_eq bindR_eq_Inr Let_def task_state_def)
next
  case (time_changed result now elapsed)
  with assms(2,3) show ?thesis by (auto simp: handleTimeChange_def split: if_splits)
qed

text \<open>
  C12: a discovery task serves everything it is given. Whatever happens in one step of the daemon
  while the task is suspended, discovery of further endpoints included, either the task is still
  suspended after it or it has ended with an empty queue.
\<close>

theorem task_ends_with_empty_queue:
  assumes "erot_step P w ev w'" and "setErotTimeHandle w = Suspended EndpointsTask a t eid eids"
  shows "(\<exists>a' t' eid' eids'. setErotTimeHandle w' = Suspended EndpointsTask a' t' eid' eids')
    \<or> setErotTimeHandle w' = Finished \<and> queuedMctpInfos w' = []"
proof -
  have "task_state w" using assms(2) by (simp add: task_state_def)
  from step_task_state [OF assms(1) this assms(2)] show ?thesis
    by (cases "setErotTimeHandle w'") (auto simp: task_state_def)
qed

text \<open>The answer of the sample endpoint: the request's header with the request bit clear, and 0.\<close>

definition sample_answer :: rx_event where
  "sample_answer = datagram 0 ([8, 9, 0x7F] @ header_bytes ((addExtTimestamp_header 0)\<lparr>hdr_request := 0\<rparr>) @ [0])"

text \<open>The state after it: nothing registered, the identifier free, the socket closed.\<close>

definition sample_served :: world where
  "sample_served = sample_waiting\<lparr>handlers := [], ids := [9 \<mapsto> 0],
     socks := (socks sample_waiting)\<lparr>eidToFd := Map.empty, socketInfoMap := []\<rparr>,
     log := log sample_waiting @ [IO_close 7], queuedMctpInfos := [], setErotTimeHandle := Finished\<rparr>"

lemma sample_answer_served:
  "handleReceivedMsg (kind_platform DaemonRequest) (erot_invoke (kind_platform DaemonRequest))
     sample_answer sample_waiting = Inr sample_served"
proof -
  let ?P = "kind_platform DaemonRequest" and ?h = "(addExtTimestamp_header 0)\<lparr>hdr_request := 0\<rparr>"
  have unset: "unset_bit 0 (1 :: 32 word) = 0" by (simp add: unset_bit_eq)
  have "handleReceivedMsg ?P (erot_invoke ?P) sample_answer sample_waiting =
      handleResponse ?P (erot_invoke ?P) sample_key (header_bytes ?h @ [0]) 1 sample_waiting"
    using processRxMsg_header [of ?P "erot_invoke ?P" 9 ?h "[0]"]
    by (simp add: handleReceivedMsg_def Daemon_handleReceivedMsg_def sample_answer_def kind_platform_def
        read_byte_def messageType_def addExtTimestamp_header_def nvidiaMsgType_def addExtTimestamp_def)
  also have "\<dots> = Inr sample_served"
    apply (simp add: handleResponse_def sample_waiting_def sample_entry_def upd_entry_def free_id_def
        markFree_def InstanceId_markFree_def maxInstanceIds_def ids_at_def unset)
    apply (simp add: erot_invoke_def setTimeOnErot_finish_def awaitable_rc_def
        addExtTimestampRespBytes_def read_payload0_def read_byte_def nth_append
        setTimeOnErots_resume_eq report_def after_loop_def close_sockets_def deactivateSockets_def
        clearMctpEndpoints_def)
    apply (subst task_loop.simps)
    apply (simp add: runRegisteredRequest_def sample_served_def sample_waiting_def
        sample_entry_def)
    done
  finally show ?thesis .
qed

theorem task_ends_with_empty_queue_witness:
  "setErotTimeHandle sample_served = Finished \<and> queuedMctpInfos sample_served = []"
proof -
  have st: "erot_step (kind_platform DaemonRequest) sample_waiting (Received sample_answer) sample_served"
    by (rule erot_step.received) (rule sample_answer_served)
  have s: "setErotTimeHandle sample_waiting = Suspended EndpointsTask 0 1000 9 []"
    by (simp add: sample_waiting_def)
  from task_ends_with_empty_queue [OF st s] show ?thesis by (auto simp: sample_served_def)
qed

lemma runRegisteredRequest_idle:
  assumes "eid \<notin> key_eid ` keys w"
  shows "runRegisteredRequest P eid w = Inr (0, w)"
proof -
  have "scan_handlers eid xs acc = ToRun acc" if "eid \<notin> key_eid ` fst ` set xs" for xs acc
    using that by (induction eid xs acc rule: scan_handlers.induct) auto
  from this [of "handlers w" None] assms show ?thesis
    by (simp add: keys_def runRegisteredRequest_def)
qed

lemma success_finish: "setTimeOnErot_finish (Some (header_bytes h @ [0], 1)) = Inr 0"
  by (simp add: setTimeOnErot_finish_def awaitable_rc_def addExtTimestampRespBytes_def
      read_payload0_def read_byte_def nth_append)

lemma last_answer:
  assumes "setErotTimeHandle w = Suspended EndpointsTask a t eid []" and "queuedMctpInfos w = [infos]"
    and "{k \<in> keys w. key_eid k = eid} = {key}" and "unat (key_instanceId key) < maxInstanceIds"
    and "map_option e_handler (map_of (handlers w) key) = Some a"
  shows "\<exists>w'. handleResponse P (erot_invoke P) key (header_bytes h @ [0]) 1 w = Inr w'
    \<and> setErotTimeHandle w' = Finished \<and> queuedMctpInfos w' = [] \<and> keys w' = keys w - {key}
    \<and> held (ids w') eid = held (ids w) eid - {key_instanceId key}
    \<and> eidToFd (socks w') = Map.empty \<and> socketInfoMap (socks w') = []
    \<and> log w' = log w @ map (IO_close \<circ> snd) (socketInfoMap (socks w))"
proof -
  from assms(5) obtain e where e: "map_of (handlers w) key = Some e" "e_handler e = a" by auto
  from assms(3) have k: "key_eid key = eid" by auto
  let ?w0 = "upd_entry key stop_entry w"
  from free_id_ok [OF assms(4), of eid ?w0] obtain w1 where f: "free_id eid (key_instanceId key) ?w0 = Inr w1"
    by blast
  from handlers_free_id [OF f] obtain m where w1: "w1 = ?w0\<lparr>ids := m\<rparr>"
    and m: "held m eid = held (ids w) eid - {key_instanceId key}" by auto
  let ?w2 = "w1\<lparr>handlers := AList.delete key (handlers w1)\<rparr>"
  let ?w3 = "(close_sockets ?w2)\<lparr>queuedMctpInfos := [], setErotTimeHandle := Finished\<rparr>"
  have h2: "setErotTimeHandle ?w2 = Suspended EndpointsTask a t eid []" "queuedMctpInfos ?w2 = [infos]"
    "log ?w2 = log w" "socks ?w2 = socks w" "ids ?w2 = m"
    using assms(1,2) w1 by (simp_all add: upd_entry_def)
  have "keys ?w2 = keys w1 - {key}" by (simp add: keys_delete)
  moreover have "keys w1 = keys ?w0" unfolding w1 by (rule keys_cong) simp
  ultimately have k2: "keys ?w2 = keys w - {key}" by simp
  note fin = success_finish [of h]
  have q3: "queuedMctpInfos (close_sockets ?w2) = [infos]"
    using close_sockets_frame(5) [of ?w2] h2(2) by (simp add: same_queue_def)
  have loop: "task_loop P t ((close_sockets ?w2)\<lparr>queuedMctpInfos := []\<rparr>)
      = Inr (None, (close_sockets ?w2)\<lparr>queuedMctpInfos := []\<rparr>)"
    by (subst task_loop.simps) simp
  have inv: "erot_invoke P a eid (Some (header_bytes h @ [0], 1)) ?w2 = Inr ?w3"
    using h2(1) q3 fin loop
    by (simp add: erot_invoke_def setTimeOnErots_resume_eq report_def after_loop_def)
  have k3: "keys ?w3 = keys w - {key}"
    using k2 keys_cong [of ?w3 ?w2] by (simp add: close_sockets_frame)
  with assms(3) have "eid \<notin> key_eid ` keys ?w3" by auto
  then have run: "runRegisteredRequest P eid ?w3 = Inr (0, ?w3)" by (rule runRegisteredRequest_idle)
  from f have "handleResponse P (erot_invoke P) key (header_bytes h @ [0]) 1 w =
      bindR (erot_invoke P a eid (Some (header_bytes h @ [0], 1)) ?w2)
        (\<lambda>w2. bindR (runRegisteredRequest P eid w2) (\<lambda>(rc, w3). Inr w3))"
    using e k by (simp add: handleResponse_def)
  with inv run have "handleResponse P (erot_invoke P) key (header_bytes h @ [0]) 1 w = Inr ?w3"
    by simp
  moreover have "eidToFd (socks ?w3) = Map.empty" "socketInfoMap (socks ?w3) = []"
    "log ?w3 = log w @ map (IO_close \<circ> snd) (socketInfoMap (socks w))"
    using h2 by (auto simp: close_sockets_def deactivateSockets_def clearMctpEndpoints_def)
  moreover have "held (ids ?w3) eid = held (ids w) eid - {key_instanceId key}"
    using m h2(5) by (simp add: close_sockets_frame)
  ultimately show ?thesis using k3 by simp
qed

section \<open>The map of ERoTs\<close>

text \<open>
  An endpoint that is discovered again is recorded again. The loop that looks for it in its
  ERoT's queue has no effect, so after two reports of one endpoint the queue holds it twice.
\<close>

theorem rediscovered_endpoint_recorded_twice:
  "record_infos P [(eid, uuid, medium, net), (eid, uuid, medium, net)] [] =
     (if known \<lparr>info_eid = eid, info_medium = medium\<rparr>
      then Inr [(uuid, [\<lparr>info_eid = eid, info_medium = medium\<rparr>, \<lparr>info_eid = eid, info_medium = medium\<rparr>])]
      else Inl OutOfRange)"
  by (simp add: pq_push_def sift_up.simps hash_emplace_def info_less_def known_def split: option.splits)

text \<open>The endpoints a list of infos reports for one ERoT.\<close>

definition infos_of :: "string \<Rightarrow> mctp_info list \<Rightarrow> MctpEidInfo list" where
  "infos_of uuid infos =
     [\<lparr>info_eid = eid, info_medium = medium\<rparr>. (eid, u, medium, net) \<leftarrow> infos, u = uuid]"

definition queue_of :: "(string \<times> MctpEidInfo list) list \<Rightarrow> string \<Rightarrow> MctpEidInfo list" where
  "queue_of m uuid = (case map_of m uuid of None \<Rightarrow> [] | Some q \<Rightarrow> q)"

definition known_infos :: "mctp_info list \<Rightarrow> bool" where
  "known_infos infos = list_all (\<lambda>(eid, uuid, medium, net). known \<lparr>info_eid = eid, info_medium = medium\<rparr>) infos"

lemma queue_of_upd: "map_of m' = (map_of m)(u \<mapsto> q) \<Longrightarrow> queue_of m' u' = (if u' = u then q else queue_of m u')"
  by (simp add: queue_of_def)

lemma record_infos_spec:
  assumes "known_infos infos" and "distinct (map fst m)" and "\<And>u. pq_wf (queue_of m u)"
  shows "\<exists>m'. record_infos P infos m = Inr m' \<and> distinct (map fst m')
    \<and> (\<forall>u. pq_wf (queue_of m' u) \<and> mset (queue_of m' u) = mset (infos_of u infos) + mset (queue_of m u))
    \<and> dom (map_of m') = dom (map_of m) \<union> (\<lambda>(eid, u, medium, net). u) ` set infos"
  using assms
proof (induction infos arbitrary: m)
  case Nil
  then show ?case by (simp add: infos_of_def)
next
  case (Cons i infos)
  obtain eid uuid medium net where i: "i = (eid, uuid, medium, net)" by (metis prod.collapse)
  let ?x = "\<lparr>info_eid = eid, info_medium = medium\<rparr>"
  from Cons.prems(1) i have kn: "known ?x" "known_infos infos" by (simp_all add: known_infos_def)
  from pq.push_ok [OF Cons.prems(3) [of uuid] kn(1)] obtain q where
    q: "pq_push ?x (queue_of m uuid) = Inr q" "pq_wf q" "mset q = add_mset ?x (mset (queue_of m uuid))"
    by blast
  let ?m1 = "if map_of m uuid = None then hash_emplace (uuid_order P) uuid q m else AList.update uuid q m"
  have m1: "map_of ?m1 = (map_of m)(uuid \<mapsto> q)" "distinct (map fst ?m1)"
    using Cons.prems(2)
    by (auto simp: map_of_hash_emplace update_conv' distinct_update map_of_eq_None_iff)
  note q1 = queue_of_upd [OF m1(1)]
  have rec: "record_infos P (i # infos) m = record_infos P infos ?m1"
    using q(1) i by (auto simp: queue_of_def split: option.splits)
  have wf1: "pq_wf (queue_of ?m1 u)" for u using q(2) Cons.prems(3) by (simp add: q1)
  from Cons.IH [OF kn(2) m1(2) wf1] obtain m' where
    m': "record_infos P infos ?m1 = Inr m'" "distinct (map fst m')"
    "\<And>u. pq_wf (queue_of m' u)"
    "\<And>u. mset (queue_of m' u) = mset (infos_of u infos) + mset (queue_of ?m1 u)"
    "dom (map_of m') = dom (map_of ?m1) \<union> (\<lambda>(eid, u, medium, net). u) ` set infos" by blast
  have "mset (queue_of m' u) = mset (infos_of u (i # infos)) + mset (queue_of m u)" for u
    using q(3) by (simp add: m'(4) q1 infos_of_def i)
  moreover have "dom (map_of m') = dom (map_of m) \<union> (\<lambda>(eid, u, medium, net). u) ` set (i # infos)"
    unfolding m'(5) m1(1) i by auto
  ultimately show ?case unfolding rec
    by (intro exI [of _ m'] conjI allI) (simp_all only: m'(1-3))
qed

text \<open>
  C17: a change of the system time addresses every recorded ERoT once, through an endpoint of its own
  with the best medium among those recorded for it, in the order in which the map is iterated.
\<close>

theorem time_change_targets_best_medium:
  assumes "known_infos infos"
  shows "\<exists>m. record_infos P infos [] = Inr m
    \<and> distinct (map fst m) \<and> fst ` set m = (\<lambda>(eid, u, medium, net). u) ` set infos
    \<and> top_eids m = Inr (map (\<lambda>(u, q). info_eid (hd q)) m)
    \<and> (\<forall>(u, q)\<in>set m. hd q \<in> set (infos_of u infos)
        \<and> (\<forall>x\<in>set (infos_of u infos). rank (hd q) \<le> rank x))"
proof -
  have "pq_wf (queue_of [] u)" for u by (simp add: queue_of_def pq_wf_def)
  from record_infos_spec [OF assms _ this, of P] obtain m where
    m: "record_infos P infos [] = Inr m" "distinct (map fst m)" "\<And>u. pq_wf (queue_of m u)"
    "\<And>u. mset (queue_of m u) = mset (infos_of u infos)"
    "dom (map_of m) = (\<lambda>(eid, u, medium, net). u) ` set infos"
    by (auto simp: queue_of_def)
  have best: "\<exists>x. pq_top q = Inr x \<and> hd q = x \<and> x \<in> set (infos_of u infos)
      \<and> (\<forall>y\<in>set (infos_of u infos). rank x \<le> rank y)" if uq: "(u, q) \<in> set m" for u q
  proof -
    have q: "queue_of m u = q" using uq m(2) by (simp add: queue_of_def)
    have "u \<in> dom (map_of m)" using uq m(2) by auto
    then have "infos_of u infos \<noteq> []"
      unfolding m(5) by (force simp: infos_of_def)
    with m(4) [of u] q have "mset q \<noteq> {#}" by simp
    from pq.top_ok [OF m(3) [of u, unfolded q] this] obtain x where
      "pq_top q = Inr x" "x \<in># mset q" "\<forall>y\<in>#mset q. rank x \<le> rank y" by blast
    with m(4) [of u] q show ?thesis
      by (auto simp: pq_top_def split: list.splits)
  qed
  have "top_eids m' = Inr (map (\<lambda>(u, q). info_eid (hd q)) m')" if "set m' \<subseteq> set m" for m'
    using that best by (induction m' rule: top_eids.induct) fastforce+
  moreover have "fst ` set m = (\<lambda>(eid, u, medium, net). u) ` set infos"
    using m(5) by (simp add: dom_map_of_conv_image_fst)
  ultimately show ?thesis using m(1,2) best by fastforce
qed

theorem time_change_targets_best_medium_witness:
  "\<exists>m. record_infos (kind_platform DaemonRequest)
      [(30, ''u'', media_prefix @ ''SMBus'', 1), (20, ''u'', media_prefix @ ''PCIe'', 1)] [] = Inr m
    \<and> top_eids m = Inr [20]"
proof -
  let ?infos = "[(30, ''u'', media_prefix @ ''SMBus'', 1), (20, ''u'', media_prefix @ ''PCIe'', 1)] :: mctp_info list"
  have kn: "known_infos ?infos"
    by (simp add: known_infos_def known_def mediumPriority_def media_prefix_def)
  from time_change_targets_best_medium [OF kn, of "kind_platform DaemonRequest"] obtain m where
    m: "record_infos (kind_platform DaemonRequest) ?infos [] = Inr m" "distinct (map fst m)"
    "fst ` set m = {''u''}" "top_eids m = Inr (map (\<lambda>(u, q). info_eid (hd q)) m)"
    "\<forall>(u, q)\<in>set m. hd q \<in> set (infos_of u ?infos) \<and> (\<forall>x\<in>set (infos_of u ?infos). rank (hd q) \<le> rank x)"
    by auto
  have "length m = 1" using m(2,3) by (metis One_nat_def card_1_singleton_iff distinct_card length_map set_map)
  then obtain u q where uq: "m = [(u, q)]" by (auto simp: length_Suc_conv)
  with m(3,5) have "info_eid (hd q) = 20"
    by (auto simp: infos_of_def rank_def mediumPriority_def media_prefix_def)
  with m(1,4) uq show ?thesis by simp
qed

end
