(* ===== verification/ErotProgress.thy ===== *)
theory ErotProgress
  imports ErotService
begin

text \<open>
  No chain of coroutines is left waiting for nothing. On a platform whose calls succeed, and as long
  as no unsolicited response carries the identifier of a registered request, the awaitable a
  suspended chain waits on is registered in the requester's table, and for its endpoint a request
  is running or the removal of an expired one is due: one of the two will start or finish it.
\<close>

section \<open>The table of requests\<close>

text \<open>
  Every entry is a request for \<open>addExtTimestamp\<close>; an endpoint's identifiers in use are those of its
  entries; the removals that are due are those of entries of the table; and, endpoints in \<open>E\<close> apart,
  an endpoint with entries has one that is running or about to be removed.
\<close>

definition entry_ids :: "RequestKey set \<Rightarrow> u8 \<Rightarrow> u8 set" where
  "entry_ids K eid = key_instanceId ` {k \<in> K. key_eid k = eid}"

definition table_ok :: "u8 set \<Rightarrow> world \<Rightarrow> bool" where
  "table_ok E w \<longleftrightarrow>
     (\<forall>k\<in>keys w. key_type k = 1 \<and> key_command k = 0x13) \<and> (\<forall>eid. held (ids w) eid = entry_ids (keys w) eid)
     \<and> distinct (removeRequestContainer w) \<and> set (removeRequestContainer w) \<subseteq> keys w
     \<and> (\<forall>k\<in>keys w. key_eid k \<in> E \<or> running w (key_eid k) \<noteq> {}
          \<or> key_eid k \<in> key_eid ` set (removeRequestContainer w))"

lemma entry_ids_insert:
  "entry_ids (insert k K) eid =
     (if key_eid k = eid then insert (key_instanceId k) (entry_ids K eid) else entry_ids K eid)"
  by (auto simp: entry_ids_def)

lemma entry_ids_remove:
  assumes "\<And>k. k \<in> K \<Longrightarrow> k \<noteq> key \<Longrightarrow> key_eid k = key_eid key \<Longrightarrow> key_instanceId k \<noteq> key_instanceId key"
  shows "entry_ids (K - {key}) eid =
    (if eid = key_eid key then entry_ids K eid - {key_instanceId key} else entry_ids K eid)"
  using assms by (auto simp: entry_ids_def)

lemma table_ok_mono: "table_ok E w \<Longrightarrow> E \<subseteq> E' \<Longrightarrow> table_ok E' w"
  unfolding table_ok_def by blast

lemma table_ok_cong:
  assumes "handlers w' = handlers w" and "held (ids w') = held (ids w)"
    and "removeRequestContainer w' = removeRequestContainer w"
  shows "table_ok E w' = table_ok E w"
  using assms(2,3)
  by (simp add: table_ok_def running_cong [OF assms(1)] keys_cong [OF assms(1)])

text \<open>Entries of one endpoint differ in their identifiers.\<close>

lemma table_ok_key_eq:
  assumes "table_ok E w" and "k \<in> keys w" and "k' \<in> keys w"
    and "key_eid k' = key_eid k" and "key_instanceId k' = key_instanceId k"
  shows "k' = k"
proof (rule RequestKey.expand)
  show "key_eid k' = key_eid k \<and> key_instanceId k' = key_instanceId k
    \<and> key_type k' = key_type k \<and> key_command k' = key_command k"
    using assms by (simp add: table_ok_def)
qed

text \<open>Running an endpoint's request settles that endpoint.\<close>

lemma run_table:
  assumes "runRegisteredRequest P eid w = Inr (rc, w')" and "reliable P"
    and "distinct (map fst (handlers w))" and "table_ok (insert eid E) w"
  shows "rc = 0 \<and> table_ok E w'"
  using assms(3,1)
proof (cases rule: runRegisteredRequest_cases)
  case (run key e)
  have keys: "keys w' = keys w" by (rule keys_run [OF assms(1,3)])
  from run(4) run_entry_reliable [OF run(4) assms(2)] show ?thesis
  proof (cases rule: run_entry_cases)
    case (started rq l)
    have r: "running (w\<lparr>log := l\<rparr>) = running w" by (rule running_cong) simp
    have "running w' eid' =
        (if key_eid key = eid' then insert key (running w eid') else running w eid')" for eid'
      unfolding started(2) using run(3) by (subst running_upd_start [where e = e]) (simp_all add: r)
    with keys started assms(4) run(2) show ?thesis by (auto simp: table_ok_def)
  qed simp
qed (use assms(4) in \<open>auto simp: table_ok_def\<close>)

text \<open>
  What setting the times leaves behind: the same removals due and the same entries, and, when it
  ends up waiting, one more, which holds the awaitable.
\<close>

definition table_step :: "u8 set \<Rightarrow> world \<Rightarrow> suspension \<Rightarrow> world \<Rightarrow> bool" where
  "table_step E w s w' \<longleftrightarrow> table_ok E w' \<and> removeRequestContainer w' = removeRequestContainer w
     \<and> (case s of
          None \<Rightarrow> keys w' = keys w
        | Some (a, eid, rest) \<Rightarrow> \<exists>k. k \<notin> keys w \<and> keys w' = insert k (keys w)
            \<and> handler_at w' k = Some a \<and> key_eid k = eid)"

lemma table_step_trans:
  "keys w1 = keys w \<Longrightarrow> removeRequestContainer w1 = removeRequestContainer w \<Longrightarrow>
     table_step E w1 s w' \<Longrightarrow> table_step E w s w'"
  by (simp add: table_step_def split: option.splits prod.splits)

lemma start_table:
  assumes "setTimeOnErot_start P eid t w = Inr (r, w')" and "reliable P" and "req_inv w"
    and "table_ok E w"
  shows "table_step E w (case r of Awaits a \<Rightarrow> Some (a, eid, []) | Returned rc \<Rightarrow> None) w'"
proof (cases "getInstanceId eid (ids w)")
  case (Pair x m)
  show ?thesis
  proof (cases x)
    case (Inl e)
    with Pair assms(1) have w': "w' = w\<lparr>ids := m\<rparr>" and r: "r = Returned 0"
      by (auto simp: setTimeOnErot_start_def)
    have "table_ok E w'"
      using assms(4) getInstanceId_Inl(2) [OF Pair [unfolded Inl]] table_ok_cong [of w' w E]
      by (simp add: w')
    then show ?thesis using r by (simp add: w' table_step_def keys_def)
  next
    case (Inr i)
    note G = getInstanceId_Inr [OF Pair [unfolded Inr]]
    let ?w0 = "w\<lparr>ids := m, next_awaitable := Suc (next_awaitable w)\<rparr>"
    let ?key = "RequestKey eid i 1 0x13"
    from start_register [OF assms(1) Pair [unfolded Inr]] obtain rc where
      reg: "registerRequest P eid i 1 0x13 (addExtTimestamp_request i t) (next_awaitable w) ?w0
        = Inr (rc, w')"
      and r: "r = (if (word_of_int rc :: u8) \<noteq> 0 then Returned (word_of_int rc)
        else Awaits (next_awaitable w))" by blast
    from registerRequest_run [OF reg] obtain wa e where
      run: "runRegisteredRequest P eid wa = Inr (rc, w')" and ids: "ids wa = m"
      and c: "removeRequestContainer wa = removeRequestContainer w"
      and ha: "handlers wa = hash_emplace (key_order P) ?key e (handlers w)"
      and e: "e_handler e = next_awaitable w" "\<not> e_timer e" by auto
    from assms(4) G(2) have fresh: "?key \<notin> keys w" by (force simp: table_ok_def entry_ids_def)
    have d: "distinct (map fst (handlers w))" using assms(3) by (rule req_inv_distinct)
    with ha have da: "distinct (map fst (handlers wa))" by simp
    from fresh have ka: "keys wa = insert ?key (keys w)" by (simp add: keys_def ha set_hash_emplace)
    have ma: "map_of (handlers wa) k = (if k = ?key then Some e else map_of (handlers w) k)" for k
      using map_of_hash_emplace [OF d, of "key_order P" ?key e] fresh by (simp add: ha keys_def)
    have "running wa eid' = running w eid'" for eid'
      using e(2) fresh by (auto simp: running_def ma keys_map_of)
    then have "table_ok (insert eid E) wa"
      using assms(4) G(3) by (auto simp: table_ok_def ka ids c entry_ids_insert)
    from run_table [OF run assms(2) da this] have rc: "rc = 0" and ok: "table_ok E w'" by auto
    have "handler_at w' ?key = Some (next_awaitable w)"
      using runRegisteredRequest_result(2) [OF da run, of ?key] e(1) by (simp add: handler_at_def ma)
    with ok rc r fresh keys_run [OF run da] runRegisteredRequest_frame(1) [OF run] c ka show ?thesis
      by (auto simp: table_step_def intro!: exI [of _ ?key])
  qed
qed

lemma erots_loop_table:
  "erots_loop P t eids w = Inr (s, w') \<Longrightarrow> reliable P \<Longrightarrow> core_inv w \<Longrightarrow> table_ok E w \<Longrightarrow>
     table_step E w s w'"
proof (induction eids arbitrary: w)
  case Nil
  then have "s = None" "w' = close_sockets w" by auto
  with Nil.prems(4) table_ok_cong [of w' w E] keys_cong [of w' w] show ?case
    by (simp add: table_step_def close_sockets_frame)
next
  case (Cons x eids)
  from Cons.prems(1) obtain r w1 where st: "setTimeOnErot_start P x t w = Inr (r, w1)"
    and rest: "(case r of Awaits a \<Rightarrow> Inr (Some (a, x, eids), w1)
       | Returned rc \<Rightarrow> erots_loop P t eids (report P x rc w1)) = Inr (s, w')"
    by (auto simp: bindR_eq_Inr)
  from Cons.prems(3) have "req_inv w" by (simp add: core_inv_def)
  note T = start_table [OF st Cons.prems(2) this Cons.prems(4)]
  show ?case
  proof (cases r)
    case (Awaits a)
    with T rest show ?thesis by (auto simp: table_step_def)
  next
    case (Returned rc)
    let ?w2 = "report P x rc w1"
    from Returned rest have loop: "erots_loop P t eids ?w2 = Inr (s, w')" by simp
    have ok: "table_ok E ?w2" using T table_ok_cong [of ?w2 w1 E]
      by (simp add: table_step_def report_frame)
    have "core_inv ?w2" using start_core_inv [OF st Cons.prems(3)] by (simp add: report_core_inv)
    from Cons.IH [OF loop Cons.prems(2) this ok] show ?thesis
      by (rule table_step_trans [rotated 2])
        (use T Returned keys_cong [of ?w2 w1] in \<open>simp_all add: table_step_def report_frame\<close>)
  qed
qed

lemma setTimeOnErots_table:
  assumes "setTimeOnErots P t eids w = Inr (s, w')" and "reliable P" and "core_inv w"
    and "table_ok E w"
  shows "table_step E w s w'"
proof -
  have upd: "core_inv (w\<lparr>socks := k, log := l\<rparr>)" "table_ok E (w\<lparr>socks := k, log := l\<rparr>)"
    "keys (w\<lparr>socks := k, log := l\<rparr>) = keys w" for k l
    using assms(3,4) core_inv_cong [of "w\<lparr>socks := k, log := l\<rparr>" w]
      table_ok_cong [of "w\<lparr>socks := k, log := l\<rparr>" w E] by (simp_all add: keys_def)
  have None: "table_step E w None (w\<lparr>socks := k, log := l\<rparr>)" for k l
    using upd by (simp add: table_step_def)
  show ?thesis
  proof (cases "\<exists>k l. erots_loop P t eids (w\<lparr>socks := k, log := l\<rparr>) = Inr (s, w')")
    case True
    then obtain k l where "erots_loop P t eids (w\<lparr>socks := k, log := l\<rparr>) = Inr (s, w')" by blast
    from erots_loop_table [OF this assms(2) upd(1,2)] upd(3) show ?thesis
      by (auto intro: table_step_trans [rotated 2])
  next
    case False
    with assms(1) None [of "log w" "socks w"] None show ?thesis
      by (auto simp: setTimeOnErots_def bindR_eq_Inr split: if_splits)
  qed
qed

lemma task_loop_table:
  "task_loop P t w = Inr (s, w') \<Longrightarrow> reliable P \<Longrightarrow> core_inv w \<Longrightarrow> table_ok E w \<Longrightarrow> table_step E w s w'"
proof (induction P t w rule: task_loop.induct)
  case (1 P t w)
  show ?case
  proof (cases "queuedMctpInfos w")
    case Nil
    with 1(2,5) show ?thesis by (subst (asm) task_loop.simps) (auto simp: table_step_def)
  next
    case (Cons infos q)
    with 1(2) obtain s1 w1 where set: "setTimeOnErots P t (map fst infos) w = Inr (s1, w1)"
      and rest: "(case s1 of Some x \<Rightarrow> Inr (Some x, w1)
        | None \<Rightarrow> task_loop P t (w1\<lparr>queuedMctpInfos := tl (queuedMctpInfos w1)\<rparr>)) = Inr (s, w')"
      by (subst (asm) task_loop.simps) (auto simp: bindR_eq_Inr)
    note T = setTimeOnErots_table [OF set 1(3,4,5)]
    show ?thesis
    proof (cases s1)
      case (Some x)
      with rest T show ?thesis by auto
    next
      case None
      let ?w2 = "w1\<lparr>queuedMctpInfos := tl (queuedMctpInfos w1)\<rparr>"
      from None rest have loop: "task_loop P t ?w2 = Inr (s, w')" by simp
      have "core_inv ?w2" "table_ok E ?w2"
        using setTimeOnErots_core_inv [OF set 1(4)] T core_inv_cong [of ?w2 w1]
          table_ok_cong [of ?w2 w1 E] by (simp_all add: table_step_def)
      from 1(1) [OF Cons set refl None loop 1(3) this] show ?thesis
        by (rule table_step_trans [rotated 2])
          (use T None keys_cong [of ?w2 w1] in \<open>simp_all add: table_step_def\<close>)
    qed
  qed
qed

section \<open>The chain that waits\<close>

text \<open>
  The entries other than \<open>S\<close>: the one the chain waits on, for its current endpoint, and none when
  no chain is suspended.
\<close>

definition chain_waits :: "RequestKey set \<Rightarrow> world \<Rightarrow> bool" where
  "chain_waits S w = (case setErotTimeHandle w of
     Suspended c a t eid eids \<Rightarrow> \<exists>k. keys w - S = {k} \<and> handler_at w k = Some a \<and> key_eid k = eid
   | _ \<Rightarrow> keys w \<subseteq> S)"

definition progress_inv :: "world \<Rightarrow> bool" where
  "progress_inv w \<longleftrightarrow> table_ok {} w \<and> chain_waits (set (removeRequestContainer w)) w"

lemma chain_waits_cong:
  assumes "handler_at w' = handler_at w" and "setErotTimeHandle w' = setErotTimeHandle w"
  shows "chain_waits S w' = chain_waits S w"
proof -
  have "keys v = {k. handler_at v k \<noteq> None}" for v :: world
    by (simp add: keys_map_of handler_at_def set_eq_iff)
  with assms show ?thesis by (simp add: chain_waits_def split: coro.splits)
qed

lemma progress_inv_cong:
  assumes "handlers w' = handlers w" and "ids w' = ids w"
    and "removeRequestContainer w' = removeRequestContainer w"
    and "setErotTimeHandle w' = setErotTimeHandle w"
  shows "progress_inv w' = progress_inv w"
  using table_ok_cong [of w' w "{}"] chain_waits_cong [OF handler_at_cong [OF assms(1)] assms(4)] assms
  by (simp add: progress_inv_def)

lemma suspend_waits:
  assumes "table_step E w (Some x) w'"
  shows "table_ok E (suspend c t x w')" and "chain_waits (keys w) (suspend c t x w')"
    and "keys (suspend c t x w') = keys w'"
    and "removeRequestContainer (suspend c t x w') = removeRequestContainer w"
proof -
  obtain a eid rest where x: "x = (a, eid, rest)" by (metis prod.collapse)
  have h: "handlers (suspend c t x w') = handlers w'" "ids (suspend c t x w') = ids w'"
    "removeRequestContainer (suspend c t x w') = removeRequestContainer w'"
    by (simp_all add: suspend_def x)
  with assms show "table_ok E (suspend c t x w')"
    "removeRequestContainer (suspend c t x w') = removeRequestContainer w"
    using table_ok_cong [of "suspend c t x w'" w' E] by (simp_all add: table_step_def)
  show "keys (suspend c t x w') = keys w'" by (rule keys_cong [OF h(1)])
  from assms x obtain k where "k \<notin> keys w" "keys w' = insert k (keys w)"
    "handler_at w' k = Some a" "key_eid k = eid" by (auto simp: table_step_def)
  moreover from this have "keys w' - keys w = {k}" by auto
  ultimately show "chain_waits (keys w) (suspend c t x w')"
    using keys_cong [OF h(1)] handler_at_cong [OF h(1)]
    by (auto simp: chain_waits_def suspend_def x)
qed

text \<open>A resumed chain ends, or waits on an entry made since it was resumed.\<close>

lemma erot_invoke_progress:
  assumes "erot_invoke P b eid' r w = Inr w'" and "reliable P" and "sys_inv w" and "table_ok E w"
  shows "table_ok E w' \<and> keys w \<subseteq> keys w' \<and> removeRequestContainer w' = removeRequestContainer w
    \<and> chain_waits (keys w) w'"
proof -
  from assms(1) obtain c a t eid eids where h: "setErotTimeHandle w = Suspended c a t eid eids"
    by (auto simp: erot_invoke_def split: coro.splits)
  with assms(1) obtain rc s w1 where
    res: "setTimeOnErots_resume P c t eid eids rc w = Inr (s, w1)" and
    after: "after_loop P c t (s, w1) = Inr w'"
    by (auto simp: erot_invoke_def bindR_eq_Inr split: if_splits)
  let ?w0 = "report P eid rc w"
  from res have loop: "erots_loop P t eids ?w0 = Inr (s, w1)"
    by (simp add: setTimeOnErots_resume_eq split: if_splits)
  from assms(3) have core: "core_inv ?w0" by (simp add: sys_inv_def report_core_inv)
  have ok: "table_ok E ?w0" using assms(4) table_ok_cong [of ?w0 w E] by (simp add: report_frame)
  have keys: "keys ?w0 = keys w" by (rule keys_cong) (simp add: report_frame)
  from erots_loop_table [OF loop assms(2) core ok] have L: "table_step E w s w1"
    by (rule table_step_trans [rotated 2]) (simp_all add: keys report_frame)
  have finish: ?thesis if "table_step E w s2 w2"
    and "w' = (case s2 of Some x \<Rightarrow> suspend c t x w2 | None \<Rightarrow> w2\<lparr>setErotTimeHandle := Finished\<rparr>)"
    for s2 w2
  proof (cases s2)
    case None
    with that table_ok_cong [of w' w2 E] keys_cong [of w' w2] show ?thesis
      by (simp add: table_step_def chain_waits_def)
  next
    case (Some x)
    with that suspend_waits [of E w x w2 c t] show ?thesis
      by (auto simp: table_step_def split: prod.splits)
  qed
  show ?thesis
  proof (cases "s = None \<and> c = EndpointsTask")
    case True
    let ?w2 = "w1\<lparr>queuedMctpInfos := tl (queuedMctpInfos w1)\<rparr>"
    from True after obtain s2 w3 where task: "task_loop P t ?w2 = Inr (s2, w3)"
      and w': "w' = (case s2 of Some x \<Rightarrow> suspend c t x w3 | None \<Rightarrow> w3\<lparr>setErotTimeHandle := Finished\<rparr>)"
      by (auto simp: after_loop_def bindR_eq_Inr split: option.splits)
    have "core_inv ?w2" "table_ok E ?w2"
      using erots_loop_core_inv [OF loop core] L core_inv_cong [of ?w2 w1] table_ok_cong [of ?w2 w1 E]
      by (simp_all add: table_step_def)
    from task_loop_table [OF task assms(2) this] have "table_step E w s2 w3"
      by (rule table_step_trans [rotated 2])
        (use L True keys_cong [of ?w2 w1] in \<open>simp_all add: table_step_def\<close>)
    from finish [OF this w'] show ?thesis .
  next
    case False
    with after have "w' = (case s of Some x \<Rightarrow> suspend c t x w1 | None \<Rightarrow> w1\<lparr>setErotTimeHandle := Finished\<rparr>)"
      by (auto simp: after_loop_def split: option.splits caller.splits)
    from finish [OF L this] show ?thesis .
  qed
qed

text \<open>An awaitable that can be invoked is the one the chain waits on: its entry alone is not due for removal.\<close>

lemma invoked_entry:
  assumes "erot_invoke P (e_handler e) eid' r v = Inr v'" and "setErotTimeHandle v = setErotTimeHandle w"
    and "map_of (handlers w) key = Some e" and "sys_inv w" and "progress_inv w"
  shows "keys w - set (removeRequestContainer w) = {key}"
proof -
  from assms(1,2) obtain c t eid eids where "setErotTimeHandle w = Suspended c (e_handler e) t eid eids"
    by (auto simp: erot_invoke_def split: coro.splits if_splits)
  with assms(5) obtain k where k: "keys w - set (removeRequestContainer w) = {k}"
    "handler_at w k = Some (e_handler e)" by (auto simp: progress_inv_def chain_waits_def)
  have "handler_at w key = Some (e_handler e)" using assms(3) by (simp add: handler_at_def)
  with k(2) assms(4) have "k = key" by (auto simp: sys_inv_def core_inv_def token_inv_def)
  with k(1) show ?thesis by simp
qed

text \<open>The end of every operation of the requester: the endpoint's next request is started.\<close>

lemma run_progress:
  assumes "runRegisteredRequest P eid w = Inr (rc, w')" and "reliable P" and "sys_inv w"
    and "table_ok {eid} w" and "chain_waits (set (removeRequestContainer w)) w"
  shows "progress_inv w'"
proof -
  note r = sys_inv_req [OF assms(3)]
  from run_table [OF assms(1,2) req_inv_distinct [OF r], of "{}"] assms(4) have "table_ok {} w'" by simp
  moreover have "chain_waits (set (removeRequestContainer w)) w'"
    using assms(5) chain_waits_cong [OF handler_at_run [OF assms(1) r]
      world_more(3) [OF runRegisteredRequest_frame(3) [OF assms(1)]]] by simp
  ultimately show ?thesis using runRegisteredRequest_frame(1) [OF assms(1)] by (simp add: progress_inv_def)
qed

text \<open>Taking an entry and its identifier away leaves only its endpoint unsettled.\<close>

lemma drop_entry_table:
  assumes "table_ok {} w" and "key \<in> keys w"
    and "keys w' = keys w - {key}" and "\<And>eid. running w' eid = running w eid - {key}"
    and "held (ids w') = (held (ids w))(key_eid key := held (ids w) (key_eid key) - {key_instanceId key})"
    and "set (removeRequestContainer w') = set (removeRequestContainer w) - {key}"
    and "distinct (removeRequestContainer w')"
  shows "table_ok {key_eid key} w'"
proof -
  have ne: "key_instanceId k \<noteq> key_instanceId key" if "k \<in> keys w" "k \<noteq> key" "key_eid k = key_eid key" for k
    using table_ok_key_eq [OF assms(1,2) that(1)] that by auto
  have R: "entry_ids (keys w - {key}) eid =
      (if eid = key_eid key then entry_ids (keys w) eid - {key_instanceId key} else entry_ids (keys w) eid)"
    for eid using ne by (rule entry_ids_remove)
  from assms(1) have h: "held (ids w) = entry_ids (keys w)" by (simp add: table_ok_def fun_eq_iff)
  have 1: "held (ids w') eid = entry_ids (keys w - {key}) eid" for eid
    unfolding assms(5) h R by simp
  have "key_eid k \<in> {key_eid key} \<or> running w (key_eid k) - {key} \<noteq> {}
      \<or> key_eid k \<in> key_eid ` (set (removeRequestContainer w) - {key})" if "k \<in> keys w" for k
  proof (cases "key_eid k = key_eid key")
    case False
    then have "key \<notin> running w (key_eid k)" by (simp add: running_def)
    with that assms(1) False show ?thesis by (fastforce simp: table_ok_def)
  qed simp
  with 1 assms(1,7) show ?thesis
    unfolding table_ok_def assms(3,4,6) by blast
qed

section \<open>The steps of the daemon\<close>

text \<open>
  A stray response: no request is registered under its key, but one is under its endpoint and
  identifier, so that it gives back an identifier in use.
\<close>

definition stray :: "RequestKey \<Rightarrow> world \<Rightarrow> bool" where
  "stray key w \<longleftrightarrow> key \<notin> keys w
     \<and> (\<exists>k\<in>keys w. key_eid k = key_eid key \<and> key_instanceId k = key_instanceId key)"

lemma handleResponse_progress:
  assumes "handleResponse P (erot_invoke P) key msg len w = Inr w'" and "reliable P"
    and "sys_inv w" and "progress_inv w" and "\<not> stray key w"
  shows "progress_inv w'"
proof -
  from assms(4) have ok: "table_ok {} w" and waits: "chain_waits (set (removeRequestContainer w)) w"
    by (simp_all add: progress_inv_def)
  show ?thesis
  proof (cases "map_of (handlers w) key")
    case None
    with assms(1) obtain w1 rc where f: "free_id (key_eid key) (key_instanceId key) w = Inr w1"
      and run: "runRegisteredRequest P (key_eid key) w1 = Inr (rc, w')"
      by (auto simp: handleResponse_def bindR_eq_Inr)
    from handlers_free_id [OF f] obtain m where w1: "w1 = w\<lparr>ids := m\<rparr>"
      and m: "held m = (held (ids w))(key_eid key := held (ids w) (key_eid key) - {key_instanceId key})"
      by blast
    from None assms(5) have "\<forall>k\<in>keys w. key_eid k = key_eid key \<longrightarrow> key_instanceId k \<noteq> key_instanceId key"
      by (auto simp: stray_def keys_map_of)
    then have "key_instanceId key \<notin> entry_ids (keys w) (key_eid key)" by (auto simp: entry_ids_def)
    with ok have "held (ids w1) = held (ids w)" by (auto simp: table_ok_def w1 m fun_eq_iff)
    with ok have "table_ok {} w1" using table_ok_cong [of w1 w "{}"] by (simp add: w1)
    then have "table_ok {key_eid key} w1" by (rule table_ok_mono) simp
    moreover have "chain_waits (set (removeRequestContainer w1)) w1"
      using waits chain_waits_cong [OF handler_at_cong [of w1 w]] by (simp add: w1)
    moreover have "sys_inv w1" using erot.free_keeps [OF f assms(3)] .
    ultimately show ?thesis using run_progress [OF run assms(2)] by blast
  next
    case (Some e)
    let ?ws = "upd_entry key stop_entry w"
    from Some assms(1) obtain w1 w2 rc where
      f: "free_id (key_eid key) (key_instanceId key) ?ws = Inr w1" and
      inv: "erot_invoke P (e_handler e) (key_eid key) (Some (msg, len))
        (w1\<lparr>handlers := AList.delete key (handlers w1)\<rparr>) = Inr w2" and
      run: "runRegisteredRequest P (key_eid key) w2 = Inr (rc, w')"
      by (auto simp: handleResponse_def bindR_eq_Inr)
    let ?wd = "w1\<lparr>handlers := AList.delete key (handlers w1)\<rparr>"
    from handlers_free_id [OF f] obtain m where w1: "w1 = ?ws\<lparr>ids := m\<rparr>"
      and m: "held m = (held (ids w))(key_eid key := held (ids w) (key_eid key) - {key_instanceId key})"
      by auto
    have s1: "sys_inv w1" using erot.free_keeps [OF f erot.stop_keeps [OF assms(3)]] .
    then have sd: "sys_inv ?wd" by (rule erot.delete_keeps)
    have h: "setErotTimeHandle ?wd = setErotTimeHandle w" by (simp add: w1 upd_entry_def)
    from invoked_entry [OF inv h Some assms(3,4)] ok
    have nd: "key \<notin> set (removeRequestContainer w)"
      and kw: "keys w - {key} = set (removeRequestContainer w)" by (auto simp: table_ok_def)
    have kd: "keys ?wd = keys w - {key}"
      unfolding keys_delete using keys_cong [of w1 ?ws] by (simp add: w1)
    have rd: "running ?wd eid = running w eid - {key}" for eid
      unfolding running_delete using running_cong [of w1 ?ws] by (simp add: running_upd_stop w1)
    have "table_ok {key_eid key} ?wd"
    proof (rule drop_entry_table [OF ok _ kd rd])
      show "key \<in> keys w" using Some by (simp add: keys_map_of)
    qed (use ok nd in \<open>simp_all add: w1 m table_ok_def\<close>)
    note I = erot_invoke_progress [OF inv assms(2) sd this]
    have "set (removeRequestContainer w2) = keys ?wd" using I kw kd by (simp add: w1)
    with I have "chain_waits (set (removeRequestContainer w2)) w2" by simp
    with run_progress [OF run assms(2) erot_invoke_inv [OF inv sd]] I show ?thesis by blast
  qed
qed

lemma expiry_progress:
  assumes "instanceIdExpiryCallBack (erot_invoke P) key w = Inr w'" and "reliable P"
    and "sys_inv w" and "progress_inv w"
  shows "progress_inv w'"
proof -
  let ?ws = "upd_entry key stop_entry w"
  from assms(1) obtain e w1 where e: "map_of (handlers w) key = Some e"
    and inv: "erot_invoke P (e_handler e) (key_eid key) None ?ws = Inr w1"
    and w': "w' = w1\<lparr>removeRequestContainer :=
      (if key \<in> set (removeRequestContainer w1) then removeRequestContainer w1
       else removeRequestContainer w1 @ [key])\<rparr>"
    by (auto simp: instanceIdExpiryCallBack_def bindR_eq_Inr split: option.splits)
  from assms(4) have ok: "table_ok {} w" by (simp add: progress_inv_def)
  have "table_ok {key_eid key} ?ws"
  proof -
    have "key \<notin> running w (key_eid k)" if "key_eid k \<noteq> key_eid key" for k
      using that by (simp add: running_def)
    with ok show ?thesis by (fastforce simp: table_ok_def running_upd_stop)
  qed
  note I = erot_invoke_progress [OF inv assms(2) erot.stop_keeps [OF assms(3)] this]
  have key: "key \<in> keys w1" using I e by (auto simp: keys_map_of [of key w])
  have k': "keys w' = keys w1" "running w' = running w1" "handler_at w' = handler_at w1"
    by (simp_all add: w' keys_def running_def handler_at_def fun_eq_iff)
  have "table_ok {} w'"
    using I key unfolding table_ok_def k' by (auto simp: w')
  moreover have h: "setErotTimeHandle ?ws = setErotTimeHandle w" by (simp add: upd_entry_def)
  have "set (removeRequestContainer w') = keys w"
    using I invoked_entry [OF inv h e assms(3,4)] ok by (auto simp: w' table_ok_def)
  with I have "chain_waits (set (removeRequestContainer w')) w1" by simp
  then have "chain_waits (set (removeRequestContainer w')) w'"
    using chain_waits_cong [OF k'(3)] by (simp add: w')
  ultimately show ?thesis by (simp add: progress_inv_def)
qed

lemma removal_progress:
  assumes "removeRequestEntry P key w = Inr w'" and "reliable P"
    and "sys_inv w" and "progress_inv w" and "key \<in> set (removeRequestContainer w)"
  shows "progress_inv w'"
proof -
  from assms(1,5) obtain w1 rc where
    f: "free_id (key_eid key) (key_instanceId key) w = Inr w1" and
    run: "runRegisteredRequest P (key_eid key) (w1\<lparr>handlers := AList.delete key (handlers w1),
      removeRequestContainer := remove1 key (removeRequestContainer w1)\<rparr>) = Inr (rc, w')"
    by (auto simp: removeRequestEntry_def bindR_eq_Inr)
  let ?wa = "w1\<lparr>handlers := AList.delete key (handlers w1)\<rparr>"
  let ?wd = "?wa\<lparr>removeRequestContainer := remove1 key (removeRequestContainer w1)\<rparr>"
  from handlers_free_id [OF f] obtain m where w1: "w1 = w\<lparr>ids := m\<rparr>"
    and m: "held m = (held (ids w))(key_eid key := held (ids w) (key_eid key) - {key_instanceId key})"
    by blast
  have sd: "sys_inv ?wd"
    using erot.free_keeps [OF f assms(3)] by (blast intro: erot.note_keeps erot.delete_keeps)
  from assms(4) have ok: "table_ok {} w" and waits: "chain_waits (set (removeRequestContainer w)) w"
    by (simp_all add: progress_inv_def)
  from ok have c: "set (removeRequestContainer ?wd) = set (removeRequestContainer w) - {key}"
    "distinct (removeRequestContainer ?wd)" by (simp_all add: w1 table_ok_def)
  have kd: "keys ?wd = keys w - {key}"
  proof -
    have "keys ?wd = keys ?wa" by (rule keys_cong) simp
    also have "\<dots> = keys w1 - {key}" by (rule keys_delete)
    also have "keys w1 = keys w" by (rule keys_cong) (simp add: w1)
    finally show ?thesis .
  qed
  have rd: "running ?wd eid = running w eid - {key}" for eid
  proof -
    have "running ?wd eid = running ?wa eid" by (simp add: running_cong [of ?wd ?wa])
    also have "\<dots> = running w1 eid - {key}" by (rule running_delete)
    also have "running w1 = running w" by (rule running_cong) (simp add: w1)
    finally show ?thesis .
  qed
  have "table_ok {key_eid key} ?wd"
  proof (rule drop_entry_table [OF ok _ kd rd _ c])
    show "key \<in> keys w" using ok assms(5) by (auto simp: table_ok_def)
  qed (simp add: w1 m)
  moreover have "chain_waits (set (removeRequestContainer ?wd)) ?wd"
  proof -
    have d: "keys ?wd - set (removeRequestContainer ?wd) = keys w - set (removeRequestContainer w)"
      "keys ?wd \<subseteq> set (removeRequestContainer ?wd) \<longleftrightarrow> keys w \<subseteq> set (removeRequestContainer w)"
      unfolding c(1) kd using assms(5) by auto
    have "handler_at ?wd k = handler_at w k" if "k \<notin> set (removeRequestContainer w)" for k
      using that assms(5) by (auto simp: w1 handler_at_def delete_conv')
    moreover have "k \<notin> set (removeRequestContainer w)"
      if "keys w - set (removeRequestContainer w) = {k}" for k using that by blast
    ultimately show ?thesis
      using waits unfolding chain_waits_def d by (auto simp: w1 split: coro.splits)
  qed
  moreover from run have "runRegisteredRequest P (key_eid key) ?wd = Inr (rc, w')" by simp
  ultimately show ?thesis using run_progress [OF _ assms(2) sd] by blast
qed

lemma retry_tick_progress:
  assumes "progress_inv w"
  shows "progress_inv (retry_tick P key w)"
proof (cases "map_of (handlers w) key")
  case (Some e)
  obtain rq l where "RetryTimer_callback P (e_request e) (log w) = (rq, l)" by (metis surj_pair)
  with Some have t: "retry_tick P key w = upd_entry key (\<lambda>e. e\<lparr>e_request := rq\<rparr>) (w\<lparr>log := l\<rparr>)"
    by (simp add: retry_tick_def)
  have k: "keys (retry_tick P key w) = keys w" "running (retry_tick P key w) eid = running w eid" for eid
    unfolding t using keys_cong [of "w\<lparr>log := l\<rparr>" w] running_cong [of "w\<lparr>log := l\<rparr>" w]
    by (simp_all add: running_upd_same)
  have "requester.more (retry_tick P key w) = requester.more w" by (simp add: t)
  then have "chain_waits S (retry_tick P key w) = chain_waits S w" for S
    by (intro chain_waits_cong world_more(3) handler_at_retry_tick)
  moreover have "table_ok {} (retry_tick P key w) = table_ok {} w"
    unfolding table_ok_def k by (simp add: t)
  ultimately show ?thesis using assms by (simp add: progress_inv_def t)
qed (use assms in \<open>simp add: retry_tick_def\<close>)

text \<open>The key a datagram answers, if the receiving half hands it to the requester.\<close>

definition message_key :: "u8 \<Rightarrow> bytes \<Rightarrow> RequestKey option" where
  "message_key eid msg =
     (case (read_request msg, read_instanceId msg, read_msgType msg, read_commandCode msg) of
        (Inr r, Inr i, Inr t, Inr c) \<Rightarrow> if r = 0 then Some (RequestKey eid i t c) else None
      | _ \<Rightarrow> None)"

definition response_key :: "platform \<Rightarrow> rx_event \<Rightarrow> RequestKey option" where
  "response_key P ev =
     (if rx_epollin ev \<and> rx_result ev = rx_peeked ev then
        (case transport P of
           DaemonRequest \<Rightarrow>
             (if read_byte (rx_buffer ev) 2 = Inr messageType
              then message_key (rx_buffer ev ! 1) (drop 3 (rx_buffer ev)) else None)
         | InKernelRequest \<Rightarrow> message_key (rx_sender ev) (rx_buffer ev))
      else None)"

lemma processRxMsg_progress:
  assumes "processRxMsg P (erot_invoke P) eid msg w = Inr w'" and "reliable P"
    and "sys_inv w" and "progress_inv w" and "\<And>key. message_key eid msg = Some key \<Longrightarrow> \<not> stray key w"
  shows "progress_inv w'"
proof (cases "w' = w")
  case False
  with assms(1) obtain key len where h: "handleResponse P (erot_invoke P) key msg len w = Inr w'"
    and "message_key eid msg = Some key"
    by (auto simp: processRxMsg_def message_key_def bindR_eq_Inr Let_def split: if_splits)
  with handleResponse_progress [OF h assms(2-4)] assms(5) show ?thesis by blast
qed (use assms(4) in simp)

lemma handleReceivedMsg_progress:
  assumes "handleReceivedMsg P (erot_invoke P) ev w = Inr w'" and "reliable P"
    and "sys_inv w" and "progress_inv w" and "\<And>key. response_key P ev = Some key \<Longrightarrow> \<not> stray key w"
  shows "progress_inv w'"
proof -
  have log: "progress_inv (w\<lparr>log := l\<rparr>)" for l
    using assms(4) progress_inv_cong [of "w\<lparr>log := l\<rparr>" w] by simp
  have rx: "progress_inv w'" if "processRxMsg P (erot_invoke P) eid msg w = Inr w'"
    "message_key eid msg = response_key P ev" for eid msg
    using processRxMsg_progress [OF that(1) assms(2-4)] assms(5) that(2) by simp
  show ?thesis
  proof (cases "transport P")
    case DaemonRequest
    with assms(1,4) log show ?thesis
      by (auto simp: handleReceivedMsg_def Daemon_handleReceivedMsg_def bindR_eq_Inr read_byte_def
          response_key_def split: if_splits intro: rx)
  next
    case InKernelRequest
    with assms(1,4) log show ?thesis
      by (auto simp: handleReceivedMsg_def InKernel_handleReceivedMsg_def response_key_def
          split: if_splits intro: rx)
  qed
qed

lemma suspend_progress:
  assumes "table_step {} w (Some x) w'" and "progress_inv w"
    and "keys w \<subseteq> set (removeRequestContainer w)"
  shows "progress_inv (suspend c t x w')"
proof -
  note S = suspend_waits [OF assms(1), of c t]
  from assms(2,3) have "keys w = set (removeRequestContainer w)"
    by (auto simp: progress_inv_def table_ok_def)
  with S show ?thesis by (simp add: progress_inv_def)
qed

lemma idle_keys:
  assumes "progress_inv w" and "\<nexists>c a t cur eids. setErotTimeHandle w = Suspended c a t cur eids"
  shows "keys w \<subseteq> set (removeRequestContainer w)"
  using assms by (cases "setErotTimeHandle w") (auto simp: progress_inv_def chain_waits_def)

lemma handleMctpEndpoints_progress:
  assumes "handleMctpEndpoints P infos w = Inr w'" and "reliable P" and "sys_inv w" and "progress_inv w"
  shows "progress_inv w'"
proof -
  from assms(1) obtain m where m: "record_infos P infos (mctpInfoMap w) = Inr m"
    by (auto simp: handleMctpEndpoints_eq bindR_eq_Inr)
  let ?w1 = "w\<lparr>mctpInfoMap := m, queuedMctpInfos := queuedMctpInfos w @ [infos]\<rparr>"
  show ?thesis
  proof (cases "\<exists>c a t cur eids. setErotTimeHandle w = Suspended c a t cur eids")
    case True
    with assms(1) m have w': "w' = ?w1" by (auto simp: handleMctpEndpoints_eq Let_def)
    with assms(4) progress_inv_cong [of w' w] show ?thesis by simp
  next
    case False
    let ?w2 = "?w1\<lparr>setErotTimeHandle := NoCoro, log := log w @ [IO_get_elapsed]\<rparr>"
    from False assms(1) m obtain t s w3 where task: "task_loop P t ?w2 = Inr (Some s, w3)"
      and w': "w' = suspend EndpointsTask t s w3"
      by (cases "setErotTimeHandle w")
        (auto simp: handleMctpEndpoints_eq handleMctpEndpointsTask_def Let_def bindR_eq_Inr
          split: option.splits sum.splits)
    have "req_inv ?w2" "token_inv ?w2"
      using sys_inv_req [OF assms(3)] assms(3) req_inv_cong [of ?w2 w] token_inv_cong [of ?w2 w]
        handler_at_cong [of ?w2 w] by (simp_all add: sys_inv_def core_inv_def)
    with record_infos_inv [OF m] assms(3) have core: "core_inv ?w2"
      by (simp add: sys_inv_def core_inv_def)
    have ok: "table_ok {} ?w2"
      using assms(4) table_ok_cong [of ?w2 w "{}"] by (simp add: progress_inv_def)
    have k: "keys ?w2 \<subseteq> set (removeRequestContainer ?w2)"
      using idle_keys [OF assms(4) False] keys_cong [of ?w2 w] by simp
    with ok have "progress_inv ?w2" by (simp add: progress_inv_def chain_waits_def)
    from suspend_progress [OF task_loop_table [OF task assms(2) core ok] this k] w'
    show ?thesis by simp
  qed
qed

lemma handleTimeChange_progress:
  assumes "handleTimeChange P result now elapsed w = Inr w'" and "reliable P" and "sys_inv w"
    and "progress_inv w"
  shows "progress_inv w'"
proof (cases "w' = w")
  case False
  with assms(1) have "\<nexists>c a t cur eids. setErotTimeHandle w = Suspended c a t cur eids"
    by (auto simp: handleTimeChange_def split: if_splits)
  note idle = idle_keys [OF assms(4) this]
  from False assms(1) obtain eids s w1 where
    set: "setTimeOnErots P (word_of_int elapsed) eids w = Inr (s, w1)" and
    w': "w' = (case s of Some x \<Rightarrow> suspend TimeChange (word_of_int elapsed) x w1
        | None \<Rightarrow> w1\<lparr>setErotTimeHandle := NoCoro\<rparr>)\<lparr>erotTimeSyncLast := now\<rparr>"
    by (auto simp: handleTimeChange_def bindR_eq_Inr Let_def split: if_splits coro.splits)
  have "core_inv w" "table_ok {} w" using assms(3,4) by (simp_all add: sys_inv_def progress_inv_def)
  note T = setTimeOnErots_table [OF set assms(2) this]
  have last: "progress_inv (v\<lparr>erotTimeSyncLast := now\<rparr>)" if "progress_inv v" for v
    using that progress_inv_cong [of "v\<lparr>erotTimeSyncLast := now\<rparr>" v] by simp
  show ?thesis
  proof (cases s)
    case None
    let ?w = "w1\<lparr>setErotTimeHandle := NoCoro\<rparr>"
    have "progress_inv ?w" using T None idle table_ok_cong [of ?w w1 "{}"] keys_cong [of ?w w1]
      by (simp add: progress_inv_def chain_waits_def table_step_def)
    with None w' last show ?thesis by simp
  next
    case (Some x)
    with suspend_progress [OF T [unfolded Some] assms(4) idle] w' last show ?thesis by simp
  qed
qed (use assms(4) in simp)

section \<open>Runs without stray responses\<close>

definition orderly :: "platform \<Rightarrow> world \<Rightarrow> event \<Rightarrow> bool" where
  "orderly P w ev = (case ev of
     Received rx \<Rightarrow> (case response_key P rx of Some key \<Rightarrow> \<not> stray key w | None \<Rightarrow> True)
   | _ \<Rightarrow> True)"

inductive orderly_reachable :: "platform \<Rightarrow> world \<Rightarrow> bool" for P where
  start: "MctpDiscovery (erot_handlers P) subtree getAll world_init = Inr w \<Longrightarrow> orderly_reachable P w"
| step: "orderly_reachable P w \<Longrightarrow> erot_step P w ev w' \<Longrightarrow> orderly P w ev \<Longrightarrow> orderly_reachable P w'"

lemma orderly_erot_reachable: "orderly_reachable P w \<Longrightarrow> erot_reachable P w"
  by (induction rule: orderly_reachable.induct) (blast intro: erot_reachable.intros)+

lemma progress_inv_socks: "progress_inv w \<Longrightarrow> progress_inv (w\<lparr>socks := s\<rparr>)"
  using progress_inv_cong [of "w\<lparr>socks := s\<rparr>" w] by simp

lemma erot_step_progress:
  assumes "erot_step P w ev w'" and "orderly P w ev" and "reliable P" and "sys_inv w" and "progress_inv w"
  shows "progress_inv w'"
  using assms(1)
proof (cases rule: erot_step.cases)
  case (received ev)
  with handleReceivedMsg_progress [OF received(2) assms(3-5)] assms(2) show ?thesis
    by (auto simp: orderly_def split: option.splits)
next
  case (expired key e)
  with expiry_progress assms(3-5) show ?thesis by blast
next
  case (deferred key)
  with removal_progress assms(3-5) show ?thesis by blast
next
  case (retried key e)
  with retry_tick_progress assms(5) show ?thesis by blast
next
  case (added interfaces)
  obtain infos s where "populateMctpInfo interfaces ([], socks w) = (infos, s)" by (metis surj_pair)
  with added have "handleMctpEndpoints P infos (w\<lparr>socks := s\<rparr>) = Inr w'"
    by (auto simp: discoverEndpoints_def bindR_eq_Inr)
  with handleMctpEndpoints_progress assms(3-5) sys_inv_socks progress_inv_socks show ?thesis by blast
next
  case (time_changed result now elapsed)
  with handleTimeChange_progress assms(3-5) show ?thesis by blast
qed

lemma orderly_progress: "orderly_reachable P w \<Longrightarrow> reliable P \<Longrightarrow> progress_inv w"
proof (induction rule: orderly_reachable.induct)
  case (start subtree getAll w)
  have "progress_inv world_init"
    by (simp add: progress_inv_def table_ok_def chain_waits_def world_init_def keys_def entry_ids_def)
  with start world_init_inv show ?case
    by (auto simp: MctpDiscovery_def bindR_eq_Inr intro: handleMctpEndpoints_progress sys_inv_socks
        progress_inv_socks split: option.splits if_splits prod.splits)
next
  case (step w ev w')
  from erot_step_progress [OF step(2,3)] step reachable_sys_inv [OF orderly_erot_reachable] show ?case
    by blast
qed

text \<open>A manager at rest has an empty table, so that every identifier is free.\<close>

lemma rest_table:
  assumes "reliable P" and "orderly_reachable P w" and "removeRequestContainer w = []"
    and "setErotTimeHandle w = NoCoro \<or> setErotTimeHandle w = Finished"
  shows "handlers w = []" and "held (ids w) eid = {}"
proof -
  note I = orderly_progress [OF assms(2,1)]
  from idle_keys [OF I] assms(3,4) have k: "keys w = {}" by auto
  then show "handlers w = []" by (simp add: keys_def)
  from I k show "held (ids w) eid = {}" by (simp add: progress_inv_def table_ok_def entry_ids_def)
qed

end
