(* ===== verification/ErotResources.thy ===== *)
theory ErotResources
  imports ErotProperties
begin

text \<open>
  Descriptors over whole runs of the ERoT time manager: in every reachable state what is open is what
  the socket handler owns, and the demux daemon's sockets are all closed whenever no chain of
  coroutines is suspended. The lemmas follow the calls: everything but opening and closing sockets
  issues requests that leave descriptors alone.
\<close>

section \<open>Operations that open and close nothing\<close>

definition same_sockets :: "sock_state \<Rightarrow> sock_state \<Rightarrow> bool" where
  "same_sockets s s' \<longleftrightarrow> socketInfoMap s' = socketInfoMap s \<and> kfd s' = kfd s \<and> isFdValid s' = isFdValid s"

definition quiet :: "('rh, 'z) requester_scheme \<Rightarrow> ('rh, 'z) requester_scheme \<Rightarrow> bool" where
  "quiet w w' \<longleftrightarrow> same_sockets (socks w) (socks w') \<and> eidToSockMap (socks w') = eidToSockMap (socks w)
     \<and> (\<exists>cs. log w' = log w @ cs \<and> list_all fd_neutral cs)"

lemma quiet_refl [simp]: "quiet w w"
  by (simp add: quiet_def same_sockets_def)

lemma quiet_trans: "quiet w w' \<Longrightarrow> quiet w' w'' \<Longrightarrow> quiet w w''"
  by (auto simp: quiet_def same_sockets_def)

lemma quiet_same: "socks w' = socks w \<Longrightarrow> log w' = log w \<Longrightarrow> quiet w w'"
  by (simp add: quiet_def same_sockets_def)

lemma send_io_neutral: "fd_neutral (send_io P rq)"
  by (simp add: send_io_def split: transport.splits)

lemma RetryTimer_start_log:
  "RetryTimer_start P rq l = (rc, rq', l') \<Longrightarrow> \<exists>cs. l' = l @ cs \<and> list_all fd_neutral cs"
  by (auto simp: RetryTimer_start_def request_send_def syscall_def Let_def send_io_neutral
      split: if_splits)

lemma run_entry_quiet: "run_entry P eid key e w = Inr (rc, w') \<Longrightarrow> quiet w w'"
proof -
  assume run: "run_entry P eid key e w = Inr (rc, w')"
  obtain c rq l where start: "RetryTimer_start P (e_request e) (log w) = (c, rq, l)" by (metis surj_pair)
  from RetryTimer_start_log [OF start] obtain cs where "l = log w @ cs" "list_all fd_neutral cs" by blast
  with run start show ?thesis
    by (auto simp: run_entry_def Let_def syscall_def bindR_eq_Inr quiet_def same_sockets_def
        dest!: handlers_free_id split: if_splits)
qed

lemma runRegisteredRequest_quiet: "runRegisteredRequest P eid w = Inr (rc, w') \<Longrightarrow> quiet w w'"
  by (auto simp: runRegisteredRequest_def split: scan.splits option.splits intro: run_entry_quiet)

lemma getSocket_same:
  "getSocket eid s = (fd, s') \<Longrightarrow> same_sockets s s' \<and> eidToSockMap s' = eidToSockMap s"
  by (auto simp: getSocket_def same_sockets_def split: option.splits)

lemma registerRequest_quiet:
  assumes "registerRequest P eid i type command msg rh w = Inr (rc, w')"
  shows "quiet w w'"
proof -
  obtain fd s where s: "getSocket eid (socks w) = (fd, s)" by (metis surj_pair)
  with assms obtain wa where run: "runRegisteredRequest P eid wa = Inr (rc, w')"
    and wa: "socks wa = s" "log wa = log w"
    by (auto simp: registerRequest_def)
  have "quiet w wa" using getSocket_same [OF s] wa by (simp add: quiet_def)
  with runRegisteredRequest_quiet [OF run] show ?thesis by (blast intro: quiet_trans)
qed

lemma start_quiet: "setTimeOnErot_start P eid t w = Inr (r, w') \<Longrightarrow> quiet w w'"
proof -
  have aw: "quiet w0 w'" if "await_suspend P eid q w0 = Inr (r, w')" for q w0
  proof -
    from that obtain key rc where
      "registerRequest P eid (key_instanceId key) (key_type key) (key_command key) q
        (next_awaitable w0) (w0\<lparr>next_awaitable := Suc (next_awaitable w0)\<rparr>) = Inr (rc, w')"
      by (auto simp: await_suspend_def Let_def bindR_eq_Inr split: if_splits)
    from registerRequest_quiet [OF this] show ?thesis by (simp add: quiet_def)
  qed
  assume "setTimeOnErot_start P eid t w = Inr (r, w')"
  then show ?thesis
    by (auto simp: setTimeOnErot_start_def quiet_same split: prod.splits sum.splits dest!: aw)
      (simp add: quiet_def)
qed

lemma report_quiet: "quiet w (report P eid rc w)"
  by (auto simp: report_def createErrorLog_def Let_def quiet_def same_sockets_def split: option.splits)

section \<open>Ownership of descriptors\<close>

definition fd_inv :: "platform \<Rightarrow> world \<Rightarrow> bool" where
  "fd_inv P w \<longleftrightarrow> sock_inv P (socks w) (log w)"

definition all_closed :: "world \<Rightarrow> bool" where
  "all_closed w \<longleftrightarrow> socketInfoMap (socks w) = []"

definition fd_sys_inv :: "platform \<Rightarrow> world \<Rightarrow> bool" where
  "fd_sys_inv P w \<longleftrightarrow> fd_inv P w
     \<and> (case setErotTimeHandle w of Suspended c a t eid eids \<Rightarrow> True | _ \<Rightarrow> all_closed w)"

lemma fd_inv_quiet: "quiet w w' \<Longrightarrow> fd_inv P w \<Longrightarrow> fd_inv P w'"
  by (auto simp: quiet_def fd_inv_def sock_inv_def same_sockets_def fd_live_neutral
      split: transport.splits)

lemma all_closed_quiet: "quiet w w' \<Longrightarrow> all_closed w' = all_closed w"
  by (auto simp: quiet_def all_closed_def same_sockets_def)

lemma fd_sys_inv_quiet:
  assumes "quiet w w'" and "setErotTimeHandle w' = setErotTimeHandle w"
  shows "fd_sys_inv P w \<Longrightarrow> fd_sys_inv P w'"
  using fd_inv_quiet [OF assms(1)] all_closed_quiet [OF assms(1)]
  by (auto simp: fd_sys_inv_def assms(2) split: coro.splits)

lemma activateSockets_inv:
  "activateSockets P eids s l = Inr (rc, s', l') \<Longrightarrow> sock_inv P s l \<Longrightarrow> rc = 0 \<and> sock_inv P s' l'"
proof (induction eids arbitrary: s l)
  case (Cons eid eids)
  obtain ty pr path s1 where sp: "sock_params eid s = ((ty, pr, path), s1)" by (metis surj_pair)
  from Cons.prems(2) sock_inv_cong [OF sock_params_frame(2-4) [OF sp]] have inv1: "sock_inv P s1 l"
    by simp
  show ?case
  proof (cases "map_of (socketInfoMap s1) path")
    case (Some fd)
    with Cons.prems sp inv1 Cons.IH [of "registerEndpoint eid fd s1" l] show ?thesis by simp
  next
    case None
    with Cons.prems sp obtain fd s2 l2 where init: "initSocket P ty pr path s1 l = Inr (fd, s2, l2)"
      and rest: "(if fd < 0 then activateSockets P eids s2 l2
         else activateSockets P eids (registerEndpoint eid fd s2) l2) = Inr (rc, s', l')"
      by (auto simp: bindR_eq_Inr)
    from initSocket_result [OF inv1 None init] have "sock_inv P s2 l2" by (simp add: init_result_def)
    with rest Cons.IH show ?thesis by (auto split: if_splits)
  qed
qed simp

lemma close_sockets_fd: "fd_inv P w \<Longrightarrow> fd_inv P (close_sockets w) \<and> all_closed (close_sockets w)"
proof -
  assume inv: "fd_inv P w"
  obtain s l where d: "deactivateSockets (socks w) (log w) = (s, l)" by (metis surj_pair)
  with inv deactivateSockets_spec(1) [OF d] have "sock_inv P s l" by (simp add: fd_inv_def)
  moreover from d have "socketInfoMap s = []"
    by (auto simp: deactivateSockets_def clearMctpEndpoints_def)
  ultimately show ?thesis using d by (simp add: close_sockets_def fd_inv_def all_closed_def)
qed

lemma erots_loop_fd:
  "erots_loop P t eids w = Inr (s, w') \<Longrightarrow> fd_inv P w \<Longrightarrow> fd_inv P w' \<and> (s = None \<longrightarrow> all_closed w')"
proof (induction eids arbitrary: w)
  case Nil
  then show ?case by (auto simp: close_sockets_fd)
next
  case (Cons x eids)
  then obtain r w1 where st: "setTimeOnErot_start P x t w = Inr (r, w1)"
    and rest: "(case r of Awaits a \<Rightarrow> Inr (Some (a, x, eids), w1)
       | Returned rc \<Rightarrow> erots_loop P t eids (report P x rc w1)) = Inr (s, w')"
    by (auto simp: bindR_eq_Inr)
  from fd_inv_quiet [OF start_quiet [OF st] Cons.prems(2)] have 1: "fd_inv P w1" .
  show ?case
  proof (cases r)
    case (Returned rc)
    with rest have "erots_loop P t eids (report P x rc w1) = Inr (s, w')" by simp
    from Cons.IH [OF this fd_inv_quiet [OF report_quiet 1]] show ?thesis .
  qed (use rest 1 in auto)
qed

lemma setTimeOnErots_fd:
  assumes "setTimeOnErots P t eids w = Inr (s, w')" and "fd_inv P w" and "all_closed w"
  shows "fd_inv P w' \<and> (s = None \<longrightarrow> all_closed w')"
proof (cases "eids = []")
  case True
  with assms show ?thesis by (simp add: setTimeOnErots_def)
next
  case False
  with assms(1) obtain rc k l where act: "activateSockets P eids (socks w) (log w) = Inr (rc, k, l)"
    and rest: "(if rc < 0 then Inr (None, w\<lparr>socks := k, log := l\<rparr>)
      else erots_loop P t eids (w\<lparr>socks := k, log := l\<rparr>)) = Inr (s, w')"
    by (auto simp: setTimeOnErots_def bindR_eq_Inr)
  from activateSockets_inv [OF act] assms(2) have "rc = 0" by (simp add: fd_inv_def)
  with rest have "erots_loop P t eids (w\<lparr>socks := k, log := l\<rparr>) = Inr (s, w')" by simp
  from erots_loop_fd [OF this] activateSockets_inv [OF act] assms(2) show ?thesis
    by (simp add: fd_inv_def)
qed

lemma task_loop_fd:
  "task_loop P t w = Inr (s, w') \<Longrightarrow> fd_inv P w \<Longrightarrow> all_closed w \<Longrightarrow>
     fd_inv P w' \<and> (s = None \<longrightarrow> all_closed w')"
proof (induction P t w rule: task_loop.induct)
  case (1 P t w)
  show ?case
  proof (cases "queuedMctpInfos w")
    case Nil
    with 1(2-4) show ?thesis by (subst (asm) task_loop.simps) auto
  next
    case (Cons infos q)
    with 1(2) obtain s1 w1 where set: "setTimeOnErots P t (map fst infos) w = Inr (s1, w1)"
      and rest: "(case s1 of Some x \<Rightarrow> Inr (Some x, w1)
        | None \<Rightarrow> task_loop P t (w1\<lparr>queuedMctpInfos := tl (queuedMctpInfos w1)\<rparr>)) = Inr (s, w')"
      by (subst (asm) task_loop.simps) (auto simp: bindR_eq_Inr)
    note S = setTimeOnErots_fd [OF set 1(3,4)]
    show ?thesis
    proof (cases s1)
      case (Some x)
      with rest S show ?thesis by auto
    next
      case None
      with rest have "task_loop P t (w1\<lparr>queuedMctpInfos := tl (queuedMctpInfos w1)\<rparr>) = Inr (s, w')"
        by simp
      from 1(1) [OF Cons set refl None this] S None show ?thesis
        by (simp add: fd_inv_def all_closed_def)
    qed
  qed
qed

lemma suspend_fd: "fd_inv P w \<Longrightarrow> fd_sys_inv P (suspend c t x w)"
  by (cases x) (simp add: suspend_def fd_sys_inv_def fd_inv_def)

lemma idle_fd: "fd_inv P w \<Longrightarrow> all_closed w \<Longrightarrow> fd_sys_inv P (w\<lparr>setErotTimeHandle := h\<rparr>)"
  by (simp add: fd_sys_inv_def fd_inv_def all_closed_def split: coro.splits)

lemma erot_invoke_fd:
  assumes "erot_invoke P b eid' r w = Inr w'" and "fd_sys_inv P w"
  shows "fd_sys_inv P w'"
proof -
  from assms(1) obtain c a t eid eids where h: "setErotTimeHandle w = Suspended c a t eid eids"
    by (auto simp: erot_invoke_def split: coro.splits)
  with assms(1) obtain rc s w1 where
    res: "setTimeOnErots_resume P c t eid eids rc w = Inr (s, w1)" and
    after: "after_loop P c t (s, w1) = Inr w'"
    by (auto simp: erot_invoke_def bindR_eq_Inr split: if_splits)
  from res have loop: "erots_loop P t eids (report P eid rc w) = Inr (s, w1)"
    by (simp add: setTimeOnErots_resume_eq split: if_splits)
  have "fd_inv P (report P eid rc w)"
    using assms(2) fd_inv_quiet [OF report_quiet] by (simp add: fd_sys_inv_def)
  note L = erots_loop_fd [OF loop this]
  show ?thesis
  proof (cases s)
    case (Some x)
    with after L show ?thesis by (auto simp: after_loop_def intro: suspend_fd)
  next
    case None
    show ?thesis
    proof (cases c)
      case TimeChange
      with None after L show ?thesis by (auto simp: after_loop_def intro: idle_fd)
    next
      case EndpointsTask
      with None after obtain s2 w2 where
        task: "task_loop P t (w1\<lparr>queuedMctpInfos := tl (queuedMctpInfos w1)\<rparr>) = Inr (s2, w2)" and
        w': "w' = (case s2 of Some x \<Rightarrow> suspend c t x w2 | None \<Rightarrow> w2\<lparr>setErotTimeHandle := Finished\<rparr>)"
        by (auto simp: after_loop_def bindR_eq_Inr split: option.splits)
      from task_loop_fd [OF task] L None have "fd_inv P w2 \<and> (s2 = None \<longrightarrow> all_closed w2)"
        by (simp add: fd_inv_def all_closed_def)
      with w' show ?thesis by (cases s2) (auto intro: suspend_fd idle_fd)
    qed
  qed
qed

interpretation erot_fd: response_contract "erot_invoke P" "fd_sys_inv P" for P
proof
  show "erot_invoke P rh eid r w = Inr w' \<Longrightarrow> fd_sys_inv P w \<Longrightarrow> fd_sys_inv P w'" for rh eid r w w'
    by (rule erot_invoke_fd)
  show "fd_sys_inv P w \<Longrightarrow> fd_sys_inv P (upd_entry key stop_entry w)" for w :: world and key
    by (erule fd_sys_inv_quiet [rotated 2]) (simp_all add: quiet_same upd_entry_def)
  show "fd_sys_inv P w \<Longrightarrow> fd_sys_inv P (w\<lparr>handlers := AList.delete key (handlers w)\<rparr>)"
    for w :: world and key
    by (erule fd_sys_inv_quiet [rotated 2]) (simp_all add: quiet_same)
  show "free_id eid i w = Inr w' \<Longrightarrow> fd_sys_inv P w \<Longrightarrow> fd_sys_inv P w'" for eid i and w w' :: world
    by (erule fd_sys_inv_quiet [rotated 2]) (auto simp: quiet_same dest!: handlers_free_id)
  show "runRegisteredRequest P' eid w = Inr (rc, w') \<Longrightarrow> fd_sys_inv P w \<Longrightarrow> fd_sys_inv P w'"
    for P' eid rc and w w' :: world
    by (erule fd_sys_inv_quiet [rotated 2])
      (simp_all add: runRegisteredRequest_quiet world_more(3) [OF runRegisteredRequest_frame(3)])
  show "fd_sys_inv P w \<Longrightarrow> fd_sys_inv P (w\<lparr>removeRequestContainer := c\<rparr>)" for w :: world and c
    by (erule fd_sys_inv_quiet [rotated 2]) (simp_all add: quiet_same)
qed

section \<open>Every reachable state\<close>

lemma fd_sys_inv_cong:
  assumes "same_sockets (socks w) (socks w')" and "log w' = log w"
    and "setErotTimeHandle w' = setErotTimeHandle w"
  shows "fd_sys_inv P w \<Longrightarrow> fd_sys_inv P w'"
  using assms by (auto simp: fd_sys_inv_def fd_inv_def sock_inv_def all_closed_def same_sockets_def
      split: transport.splits coro.splits)

lemma handleMctpEndpoints_fd:
  assumes "handleMctpEndpoints P infos w = Inr w'" and "fd_sys_inv P w"
  shows "fd_sys_inv P w'"
proof -
  from assms(1) obtain m where m: "record_infos P infos (mctpInfoMap w) = Inr m"
    by (auto simp: handleMctpEndpoints_eq bindR_eq_Inr)
  let ?w1 = "w\<lparr>mctpInfoMap := m, queuedMctpInfos := queuedMctpInfos w @ [infos]\<rparr>"
  show ?thesis
  proof (cases "\<exists>c a t cur eids. setErotTimeHandle w = Suspended c a t cur eids")
    case True
    with assms(1) m have w': "w' = ?w1" by (auto simp: handleMctpEndpoints_eq Let_def)
    show ?thesis unfolding w'
      by (rule fd_sys_inv_cong [OF _ _ _ assms(2)]) (simp_all add: same_sockets_def)
  next
    case False
    let ?w2 = "?w1\<lparr>setErotTimeHandle := NoCoro, log := log w @ [IO_get_elapsed]\<rparr>"
    from False assms(1) m obtain t s w3 where task: "task_loop P t ?w2 = Inr (Some s, w3)"
      and w': "w' = suspend EndpointsTask t s w3"
      by (cases "setErotTimeHandle w")
        (auto simp: handleMctpEndpoints_eq handleMctpEndpointsTask_def Let_def bindR_eq_Inr
          split: option.splits sum.splits)
    from assms(2) False have "fd_inv P w" "all_closed w"
      by (auto simp: fd_sys_inv_def split: coro.splits)
    then have "fd_inv P ?w2" "all_closed ?w2"
      using fd_live_neutral [of "[IO_get_elapsed]" P "log w"]
      by (simp_all add: fd_inv_def all_closed_def sock_inv_def)
    from task_loop_fd [OF task this] w' show ?thesis by (simp add: suspend_fd)
  qed
qed

lemma handleTimeChange_fd:
  assumes "handleTimeChange P result now elapsed w = Inr w'" and "fd_sys_inv P w"
  shows "fd_sys_inv P w'"
proof (cases "w' = w")
  case True
  with assms(2) show ?thesis by simp
next
  case False
  with assms(1) obtain eids s w1 where
    set: "setTimeOnErots P (word_of_int elapsed) eids w = Inr (s, w1)" and
    w': "w' = (case s of Some x \<Rightarrow> suspend TimeChange (word_of_int elapsed) x w1
        | None \<Rightarrow> w1\<lparr>setErotTimeHandle := NoCoro\<rparr>)\<lparr>erotTimeSyncLast := now\<rparr>" and
    idle: "setErotTimeHandle w = NoCoro \<or> setErotTimeHandle w = Finished"
    by (auto simp: handleTimeChange_def bindR_eq_Inr Let_def split: if_splits coro.splits)
  from assms(2) idle have "fd_inv P w" "all_closed w" by (auto simp: fd_sys_inv_def)
  note S = setTimeOnErots_fd [OF set this]
  have last: "fd_sys_inv P (v\<lparr>erotTimeSyncLast := now\<rparr>)" if "fd_sys_inv P v" for v
    by (rule fd_sys_inv_cong [OF _ _ _ that]) (simp_all add: same_sockets_def)
  show ?thesis
    using S w' by (cases s) (auto intro!: last suspend_fd idle_fd)
qed

lemma same_sockets_trans: "same_sockets s s' \<Longrightarrow> same_sockets s' s'' \<Longrightarrow> same_sockets s s''"
  by (simp add: same_sockets_def)

lemma populate_same_sockets:
  "same_sockets s (snd r) \<Longrightarrow> same_sockets s (snd (populateMctpInfo interfaces r))"
  by (cases r, rule populateMctpInfo_cases [of interfaces "fst r" "snd r"])
    (auto simp: same_sockets_def registerMctpEndpoint_def)

lemma discoverEndpoints_fd:
  assumes "discoverEndpoints (erot_handlers P) interfaces w = Inr w'" and "fd_sys_inv P w"
  shows "fd_sys_inv P w'"
proof -
  obtain infos s where p: "populateMctpInfo interfaces ([], socks w) = (infos, s)" by (metis surj_pair)
  with assms(1) have h: "handleMctpEndpoints P infos (w\<lparr>socks := s\<rparr>) = Inr w'"
    by (auto simp: discoverEndpoints_def bindR_eq_Inr)
  have "same_sockets (socks w) s"
    using populate_same_sockets [of "socks w" "([], socks w)" interfaces] p
    by (simp add: same_sockets_def)
  then have "fd_sys_inv P (w\<lparr>socks := s\<rparr>)"
    by (intro fd_sys_inv_cong [OF _ _ _ assms(2)]) simp_all
  with h show ?thesis by (rule handleMctpEndpoints_fd)
qed

lemma MctpDiscovery_fd:
  assumes "MctpDiscovery (erot_handlers P) subtree getAll w = Inr w'" and "fd_sys_inv P w"
  shows "fd_sys_inv P w'"
proof (cases "\<exists>tree. subtree = Some tree \<and> tree \<noteq> []")
  case True
  then obtain tree where tree: "subtree = Some tree" "tree \<noteq> []" by blast
  obtain infos s where p: "fetch_objects getAll tree ([], socks w) = (infos, s)" by (metis surj_pair)
  with assms(1) tree have h: "handleMctpEndpoints P infos (w\<lparr>socks := s\<rparr>) = Inr w'"
    by (auto simp: MctpDiscovery_def bindR_eq_Inr)
  have "same_sockets (socks w) (snd (fetch_objects getAll tree ([], socks w)))"
    by (rule fetch_objects_keeps) (simp_all add: populate_same_sockets, simp add: same_sockets_def)
  with p have "fd_sys_inv P (w\<lparr>socks := s\<rparr>)"
    by (intro fd_sys_inv_cong [OF _ _ _ assms(2)]) simp_all
  with h show ?thesis by (rule handleMctpEndpoints_fd)
next
  case False
  with assms show ?thesis
    by (auto simp: MctpDiscovery_def bindR_eq_Inr intro: handleMctpEndpoints_fd
        split: option.splits if_splits)
qed

lemma handleReceivedMsg_fd:
  assumes "handleReceivedMsg P (erot_invoke P) ev w = Inr w'" and "fd_sys_inv P w"
  shows "fd_sys_inv P w'"
proof -
  have exit: "fd_sys_inv P (w\<lparr>log := log w @ [IO_event_exit n]\<rparr>)" for n
    by (rule fd_sys_inv_quiet [OF _ _ assms(2)]) (simp_all add: quiet_def same_sockets_def)
  from erot_fd.handleReceivedMsg_keeps [OF assms exit] show ?thesis .
qed

lemma retry_tick_quiet: "quiet w (retry_tick P key w)"
proof (cases "map_of (handlers w) key")
  case (Some e)
  then show ?thesis
    by (auto simp: retry_tick_def RetryTimer_callback_eq quiet_def same_sockets_def send_io_neutral)
qed (simp add: retry_tick_def)

lemma retry_tick_handle: "setErotTimeHandle (retry_tick P key w) = setErotTimeHandle w"
  by (auto simp: retry_tick_def upd_entry_def split: option.splits prod.splits)

lemma erot_step_fd: "erot_step P w ev w' \<Longrightarrow> fd_sys_inv P w \<Longrightarrow> fd_sys_inv P w'"
proof (induction rule: erot_step.induct)
  case (retried w key e w')
  then show ?case using fd_sys_inv_quiet [OF retry_tick_quiet retry_tick_handle] by blast
qed (auto intro: handleReceivedMsg_fd erot_fd.instanceIdExpiryCallBack_keeps
    erot_fd.removeRequestEntry_keeps discoverEndpoints_fd handleTimeChange_fd)

lemma reachable_fd: "erot_reachable P w \<Longrightarrow> fd_sys_inv P w"
proof (induction rule: erot_reachable.induct)
  case (start subtree getAll w)
  have "fd_sys_inv P world_init"
    by (simp add: world_init_def sock_init_def fd_sys_inv_def fd_inv_def all_closed_def sock_inv_def
        split: transport.splits)
  with start show ?case by (rule MctpDiscovery_fd)
next
  case (step w ev w')
  then show ?case by (blast intro: erot_step_fd)
qed

text \<open>
  C2: no descriptor leaks. In every state the daemon can reach, replaying all its system calls so far
  leaves open exactly the descriptors the socket handler owns, each once: for the demux transport
  those of its sockets, none whenever no chain of coroutines is suspended; for the in-kernel
  transport the one socket it opened, once it has, which stays open also when no chain is suspended.
\<close>

theorem reachable_descriptors_owned:
  assumes "erot_reachable P w"
  shows "case transport P of
      DaemonRequest \<Rightarrow>
        fd_live P (log w) = mset (map snd (socketInfoMap (socks w)))
        \<and> (case setErotTimeHandle w of
             Suspended c a t eid eids \<Rightarrow> True | _ \<Rightarrow> fd_live P (log w) = {#})
    | InKernelRequest \<Rightarrow>
        fd_live P (log w) = (if isFdValid (socks w) then {#kfd (socks w)#} else {#})"
  using reachable_fd [OF assms]
  by (auto simp: fd_sys_inv_def fd_inv_def sock_inv_def all_closed_def
      split: transport.splits coro.splits)

theorem reachable_descriptors_owned_witness:
  "fd_live (kind_platform DaemonRequest) (log sample_waiting) = {#7#}"
proof -
  have "transport (kind_platform DaemonRequest) = DaemonRequest" by (simp add: kind_platform_def)
  with reachable_descriptors_owned [OF sample_reachable] show ?thesis
    by (simp add: sample_waiting_def)
qed

end
