(* ===== verification/ErotLiveness.thy ===== *)
theory ErotLiveness
  imports ErotProgress ErotResources
begin

text \<open>
  Liveness of the ERoT time manager: a suspended chain of coroutines always waits on a request that
  is registered and will be started or given up; every time it is resumed it has less left to do;
  and a manager at rest holds no request, no identifier and no socket.
\<close>

section \<open>The work a chain has left\<close>

text \<open>
  The endpoints whose turn is still to come: the current one and those after it, and, for the
  discovery task, those of the lists queued behind the front one.
\<close>

definition chain_work :: "world \<Rightarrow> nat" where
  "chain_work w = (case setErotTimeHandle w of
     Suspended c a t eid eids \<Rightarrow> Suc (length eids)
       + (if c = EndpointsTask then sum_list (map length (tl (queuedMctpInfos w))) else 0)
   | _ \<Rightarrow> 0)"

lemma sum_list_drop: "sum_list (map length (drop n xs)) \<le> sum_list (map length xs)"
  by (metis append_take_drop_id le_add2 map_append sum_list_append)

lemma chain_work_suspended:
  assumes "infos # q = drop n qs" and "map fst infos = before @ eid # eids"
  shows "Suc (length eids) + sum_list (map length q) \<le> sum_list (map length qs)"
proof -
  have "length infos = length before + Suc (length eids)"
    using arg_cong [OF assms(2), of length] by simp
  then show ?thesis using sum_list_drop [of n qs] by (simp flip: assms(1))
qed

lemma erot_invoke_work:
  assumes "erot_invoke P b eid' r w = Inr w'" and "sys_inv w"
  shows "chain_work w' < chain_work w"
proof -
  from assms(1) obtain c a t eid eids where h: "setErotTimeHandle w = Suspended c a t eid eids"
    by (auto simp: erot_invoke_def split: coro.splits)
  with assms(1) obtain rc s w1 where
    res: "setTimeOnErots_resume P c t eid eids rc w = Inr (s, w1)" and
    after: "after_loop P c t (s, w1) = Inr w'"
    by (auto simp: erot_invoke_def bindR_eq_Inr split: if_splits)
  from res have loop: "erots_loop P t eids (report P eid rc w) = Inr (s, w1)"
    by (simp add: setTimeOnErots_resume_eq split: if_splits)
  have q1: "queuedMctpInfos w1 = queuedMctpInfos w"
    using erots_loop_frame [OF loop] report_frame(6) [of w P eid rc] by (simp add: same_queue_def)
  have core: "core_inv w1"
    using erots_loop_core_inv [OF loop report_core_inv] assms(2) by (simp add: sys_inv_def)
  show ?thesis
  proof (cases s)
    case (Some x)
    obtain a2 eid2 rest where x: "x = (a2, eid2, rest)" by (metis prod.collapse)
    from erots_loop_suspended [OF loop [unfolded Some x]] obtain before where
      "eids = before @ eid2 # rest" ..
    with Some x after h q1 show ?thesis
      by (auto simp: after_loop_def suspend_def chain_work_def)
  next
    case None
    show ?thesis
    proof (cases c)
      case TimeChange
      with None after h show ?thesis by (auto simp: after_loop_def chain_work_def)
    next
      case EndpointsTask
      let ?w2 = "w1\<lparr>queuedMctpInfos := tl (queuedMctpInfos w1)\<rparr>"
      from None EndpointsTask after obtain s2 w3 where task: "task_loop P t ?w2 = Inr (s2, w3)"
        and w': "w' = (case s2 of Some x \<Rightarrow> suspend c t x w3 | None \<Rightarrow> w3\<lparr>setErotTimeHandle := Finished\<rparr>)"
        by (auto simp: after_loop_def bindR_eq_Inr split: option.splits)
      have "core_inv ?w2" using core core_inv_cong [of ?w2 w1] by simp
      note T = task_loop_core_inv [OF task this]
      show ?thesis
      proof (cases s2)
        case None
        with w' h show ?thesis by (simp add: chain_work_def)
      next
        case (Some x)
        obtain a2 eid2 rest where x: "x = (a2, eid2, rest)" by (metis prod.collapse)
        from T Some x obtain infos q before where q: "queuedMctpInfos w3 = infos # q"
          and m: "map fst infos = before @ eid2 # rest" by auto
        from T q1 obtain n where n: "queuedMctpInfos w3 = drop n (tl (queuedMctpInfos w))" by auto
        from chain_work_suspended [OF _ m, of q n] q n
        have "Suc (length rest) + sum_list (map length q) \<le> sum_list (map length (tl (queuedMctpInfos w)))"
          by simp
        with Some x w' h q EndpointsTask show ?thesis by (simp add: chain_work_def suspend_def)
      qed
    qed
  qed
qed

text \<open>Since the state \<open>w0\<close>, the chain has not been resumed, or it has less to do than it had.\<close>

definition work_since :: "world \<Rightarrow> world \<Rightarrow> bool" where
  "work_since w0 w \<longleftrightarrow>
     setErotTimeHandle w = setErotTimeHandle w0 \<and> queuedMctpInfos w = queuedMctpInfos w0
     \<or> chain_work w < chain_work w0"

lemma work_since_refl [simp]: "work_since w w"
  by (simp add: work_since_def)

interpretation erot_work: response_contract "erot_invoke P" "\<lambda>w. sys_inv w \<and> work_since w0 w" for P w0
proof
  fix rh eid r w w' assume inv: "erot_invoke P rh eid r w = Inr w'" and I: "sys_inv w \<and> work_since w0 w"
  from erot_invoke_work [OF inv] I have "chain_work w' < chain_work w" by blast
  moreover from I have "chain_work w \<le> chain_work w0" by (auto simp: work_since_def chain_work_def split: coro.splits)
  ultimately show "sys_inv w' \<and> work_since w0 w'"
    using erot_invoke_inv [OF inv] I by (auto simp: work_since_def)
next
  have more: "work_since w0 w \<Longrightarrow> requester.more w' = requester.more w \<Longrightarrow> work_since w0 w'" for w w'
    using world_more [of w' w] by (auto simp: work_since_def chain_work_def split: coro.splits)
  show "sys_inv w \<and> work_since w0 w \<Longrightarrow>
      sys_inv (upd_entry key stop_entry w) \<and> work_since w0 (upd_entry key stop_entry w)" for w key
    using erot.stop_keeps more by auto
  show "sys_inv w \<and> work_since w0 w \<Longrightarrow> sys_inv (w\<lparr>handlers := AList.delete key (handlers w)\<rparr>)
      \<and> work_since w0 (w\<lparr>handlers := AList.delete key (handlers w)\<rparr>)" for w key
    using erot.delete_keeps more by auto
  show "free_id eid i w = Inr w' \<Longrightarrow> sys_inv w \<and> work_since w0 w \<Longrightarrow> sys_inv w' \<and> work_since w0 w'"
    for eid i w w'
    using erot.free_keeps [of eid i w w'] more [of w w'] by (auto dest!: handlers_free_id)
  show "runRegisteredRequest P' eid w = Inr (rc, w') \<Longrightarrow> sys_inv w \<and> work_since w0 w \<Longrightarrow>
      sys_inv w' \<and> work_since w0 w'" for P' eid rc w w'
    using erot.run_keeps [of P' eid w rc w'] more [of w w'] runRegisteredRequest_frame(3) by blast
  show "sys_inv w \<and> work_since w0 w \<Longrightarrow> sys_inv (w\<lparr>removeRequestContainer := c\<rparr>)
      \<and> work_since w0 (w\<lparr>removeRequestContainer := c\<rparr>)" for w c
    using erot.note_keeps more by auto
qed

lemma step_work_since:
  assumes "erot_step P w ev w'" and "sys_inv w" and "setErotTimeHandle w = Suspended c a t eid eids"
  shows "work_since w w' \<or> (\<exists>interfaces. ev = Added interfaces \<and> setErotTimeHandle w' = setErotTimeHandle w)"
  using assms(1)
proof (cases rule: erot_step.cases)
  case (received ev)
  have "sys_inv w \<and> work_since w w" using assms(2) by simp
  moreover have "sys_inv (w\<lparr>log := l\<rparr>) \<and> work_since w (w\<lparr>log := l\<rparr>)" for l
    using sys_inv_log [OF assms(2)] by (simp add: work_since_def)
  ultimately show ?thesis using erot_work.handleReceivedMsg_keeps [OF received(2)] by blast
next
  case (expired key e)
  with erot_work.instanceIdExpiryCallBack_keeps assms(2) work_since_refl show ?thesis by blast
next
  case (deferred key)
  with erot_work.removeRequestEntry_keeps assms(2) work_since_refl show ?thesis by blast
next
  case (retried key e)
  have "requester.more w' = requester.more w"
    unfolding retried(4) by (auto simp: retry_tick_def split: option.splits prod.splits)
  then show ?thesis using world_more [of w' w] by (simp add: work_since_def)
next
  case (added interfaces)
  obtain infos s where "populateMctpInfo interfaces ([], socks w) = (infos, s)" by (metis surj_pair)
  with added have "handleMctpEndpoints P infos (w\<lparr>socks := s\<rparr>) = Inr w'"
    by (auto simp: discoverEndpoints_def bindR_eq_Inr)
  with added(1) assms(3) show ?thesis by (auto simp: handleMctpEndpoints_eq bindR_eq_Inr Let_def)
next
  case (time_changed result now elapsed)
  with assms(3) have "w' = w" by (auto simp: handleTimeChange_def split: if_splits)
  then show ?thesis by simp
qed

section \<open>Properties\<close>

lemma sample_reliable: "reliable (kind_platform t)"
  by (simp add: reliable_def kind_platform_def)

lemma sample_orderly_waiting: "orderly_reachable (kind_platform DaemonRequest) sample_waiting"
proof (rule orderly_reachable.step)
  show "orderly_reachable (kind_platform DaemonRequest) world_init"
    by (rule orderly_reachable.start [of _ "Some []" "\<lambda>svc obj intf. None"]) (simp add: MctpDiscovery_def)
  show "erot_step (kind_platform DaemonRequest) world_init (Added sample_interfaces) sample_waiting"
    by (rule erot_step.added) (rule sample_discovery)
qed (simp add: orderly_def)

lemma sample_answer_step:
  "erot_step (kind_platform DaemonRequest) sample_waiting (Received sample_answer) sample_served"
  by (rule erot_step.received) (rule sample_answer_served)

text \<open>
  C4: no chain waits in vain. On a platform whose calls succeed, in every state reached without a
  stray response: a suspended chain's awaitable belongs to a registered request for the chain's
  current endpoint; every other request in the table is an expired one whose removal is due; and a
  request to that endpoint is running, or a removal that will start the next one is due, so that an
  answer, an expiry or a removal is always still to come.
\<close>

theorem waiting_chain_is_served:
  assumes "reliable P" and "orderly_reachable P w" and "setErotTimeHandle w = Suspended c a t eid eids"
  shows "\<exists>k. map_option e_handler (map_of (handlers w) k) = Some a \<and> key_eid k = eid
    \<and> keys w - set (removeRequestContainer w) = {k}
    \<and> (running w eid \<noteq> {} \<or> eid \<in> key_eid ` set (removeRequestContainer w))"
proof -
  from orderly_progress [OF assms(2,1)] have ok: "table_ok {} w"
    and waits: "chain_waits (set (removeRequestContainer w)) w" by (simp_all add: progress_inv_def)
  from waits assms(3) obtain k where k: "keys w - set (removeRequestContainer w) = {k}"
    "handler_at w k = Some a" "key_eid k = eid" by (auto simp: chain_waits_def)
  from k(1) have "k \<in> keys w" by blast
  with ok k(3) have "running w eid \<noteq> {} \<or> eid \<in> key_eid ` set (removeRequestContainer w)"
    by (auto simp: table_ok_def)
  with k show ?thesis by (auto simp: handler_at_def)
qed

theorem waiting_chain_is_served_witness:
  "\<exists>k. map_option e_handler (map_of (handlers sample_waiting) k) = Some 0 \<and> keys sample_waiting = {k}"
proof -
  have "setErotTimeHandle sample_waiting = Suspended EndpointsTask 0 1000 9 []"
    by (simp add: sample_waiting_def)
  note W = waiting_chain_is_served [OF sample_reliable sample_orderly_waiting this]
  have "keys sample_waiting - set (removeRequestContainer sample_waiting) = keys sample_waiting"
    by (simp add: sample_waiting_def world_init_def)
  with W show ?thesis by auto
qed

text \<open>
  C8: a chain comes to its end. Whatever callback the event loop runs while a chain is suspended,
  either the chain stays exactly where it is, the queue growing only when an object is added, or
  fewer endpoints are still to be served afterwards; so a chain is resumed at most as often as there
  are endpoints to serve.
\<close>

theorem resumed_chain_has_less_to_do:
  assumes "erot_reachable P w" and "erot_step P w ev w'"
    and "setErotTimeHandle w = Suspended c a t eid eids"
  shows "setErotTimeHandle w' = setErotTimeHandle w
      \<and> (queuedMctpInfos w' = queuedMctpInfos w \<or> (\<exists>interfaces. ev = Added interfaces))
    \<or> chain_work w' < chain_work w"
  using step_work_since [OF assms(2) reachable_sys_inv [OF assms(1)] assms(3)]
  by (auto simp: work_since_def)

theorem resumed_chain_has_less_to_do_witness:
  "chain_work sample_served < chain_work sample_waiting"
proof -
  have "setErotTimeHandle sample_waiting = Suspended EndpointsTask 0 1000 9 []"
    and "setErotTimeHandle sample_served \<noteq> setErotTimeHandle sample_waiting"
    by (simp_all add: sample_waiting_def sample_served_def)
  with resumed_chain_has_less_to_do [OF sample_reachable sample_answer_step] show ?thesis by blast
qed

text \<open>
  C6: a manager at rest holds nothing. On a platform whose calls succeed, in every state reached
  without a stray response in which no chain is suspended and no removal is due, the table of
  requests is empty, every identifier of every endpoint is free and no socket belongs to an endpoint.
  Replaying the system calls leaves no descriptor open in the build for the demux daemon; in the
  in-kernel build the one socket stays open from the first request on, and nothing else is open.
\<close>

theorem manager_at_rest_holds_nothing:
  assumes "reliable P" and "orderly_reachable P w" and "removeRequestContainer w = []"
    and "setErotTimeHandle w = NoCoro \<or> setErotTimeHandle w = Finished"
  shows "handlers w = [] \<and> (\<forall>eid. held (ids w) eid = {}) \<and> socketInfoMap (socks w) = []
    \<and> fd_live P (log w) =
        (case transport P of
           DaemonRequest \<Rightarrow> {#}
         | InKernelRequest \<Rightarrow> (if isFdValid (socks w) then {#kfd (socks w)#} else {#}))"
proof -
  from reachable_fd [OF orderly_erot_reachable [OF assms(2)]] assms(4)
  have s: "socketInfoMap (socks w) = []" and "sock_inv P (socks w) (log w)"
    by (auto simp: fd_sys_inv_def fd_inv_def all_closed_def)
  then have "fd_live P (log w) = (case transport P of DaemonRequest \<Rightarrow> {#}
      | InKernelRequest \<Rightarrow> (if isFdValid (socks w) then {#kfd (socks w)#} else {#}))"
    by (auto simp: sock_inv_def split: transport.splits)
  with s rest_table [OF assms] show ?thesis by simp
qed

lemma sample_orderly_served: "orderly_reachable (kind_platform DaemonRequest) sample_served"
proof -
  have "response_key (kind_platform DaemonRequest) sample_answer = Some sample_key"
    by (simp add: response_key_def sample_answer_def kind_platform_def message_key_def
        read_header_bytes read_byte_def messageType_def addExtTimestamp_header_def nvidiaMsgType_def
        addExtTimestamp_def)
  moreover have "sample_key \<in> keys sample_waiting" by (simp add: sample_waiting_def keys_def)
  ultimately have "orderly (kind_platform DaemonRequest) sample_waiting (Received sample_answer)"
    by (simp add: orderly_def stray_def)
  from orderly_reachable.step [OF sample_orderly_waiting sample_answer_step this] show ?thesis .
qed

theorem manager_at_rest_holds_nothing_witness:
  "held (ids sample_served) 9 = {} \<and> socketInfoMap (socks sample_served) = []
   \<and> fd_live (kind_platform DaemonRequest) (log sample_served) = {#}"
proof -
  have "transport (kind_platform DaemonRequest) = DaemonRequest" by (simp add: kind_platform_def)
  with manager_at_rest_holds_nothing [OF sample_reliable sample_orderly_served] show ?thesis
    by (simp add: sample_served_def sample_waiting_def world_init_def)
qed

end
