(* ===== verification/Transports.thy ===== *)
theory Transports
  imports ErotLiveness
begin

text \<open>
  The program is compiled for one of two transports: sockets of the demux daemon or the kernel's
  MCTP socket. The two instances of its templates give the same service: on platforms whose calls
  succeed and whose D-Bus services answer alike, a run over one transport is matched step by step
  by a run over the other, with the same messages sent to the same endpoints, the same timers
  armed, the same D-Bus calls made and the same state but for descriptors.
\<close>

section \<open>What the outside sees\<close>

text \<open>A message sent to an endpoint, a timer armed, or a call on D-Bus; sockets are not visible.\<close>

datatype observation = Sent u8 bytes | Armed io | Asked io

fun observe :: "io \<Rightarrow> observation list" where
  "observe (IO_sendmsg fd (tag # eid # ty # msg)) = [Sent eid msg]"
| "observe (IO_sendto fd eid msg) = [Sent eid msg]"
| "observe IO_retry_timer_start = [Armed IO_retry_timer_start]"
| "observe IO_expiry_timer_start = [Armed IO_expiry_timer_start]"
| "observe (IO_event_exit rc) = [Asked (IO_event_exit rc)]"
| "observe IO_get_elapsed = [Asked IO_get_elapsed]"
| "observe IO_get_managed_objects = [Asked IO_get_managed_objects]"
| "observe (IO_create_log a r) = [Asked (IO_create_log a r)]"
| "observe _ = []"

definition observed :: "io list \<Rightarrow> observation list" where
  "observed l = concat (map observe l)"

lemma observed_append [simp]: "observed (l @ l') = observed l @ observed l'"
  by (simp add: observed_def)

lemma observed_Nil [simp]: "observed [] = []"
  by (simp add: observed_def)

lemma observed_Cons [simp]: "observed (c # l) = observe c @ observed l"
  by (simp add: observed_def)

lemma observe_send [simp]: "observe (send_io P rq) = [Sent (rq_eid rq) (requestMsg rq)]"
  by (simp add: send_io_def split: transport.splits)

text \<open>
  Two platforms that differ in the transport and in the answers of the system, whose calls all
  succeed and whose D-Bus services give the same replies after the same observations.
\<close>

definition same_build :: "platform \<Rightarrow> platform \<Rightarrow> bool" where
  "same_build P P2 \<longleftrightarrow> key_order P2 = key_order P \<and> uuid_order P2 = uuid_order P
     \<and> path_filename P2 = path_filename P \<and> sync_interval P2 = sync_interval P"

definition same_replies :: "platform \<Rightarrow> platform \<Rightarrow> bool" where
  "same_replies P P2 \<longleftrightarrow> (\<forall>l l2. observed l2 = observed l \<longrightarrow>
     elapsed_reply P2 l2 = elapsed_reply P l \<and> managed_objects P2 l2 = managed_objects P l)"

definition twins :: "platform \<Rightarrow> platform \<Rightarrow> bool" where
  "twins P P2 \<longleftrightarrow> reliable P \<and> reliable P2 \<and> same_build P P2 \<and> same_replies P P2"

lemma twins_sym: "twins P P2 \<Longrightarrow> twins P2 P"
  unfolding twins_def same_build_def same_replies_def by metis

section \<open>States that look alike\<close>

definition erase_fd :: "nat entry \<Rightarrow> nat entry" where
  "erase_fd e = e\<lparr>e_request := (e_request e)\<lparr>rq_fd := 0\<rparr>\<rparr>"

fun erased :: "(RequestKey \<times> nat entry) list \<Rightarrow> (RequestKey \<times> nat entry) list" where
  "erased [] = []"
| "erased ((k, e) # xs) = (k, erase_fd e) # erased xs"

text \<open>Paths that fit \<open>sun_path\<close>; a longer one is undefined behaviour with the demux daemon.\<close>

definition short_paths :: "(u8 \<rightharpoonup> int \<times> int \<times> bytes) \<Rightarrow> bool" where
  "short_paths m \<longleftrightarrow> (\<forall>(type, protocol, path)\<in>ran m. length path \<le> sun_path_size)"

definition alike :: "world \<Rightarrow> world \<Rightarrow> bool" where
  "alike w w2 \<longleftrightarrow> erased (handlers w) = erased (handlers w2) \<and> ids w = ids w2
     \<and> removeRequestContainer w = removeRequestContainer w2
     \<and> requester.more w = requester.more w2
     \<and> eidToSockMap (socks w) = eidToSockMap (socks w2)
     \<and> observed (log w) = observed (log w2) \<and> short_paths (eidToSockMap (socks w))"

lemma alike_refl: "short_paths (eidToSockMap (socks w)) \<Longrightarrow> alike w w"
  by (simp add: alike_def)

lemma alike_sym: "alike w w2 \<Longrightarrow> alike w2 w"
  by (auto simp: alike_def)

lemma alike_members:
  assumes "alike w w2"
  shows "mctpInfoMap w2 = mctpInfoMap w" "queuedMctpInfos w2 = queuedMctpInfos w"
    "setErotTimeHandle w2 = setErotTimeHandle w" "erotTimeSyncLast w2 = erotTimeSyncLast w"
    "next_awaitable w2 = next_awaitable w"
  using world_more [of w2 w] assms by (simp_all add: alike_def)

lemma alike_own:
  assumes "alike w w2"
  shows "alike (w\<lparr>mctpInfoMap := m\<rparr>) (w2\<lparr>mctpInfoMap := m\<rparr>)"
    "alike (w\<lparr>queuedMctpInfos := q\<rparr>) (w2\<lparr>queuedMctpInfos := q\<rparr>)"
    "alike (w\<lparr>setErotTimeHandle := h\<rparr>) (w2\<lparr>setErotTimeHandle := h\<rparr>)"
    "alike (w\<lparr>erotTimeSyncLast := n\<rparr>) (w2\<lparr>erotTimeSyncLast := n\<rparr>)"
    "alike (w\<lparr>next_awaitable := a\<rparr>) (w2\<lparr>next_awaitable := a\<rparr>)"
  using assms by (cases w; cases w2; simp add: alike_def)+

text \<open>The table's operations do not look at descriptors.\<close>

lemma erase_fd_simps [simp]:
  "e_timer (erase_fd e) = e_timer e" "e_handler (erase_fd e) = e_handler e"
  by (simp_all add: erase_fd_def)

lemma erased_Nil [simp]: "erased xs = [] \<longleftrightarrow> xs = []" "[] = erased xs \<longleftrightarrow> xs = []"
  by (cases xs; auto)+

lemma erased_keys: "map fst (erased xs) = map fst xs"
  by (induction xs rule: erased.induct) auto

lemma erased_map: "erased xs = map (map_prod id erase_fd) xs"
  by (induction xs rule: erased.induct) auto

lemma map_of_erased: "map_of (erased xs) k = map_option erase_fd (map_of xs k)"
  by (induction xs) auto

lemma scan_erased: "scan_handlers eid (erased xs) acc = scan_handlers eid xs acc"
  by (induction eid xs acc rule: scan_handlers.induct) auto

lemma delete_erased: "AList.delete k (erased xs) = erased (AList.delete k xs)"
  by (induction xs) auto

lemma map_sort_key: "(\<And>x. g (h x) = f x) \<Longrightarrow> map h (sort_key f xs) = sort_key g (map h xs)"
proof (induction xs)
  case (Cons x xs)
  have "map h (insort_key f x ys) = insort_key g (h x) (map h ys)" for ys
    by (induction ys) (auto simp: Cons.prems)
  with Cons show ?case by simp
qed simp

lemma emplace_erased:
  "erased (hash_emplace r k e xs) = hash_emplace r k (erase_fd e) (erased xs)"
proof -
  note keys = erased_keys [of xs]
  have "fst ` set (erased xs) = fst ` set xs" by (metis keys set_map)
  then show ?thesis
    using map_sort_key [of "\<lambda>p. r (map fst xs @ [k]) (fst p)" "map_prod id erase_fd"
        "\<lambda>p. r (map fst xs @ [k]) (fst p)" "xs @ [(k, e)]"]
    unfolding hash_emplace_def keys by (simp add: erased_map)
qed

section \<open>The requester\<close>

text \<open>With every call succeeding, running an entry sends its message and arms both timers.\<close>

definition run_ios :: "platform \<Rightarrow> retry_request \<Rightarrow> io list" where
  "run_ios P rq = [send_io P rq] @ (if numRetries rq \<noteq> 0 then [IO_retry_timer_start] else [])
     @ [IO_expiry_timer_start]"

definition run_request :: "retry_request \<Rightarrow> retry_request" where
  "run_request rq = (if numRetries rq \<noteq> 0 then rq\<lparr>retry_timer := True\<rparr> else rq)"

lemma run_entry_eq:
  assumes "reliable P"
  shows "run_entry P eid key e w = Inr (0, upd_entry key
    (\<lambda>x. x\<lparr>e_request := run_request (e_request e), e_timer := True\<rparr>)
    (w\<lparr>log := log w @ run_ios P (e_request e)\<rparr>))"
proof -
  have "\<not> sys P l c < 0" for l c using assms by (simp add: reliable_def not_less)
  then show ?thesis
    by (simp add: run_entry_def RetryTimer_start_def request_send_def syscall_def Let_def
        run_request_def run_ios_def upd_entry_log upd_entry_twice)
qed

lemma observed_run_ios:
  "erase_fd e2 = erase_fd e \<Longrightarrow> observed (run_ios P2 (e_request e2)) = observed (run_ios P (e_request e))"
  by (cases e; cases e2; cases "e_request e"; cases "e_request e2")
    (auto simp: run_ios_def erase_fd_def)

lemma alike_upd:
  assumes "alike w w2" and "\<And>x y. erase_fd x = erase_fd y \<Longrightarrow> erase_fd (f x) = erase_fd (g y)"
  shows "alike (upd_entry key f w) (upd_entry key g w2)"
proof -
  have "erased (AList.map_entry key f xs) = erased (AList.map_entry key g ys)"
    if "erased xs = erased ys" for xs ys
    using that
  proof (induction xs arbitrary: ys)
    case (Cons x xs)
    then obtain y zs where ys: "ys = y # zs" by (cases x; cases ys; auto)
    with Cons.prems have "fst x = fst y" "erase_fd (snd x) = erase_fd (snd y)"
      "erased xs = erased zs" by (cases x; cases y; simp)+
    with Cons.IH [of zs] assms(2) ys show ?case by (cases x; cases y) auto
  qed simp
  with assms(1) show ?thesis by (auto simp: alike_def upd_entry_def)
qed

lemma alike_log:
  "alike w w2 \<Longrightarrow> observed l2 = observed l \<Longrightarrow> alike (w\<lparr>log := log w @ l\<rparr>) (w2\<lparr>log := log w2 @ l2\<rparr>)"
  by (auto simp: alike_def)

lemma alike_find:
  assumes "alike w w2"
  shows "map_option erase_fd (map_of (handlers w2) k) = map_option erase_fd (map_of (handlers w) k)"
  using assms by (simp flip: map_of_erased add: alike_def)

lemma alike_scan: "alike w w2 \<Longrightarrow> scan_handlers eid (handlers w2) acc = scan_handlers eid (handlers w) acc"
proof -
  assume "alike w w2"
  then have "erased (handlers w2) = erased (handlers w)" by (simp add: alike_def)
  then show ?thesis by (metis scan_erased)
qed

lemma run_alike:
  assumes "runRegisteredRequest P eid w = Inr (rc, w')" and "alike w w2" and "twins P P2"
  shows "\<exists>w2'. runRegisteredRequest P2 eid w2 = Inr (rc, w2') \<and> alike w' w2'"
proof -
  have rel: "reliable P" "reliable P2" using assms(3) by (simp_all add: twins_def)
  show ?thesis
  proof (cases "\<exists>key e. scan_handlers eid (handlers w) None = ToRun (Some key)
      \<and> map_of (handlers w) key = Some e")
    case True
    then obtain key e where k: "scan_handlers eid (handlers w) None = ToRun (Some key)"
      "map_of (handlers w) key = Some e" by blast
    from alike_find [OF assms(2), of key] k(2) obtain e2 where
      e2: "map_of (handlers w2) key = Some e2" "erase_fd e2 = erase_fd e" by auto
    let ?f = "\<lambda>e x. x\<lparr>e_request := run_request (e_request e), e_timer := True\<rparr>"
    from k assms(1) run_entry_eq [OF rel(1), of eid key e w]
    have rc: "rc = 0" and w': "w' = upd_entry key (?f e) (w\<lparr>log := log w @ run_ios P (e_request e)\<rparr>)"
      by (simp_all add: runRegisteredRequest_def)
    have "alike (w\<lparr>log := log w @ run_ios P (e_request e)\<rparr>) (w2\<lparr>log := log w2 @ run_ios P2 (e_request e2)\<rparr>)"
      by (rule alike_log [OF assms(2) observed_run_ios [OF e2(2)]])
    then have "alike w' (upd_entry key (?f e2) (w2\<lparr>log := log w2 @ run_ios P2 (e_request e2)\<rparr>))"
      unfolding w'
    proof (rule alike_upd)
      fix x y assume "erase_fd x = erase_fd y"
      then show "erase_fd (?f e x) = erase_fd (?f e2 y)"
        using e2(2)
        by (cases x; cases y; cases e; cases e2; cases "e_request e"; cases "e_request e2")
          (auto simp: erase_fd_def run_request_def)
    qed
    moreover have "runRegisteredRequest P2 eid w2 = Inr (0,
        upd_entry key (?f e2) (w2\<lparr>log := log w2 @ run_ios P2 (e_request e2)\<rparr>))"
      using k(1) e2(1) alike_scan [OF assms(2), of eid None] run_entry_eq [OF rel(2), of eid key e2 w2]
      by (simp add: runRegisteredRequest_def)
    ultimately show ?thesis using rc by blast
  next
    case False
    with assms(1) have "rc = 0" "w' = w"
      by (auto simp: runRegisteredRequest_def split: scan.splits option.splits)
    moreover have "map_of (handlers w2) k = None" if "map_of (handlers w) k = None" for k
      using alike_find [OF assms(2), of k] that by simp
    then have "runRegisteredRequest P2 eid w2 = Inr (0, w2)"
      using False alike_scan [OF assms(2), of eid None]
      by (auto simp: runRegisteredRequest_def split: scan.splits option.splits)
    ultimately show ?thesis using assms(2) by blast
  qed
qed

lemma free_id_alike:
  assumes "free_id eid i w = Inr w'" and "alike w w2"
  shows "\<exists>w2'. free_id eid i w2 = Inr w2' \<and> alike w' w2'"
  using assms by (auto simp: free_id_def bindR_eq_Inr alike_def)

lemma registerRequest_alike:
  assumes "registerRequest P eid i ty command msg rh w = Inr (rc, w')" and "alike w w2" and "twins P P2"
  shows "\<exists>w2'. registerRequest P2 eid i ty command msg rh w2 = Inr (rc, w2') \<and> alike w' w2'"
proof -
  obtain fd s where s: "getSocket eid (socks w) = (fd, s)" by (metis surj_pair)
  obtain fd2 s2 where s2: "getSocket eid (socks w2) = (fd2, s2)" by (metis surj_pair)
  let ?e = "\<lambda>fd. \<lparr>e_request = \<lparr>rq_fd = fd, rq_eid = eid, requestMsg = msg,
      numRetries = numCommandRetries, retry_timer = False\<rparr>, e_handler = rh, e_timer = False\<rparr>"
  let ?w = "\<lambda>P s fd w. w\<lparr>socks := s, handlers := hash_emplace (key_order P)
      (RequestKey eid i ty command) (?e fd) (handlers w)\<rparr>"
  have "key_order P2 = key_order P" using assms(3) by (simp add: twins_def same_build_def)
  moreover have "erase_fd (?e fd) = erase_fd (?e fd2)" by (simp add: erase_fd_def)
  ultimately have "alike (?w P s fd w) (?w P2 s2 fd2 w2)"
    using assms(2) getSocket_same [OF s] getSocket_same [OF s2]
    by (auto simp: alike_def emplace_erased)
  from run_alike [OF _ this assms(3)] assms(1) s s2 show ?thesis
    by (simp add: registerRequest_def)
qed

section \<open>Sockets\<close>

text \<open>Opening sockets never fails here and shows nothing; it fills in unknown endpoints.\<close>

fun fill_params :: "u8 list \<Rightarrow> (u8 \<rightharpoonup> int \<times> int \<times> bytes) \<Rightarrow> (u8 \<rightharpoonup> int \<times> int \<times> bytes)" where
  "fill_params [] m = m"
| "fill_params (eid # eids) m = fill_params eids (if m eid = None then m(eid \<mapsto> (0, 0, [])) else m)"

lemma short_paths_fill: "short_paths m \<Longrightarrow> short_paths (fill_params eids m)"
proof (induction eids m rule: fill_params.induct)
  case (2 eid eids m)
  have "short_paths (m(eid \<mapsto> (0, 0, [])))"
    using 2(2) by (auto simp: short_paths_def ran_def)
  with 2 show ?case by simp
qed simp

lemma initSocket_ok:
  assumes "reliable P" and "length path \<le> sun_path_size"
  shows "\<exists>fd s' cs. initSocket P ty pr path s l = Inr (fd, s', l @ cs)
    \<and> eidToSockMap s' = eidToSockMap s \<and> observed cs = []"
proof -
  have "\<not> sys P l c < 0" for l c using assms(1) by (simp add: reliable_def not_less)
  with assms(2) show ?thesis
    by (cases "transport P")
      (auto simp: initSocket_def Daemon_initSocket_def InKernel_initSocket_def syscall_def Let_def not_less)
qed

lemma activateSockets_ok:
  assumes "reliable P" and "short_paths (eidToSockMap s)"
  shows "\<exists>s' cs. activateSockets P eids s l = Inr (0, s', l @ cs)
    \<and> eidToSockMap s' = fill_params eids (eidToSockMap s) \<and> observed cs = []"
  using assms(2)
proof (induction eids arbitrary: s l)
  case (Cons eid eids)
  obtain ty pr path s1 where sp: "sock_params eid s = ((ty, pr, path), s1)" by (metis surj_pair)
  then have m1: "eidToSockMap s1 = fill_params [eid] (eidToSockMap s)"
    and path: "length path \<le> sun_path_size"
    using Cons.prems by (auto simp: sock_params_def short_paths_def ran_def split: option.splits)
  have short: "short_paths (eidToSockMap s1)"
    unfolding m1 by (rule short_paths_fill [OF Cons.prems])
  have reg: "eidToSockMap (registerEndpoint eid fd s') = eidToSockMap s'" for fd s'
    by (simp add: registerEndpoint_def)
  show ?case
  proof (cases "map_of (socketInfoMap s1) path")
    case (Some fd)
    from Cons.IH [of "registerEndpoint eid fd s1" l] short Some sp m1 show ?thesis by (simp add: reg)
  next
    case None
    from initSocket_ok [OF assms(1) path, of ty pr s1 l] obtain fd s2 cs where
      init: "initSocket P ty pr path s1 l = Inr (fd, s2, l @ cs)" "eidToSockMap s2 = eidToSockMap s1"
      "observed cs = []" by blast
    let ?s3 = "if fd < 0 then s2 else registerEndpoint eid fd s2"
    have s3: "eidToSockMap ?s3 = eidToSockMap s1" by (simp add: reg init(2))
    with Cons.IH [of ?s3 "l @ cs"] short obtain s' cs' where
      "activateSockets P eids ?s3 (l @ cs) = Inr (0, s', (l @ cs) @ cs')"
      "eidToSockMap s' = fill_params eids (eidToSockMap s1)" "observed cs' = []"
      unfolding s3 by blast
    with None sp init m1 show ?thesis
      by (intro exI [of _ s'] exI [of _ "cs @ cs'"]) (auto split: if_splits)
  qed
qed simp

lemma close_alike:
  assumes "alike w w2" shows "alike (close_sockets w) (close_sockets w2)"
proof -
  have "observed (map (IO_close \<circ> snd) xs) = []" for xs :: "(bytes \<times> int) list"
    by (induction xs) simp_all
  with assms show ?thesis
    by (auto simp: alike_def close_sockets_def deactivateSockets_def clearMctpEndpoints_def)
qed

section \<open>The manager\<close>

lemma report_alike:
  assumes "alike w w2" and "twins P P2"
  shows "alike (report P eid rc w) (report P2 eid rc w2)"
proof -
  note M = alike_members [OF assms(1)]
  have "observed (log w2) = observed (log w)" using assms(1) by (simp add: alike_def)
  with assms(2) have r: "managed_objects P2 (log w2) = managed_objects P (log w)"
    by (simp add: twins_def same_replies_def)
  have f: "path_filename P2 = path_filename P" using assms(2) by (simp add: twins_def same_build_def)
  have n: "erot_name P2 u objects = erot_name P u objects" for u objects
    by (induction objects) (auto simp: f split: option.splits sum.splits)
  have "alike (w\<lparr>log := log w @ l\<rparr>) (w2\<lparr>log := log w2 @ l\<rparr>)" for l
    by (rule alike_log [OF assms(1) refl])
  from this [of "[_]"] this [of "[_, _]"] alike_own(1) [OF this [of "[_]"]] assms(1) show ?thesis
    by (simp add: report_def createErrorLog_def r n M Let_def split: option.splits)
qed

lemma await_alike:
  assumes "await_suspend P eid q w = Inr (r, w')" and "alike w w2" and "twins P P2"
  shows "\<exists>w2'. await_suspend P2 eid q w2 = Inr (r, w2') \<and> alike w' w2'"
proof -
  note M = alike_members [OF assms(2)]
  from assms(1) obtain key rc where key: "request_key eid q = Inr key" and
    reg: "registerRequest P eid (key_instanceId key) (key_type key) (key_command key) q
      (next_awaitable w) (w\<lparr>next_awaitable := Suc (next_awaitable w)\<rparr>) = Inr (rc, w')"
    and r: "r = (if (word_of_int rc :: u8) \<noteq> 0 then Returned (word_of_int rc)
      else Awaits (next_awaitable w))"
    by (auto simp: await_suspend_def Let_def bindR_eq_Inr split: if_splits)
  from registerRequest_alike [OF reg alike_own(5) [OF assms(2)] assms(3)] obtain w2' where
    "registerRequest P2 eid (key_instanceId key) (key_type key) (key_command key) q
      (next_awaitable w) (w2\<lparr>next_awaitable := Suc (next_awaitable w)\<rparr>) = Inr (rc, w2')"
    and "alike w' w2'" by blast
  with key r M(5) show ?thesis by (simp add: await_suspend_def Let_def)
qed

lemma start_alike:
  assumes "setTimeOnErot_start P eid t w = Inr (r, w')" and "alike w w2" and "twins P P2"
  shows "\<exists>w2'. setTimeOnErot_start P2 eid t w2 = Inr (r, w2') \<and> alike w' w2'"
proof -
  have ids: "ids w2 = ids w" using assms(2) by (simp add: alike_def)
  have m: "alike (w\<lparr>ids := m\<rparr>) (w2\<lparr>ids := m\<rparr>)" for m using assms(2) by (auto simp: alike_def)
  from assms(1) m await_alike [OF _ m assms(3)] show ?thesis
    by (auto simp: setTimeOnErot_start_def ids split: prod.splits sum.splits)
qed

lemma erots_loop_alike:
  "erots_loop P t eids w = Inr (s, w') \<Longrightarrow> alike w w2 \<Longrightarrow> twins P P2 \<Longrightarrow>
     \<exists>w2'. erots_loop P2 t eids w2 = Inr (s, w2') \<and> alike w' w2'"
proof (induction eids arbitrary: w w2)
  case Nil
  then show ?case by (auto intro: close_alike)
next
  case (Cons x eids)
  from Cons.prems(1) obtain r w1 where st: "setTimeOnErot_start P x t w = Inr (r, w1)"
    and rest: "(case r of Awaits a \<Rightarrow> Inr (Some (a, x, eids), w1)
       | Returned rc \<Rightarrow> erots_loop P t eids (report P x rc w1)) = Inr (s, w')"
    by (auto simp: bindR_eq_Inr)
  from start_alike [OF st Cons.prems(2,3)] obtain w1' where
    st2: "setTimeOnErot_start P2 x t w2 = Inr (r, w1')" and a1: "alike w1 w1'" by blast
  show ?case
  proof (cases r)
    case (Returned rc)
    with rest have "erots_loop P t eids (report P x rc w1) = Inr (s, w')" by simp
    from Cons.IH [OF this report_alike [OF a1 Cons.prems(3)] Cons.prems(3)] st2 Returned
    show ?thesis by auto
  qed (use rest st2 a1 in auto)
qed

lemma setTimeOnErots_alike:
  assumes "setTimeOnErots P t eids w = Inr (s, w')" and "alike w w2" and "twins P P2"
  shows "\<exists>w2'. setTimeOnErots P2 t eids w2 = Inr (s, w2') \<and> alike w' w2'"
proof (cases "eids = []")
  case True
  with assms show ?thesis by (auto simp: setTimeOnErots_def)
next
  case False
  have rel: "reliable P" "reliable P2" using assms(3) by (simp_all add: twins_def)
  have short: "short_paths (eidToSockMap (socks w))" "short_paths (eidToSockMap (socks w2))"
    using assms(2) by (auto simp: alike_def)
  from activateSockets_ok [OF rel(1) short(1)] obtain k cs where
    k: "activateSockets P eids (socks w) (log w) = Inr (0, k, log w @ cs)"
      "eidToSockMap k = fill_params eids (eidToSockMap (socks w))" "observed cs = []" by blast
  from activateSockets_ok [OF rel(2) short(2)] obtain k2 cs2 where
    k2: "activateSockets P2 eids (socks w2) (log w2) = Inr (0, k2, log w2 @ cs2)"
      "eidToSockMap k2 = fill_params eids (eidToSockMap (socks w2))" "observed cs2 = []" by blast
  from False assms(1) k(1) have
    "erots_loop P t eids (w\<lparr>socks := k, log := log w @ cs\<rparr>) = Inr (s, w')"
    by (simp add: setTimeOnErots_def)
  moreover have "alike (w\<lparr>socks := k, log := log w @ cs\<rparr>) (w2\<lparr>socks := k2, log := log w2 @ cs2\<rparr>)"
    using assms(2) k(2,3) k2(2,3) short_paths_fill [OF short(1)] by (auto simp: alike_def)
  ultimately show ?thesis
    using erots_loop_alike assms(3) False k2(1) by (simp add: setTimeOnErots_def)
qed

lemma task_loop_alike:
  "task_loop P t w = Inr (s, w') \<Longrightarrow> alike w w2 \<Longrightarrow> twins P P2 \<Longrightarrow>
     \<exists>w2'. task_loop P2 t w2 = Inr (s, w2') \<and> alike w' w2'"
proof (induction P t w arbitrary: w2 rule: task_loop.induct)
  case (1 P t w)
  have q: "queuedMctpInfos w2 = queuedMctpInfos w" using alike_members [OF 1(3)] by simp
  show ?case
  proof (cases "queuedMctpInfos w")
    case Nil
    with 1(2,3) q show ?thesis by (subst (asm) task_loop.simps, subst task_loop.simps) auto
  next
    case (Cons infos rest)
    with 1(2) obtain s1 w1 where set: "setTimeOnErots P t (map fst infos) w = Inr (s1, w1)"
      and cont: "(case s1 of Some x \<Rightarrow> Inr (Some x, w1)
        | None \<Rightarrow> task_loop P t (w1\<lparr>queuedMctpInfos := tl (queuedMctpInfos w1)\<rparr>)) = Inr (s, w')"
      by (subst (asm) task_loop.simps) (auto simp: bindR_eq_Inr)
    from setTimeOnErots_alike [OF set 1(3,4)] obtain w1' where
      set2: "setTimeOnErots P2 t (map fst infos) w2 = Inr (s1, w1')" and a: "alike w1 w1'" by blast
    show ?thesis
    proof (cases s1)
      case (Some x)
      with cont set2 a Cons q show ?thesis by (subst task_loop.simps) auto
    next
      case None
      let ?f = "\<lambda>w :: world. w\<lparr>queuedMctpInfos := tl (queuedMctpInfos w)\<rparr>"
      have "alike (?f w1) (?f w1')" using alike_own(2) [OF a] alike_members(2) [OF a] by simp
      with 1(1) [OF Cons set refl None _ this 1(4)] None cont obtain w2' where
        "task_loop P2 t (?f w1') = Inr (s, w2')" "alike w' w2'" by auto
      with None set2 Cons q show ?thesis by (subst task_loop.simps) simp
    qed
  qed
qed

lemma suspend_alike: "alike w w2 \<Longrightarrow> alike (suspend c t x w) (suspend c t x w2)"
  by (cases x) (auto simp: suspend_def intro: alike_own)

lemma after_loop_alike:
  assumes "after_loop P c t (s, w) = Inr w'" and "alike w w2" and "twins P P2"
  shows "\<exists>w2'. after_loop P2 c t (s, w2) = Inr w2' \<and> alike w' w2'"
proof (cases "s = None \<and> c = EndpointsTask")
  case True
  let ?f = "\<lambda>w :: world. w\<lparr>queuedMctpInfos := tl (queuedMctpInfos w)\<rparr>"
  have a: "alike (?f w) (?f w2)" using alike_own(2) [OF assms(2)] alike_members(2) [OF assms(2)] by simp
  from True assms(1) obtain s1 w1 where task: "task_loop P t (?f w) = Inr (s1, w1)"
    and w': "w' = (case s1 of Some x \<Rightarrow> suspend c t x w1 | None \<Rightarrow> w1\<lparr>setErotTimeHandle := Finished\<rparr>)"
    by (auto simp: after_loop_def bindR_eq_Inr split: option.splits)
  from task_loop_alike [OF task a assms(3)] obtain w1' where
    "task_loop P2 t (?f w2) = Inr (s1, w1')" "alike w1 w1'" by blast
  with True w' show ?thesis
    by (auto simp: after_loop_def split: option.splits intro: suspend_alike alike_own)
next
  case False
  with assms(1,2) show ?thesis
    by (auto simp: after_loop_def split: option.splits caller.splits intro: suspend_alike alike_own)
qed

lemma erot_invoke_alike:
  assumes "erot_invoke P b eid' r w = Inr w'" and "alike w w2" and "twins P P2"
  shows "\<exists>w2'. erot_invoke P2 b eid' r w2 = Inr w2' \<and> alike w' w2'"
proof -
  have h2: "setErotTimeHandle w2 = setErotTimeHandle w" using alike_members [OF assms(2)] by simp
  from assms(1) obtain c t eid eids where h: "setErotTimeHandle w = Suspended c b t eid eids"
    by (auto simp: erot_invoke_def split: coro.splits if_splits)
  with assms(1) obtain rc s w1 where fin: "setTimeOnErot_finish r = Inr rc" and
    res: "setTimeOnErots_resume P c t eid eids rc w = Inr (s, w1)" and
    after: "after_loop P c t (s, w1) = Inr w'"
    by (auto simp: erot_invoke_def bindR_eq_Inr)
  from res have loop: "erots_loop P t eids (report P eid rc w) = Inr (s, w1)"
    and ok: "\<not> (c = TimeChange \<and> (rc \<noteq> 0 \<or> eids \<noteq> []))"
    by (simp_all add: setTimeOnErots_resume_eq split: if_splits)
  from erots_loop_alike [OF loop report_alike [OF assms(2,3)] assms(3)] obtain w1' where
    "erots_loop P2 t eids (report P2 eid rc w2) = Inr (s, w1')" and a: "alike w1 w1'" by blast
  with ok have res2: "setTimeOnErots_resume P2 c t eid eids rc w2 = Inr (s, w1')"
    by (simp add: setTimeOnErots_resume_eq)
  from after_loop_alike [OF after a assms(3)] h h2 fin res2 show ?thesis
    by (auto simp: erot_invoke_def)
qed

section \<open>The callbacks\<close>

lemma stop_alike: "alike w w2 \<Longrightarrow> alike (upd_entry key stop_entry w) (upd_entry key stop_entry w2)"
proof (erule alike_upd)
  fix x y assume "erase_fd x = erase_fd y"
  then show "erase_fd (stop_entry x) = erase_fd (stop_entry y)"
    by (cases x; cases y; cases "e_request x"; cases "e_request y")
      (auto simp: erase_fd_def stop_entry_def RetryTimer_stop_def)
qed

lemma delete_alike:
  assumes "alike w w2"
  shows "alike (w\<lparr>handlers := AList.delete key (handlers w)\<rparr>) (w2\<lparr>handlers := AList.delete key (handlers w2)\<rparr>)"
  using assms by (auto simp: alike_def simp flip: delete_erased)

lemma alike_entry:
  assumes "alike w w2" and "map_of (handlers w) key = Some e"
  obtains e2 where "map_of (handlers w2) key = Some e2" "erase_fd e2 = erase_fd e"
    "e_handler e2 = e_handler e" "e_timer e2 = e_timer e"
proof -
  from alike_find [OF assms(1), of key] assms(2) obtain e2 where
    "map_of (handlers w2) key = Some e2" "erase_fd e2 = erase_fd e" by auto
  then show ?thesis using that erase_fd_simps by metis
qed

lemma run_end_alike:
  assumes "bindR (runRegisteredRequest P eid w) (\<lambda>(rc, w3). Inr w3) = Inr w'" and "alike w w2"
    and "twins P P2"
  shows "\<exists>w2'. bindR (runRegisteredRequest P2 eid w2) (\<lambda>(rc, w3). Inr w3) = Inr w2' \<and> alike w' w2'"
proof -
  from assms(1) obtain rc where "runRegisteredRequest P eid w = Inr (rc, w')" by (auto simp: bindR_eq_Inr)
  from run_alike [OF this assms(2,3)] show ?thesis by auto
qed

lemma handleResponse_alike:
  assumes "handleResponse P (erot_invoke P) key msg len w = Inr w'" and "alike w w2" and "twins P P2"
  shows "\<exists>w2'. handleResponse P2 (erot_invoke P2) key msg len w2 = Inr w2' \<and> alike w' w2'"
proof (cases "map_of (handlers w) key")
  case None
  with alike_find [OF assms(2), of key] have n2: "map_of (handlers w2) key = None" by simp
  from None assms(1) obtain w1 where f: "free_id (key_eid key) (key_instanceId key) w = Inr w1"
    and run: "bindR (runRegisteredRequest P (key_eid key) w1) (\<lambda>(rc, w3). Inr w3) = Inr w'"
    by (auto simp: handleResponse_def bindR_eq_Inr)
  from free_id_alike [OF f assms(2)] obtain w1' where
    "free_id (key_eid key) (key_instanceId key) w2 = Inr w1'" and a: "alike w1 w1'" by blast
  with n2 run_end_alike [OF run a assms(3)] show ?thesis by (auto simp: handleResponse_def)
next
  case (Some e)
  from alike_entry [OF assms(2) Some] obtain e2 where
    e2: "map_of (handlers w2) key = Some e2" "e_handler e2 = e_handler e" by metis
  from Some assms(1) obtain w1 w3 where
    f: "free_id (key_eid key) (key_instanceId key) (upd_entry key stop_entry w) = Inr w1" and
    inv: "erot_invoke P (e_handler e) (key_eid key) (Some (msg, len))
      (w1\<lparr>handlers := AList.delete key (handlers w1)\<rparr>) = Inr w3" and
    run: "bindR (runRegisteredRequest P (key_eid key) w3) (\<lambda>(rc, w3). Inr w3) = Inr w'"
    by (auto simp: handleResponse_def bindR_eq_Inr)
  from free_id_alike [OF f stop_alike [OF assms(2)]] obtain w1' where
    f2: "free_id (key_eid key) (key_instanceId key) (upd_entry key stop_entry w2) = Inr w1'"
    and a: "alike w1 w1'" by blast
  from erot_invoke_alike [OF inv delete_alike [OF a] assms(3)] obtain w3' where
    inv2: "erot_invoke P2 (e_handler e) (key_eid key) (Some (msg, len))
      (w1'\<lparr>handlers := AList.delete key (handlers w1')\<rparr>) = Inr w3'" and a3: "alike w3 w3'" by blast
  from run_end_alike [OF run a3 assms(3)] e2 f2 inv2 show ?thesis by (auto simp: handleResponse_def)
qed

lemma expiry_alike:
  assumes "instanceIdExpiryCallBack (erot_invoke P) key w = Inr w'" and "alike w w2" and "twins P P2"
  shows "\<exists>w2'. instanceIdExpiryCallBack (erot_invoke P2) key w2 = Inr w2' \<and> alike w' w2'"
proof -
  let ?f = "\<lambda>v. v\<lparr>removeRequestContainer := (if key \<in> set (removeRequestContainer v)
    then removeRequestContainer v else removeRequestContainer v @ [key])\<rparr>"
  from assms(1) obtain e w1 where e: "map_of (handlers w) key = Some e"
    and inv: "erot_invoke P (e_handler e) (key_eid key) None (upd_entry key stop_entry w) = Inr w1"
    and w': "w' = ?f w1"
    by (auto simp: instanceIdExpiryCallBack_def bindR_eq_Inr split: option.splits)
  from alike_entry [OF assms(2) e] obtain e2 where
    e2: "map_of (handlers w2) key = Some e2" "e_handler e2 = e_handler e" by metis
  from erot_invoke_alike [OF inv stop_alike [OF assms(2)] assms(3)] obtain w1' where
    inv2: "erot_invoke P2 (e_handler e) (key_eid key) None (upd_entry key stop_entry w2) = Inr w1'"
    and a: "alike w1 w1'" by blast
  have "alike (?f w1) (?f w1')" using a by (auto simp: alike_def)
  with e2 inv2 w' show ?thesis by (auto simp: instanceIdExpiryCallBack_def)
qed

lemma removal_alike:
  assumes "removeRequestEntry P key w = Inr w'" and "alike w w2" and "twins P P2"
  shows "\<exists>w2'. removeRequestEntry P2 key w2 = Inr w2' \<and> alike w' w2'"
proof -
  have c: "removeRequestContainer w2 = removeRequestContainer w" using assms(2) by (simp add: alike_def)
  let ?f = "\<lambda>v. v\<lparr>handlers := AList.delete key (handlers v),
    removeRequestContainer := remove1 key (removeRequestContainer v)\<rparr>"
  show ?thesis
  proof (cases "key \<in> set (removeRequestContainer w)")
    case True
    with assms(1) obtain w1 where f: "free_id (key_eid key) (key_instanceId key) w = Inr w1"
      and run: "bindR (runRegisteredRequest P (key_eid key) (?f w1)) (\<lambda>(rc, w3). Inr w3) = Inr w'"
      by (auto simp: removeRequestEntry_def bindR_eq_Inr)
    from free_id_alike [OF f assms(2)] obtain w1' where
      f2: "free_id (key_eid key) (key_instanceId key) w2 = Inr w1'" and a: "alike w1 w1'" by blast
    have "alike (?f w1) (?f w1')" using delete_alike [OF a, of key] a by (auto simp: alike_def)
    from run_end_alike [OF run this assms(3)] True c f2 show ?thesis
      by (auto simp: removeRequestEntry_def)
  next
    case False
    with assms(1) have "bindR (runRegisteredRequest P (key_eid key) w) (\<lambda>(rc, w3). Inr w3) = Inr w'"
      by (simp add: removeRequestEntry_def)
    from run_end_alike [OF this assms(2,3)] False c show ?thesis by (simp add: removeRequestEntry_def)
  qed
qed

lemma retry_tick_alike:
  assumes "alike w w2"
  shows "alike (retry_tick P key w) (retry_tick P2 key w2)"
proof (cases "map_of (handlers w) key")
  case None
  with alike_find [OF assms, of key] assms show ?thesis by (simp add: retry_tick_def)
next
  case (Some e)
  from alike_entry [OF assms Some] obtain e2 where
    e2: "map_of (handlers w2) key = Some e2" "erase_fd e2 = erase_fd e" by metis
  let ?rq = "\<lambda>rq. if numRetries rq \<noteq> 0 then rq\<lparr>numRetries := numRetries rq - 1\<rparr>
    else rq\<lparr>numRetries := -1, retry_timer := False\<rparr>"
  let ?l = "\<lambda>P rq. if numRetries rq \<noteq> 0 then [send_io P rq] else []"
  have t: "retry_tick P key w = upd_entry key (\<lambda>x. x\<lparr>e_request := ?rq (e_request e)\<rparr>)
      (w\<lparr>log := log w @ ?l P (e_request e)\<rparr>)"
    if "map_of (handlers w) key = Some e" for P e and w :: world
    using that by (simp add: retry_tick_def RetryTimer_callback_eq)
  have r: "numRetries (e_request e2) = numRetries (e_request e)"
    "requestMsg (e_request e2) = requestMsg (e_request e)" "rq_eid (e_request e2) = rq_eid (e_request e)"
    using e2(2) by (cases e; cases e2; cases "e_request e"; cases "e_request e2"; simp add: erase_fd_def)+
  show ?thesis unfolding t [OF Some] t [OF e2(1)]
  proof (rule alike_upd [OF alike_log [OF assms]])
    show "observed (?l P2 (e_request e2)) = observed (?l P (e_request e))" by (simp add: r)
    show "erase_fd (x\<lparr>e_request := ?rq (e_request e)\<rparr>) = erase_fd (y\<lparr>e_request := ?rq (e_request e2)\<rparr>)"
      if "erase_fd x = erase_fd y" for x y
      using that e2(2)
      by (cases x; cases y; cases e; cases e2; cases "e_request e"; cases "e_request e2")
        (auto simp: erase_fd_def)
  qed
qed

lemma handleMctpEndpoints_alike:
  assumes "handleMctpEndpoints P infos w = Inr w'" and "alike w w2" and "twins P P2"
  shows "\<exists>w2'. handleMctpEndpoints P2 infos w2 = Inr w2' \<and> alike w' w2'"
proof -
  note M = alike_members [OF assms(2)]
  have "uuid_order P2 = uuid_order P" using assms(3) by (simp add: twins_def same_build_def)
  then have rec: "record_infos P2 is m = record_infos P is m" for "is" m
    by (induction P "is" m rule: record_infos.induct) (auto split: option.splits cong: bindR_cong)
  from assms(1) obtain m where m: "record_infos P infos (mctpInfoMap w) = Inr m"
    by (auto simp: handleMctpEndpoints_eq bindR_eq_Inr)
  let ?f = "\<lambda>v :: world. v\<lparr>mctpInfoMap := m, queuedMctpInfos := queuedMctpInfos w @ [infos]\<rparr>"
  have a: "alike (?f w) (?f w2)" by (intro alike_own assms(2))
  show ?thesis
  proof (cases "\<exists>c a t cur eids. setErotTimeHandle w = Suspended c a t cur eids")
    case True
    with assms(1) m have "w' = ?f w" by (auto simp: handleMctpEndpoints_eq Let_def)
    with True m a M rec show ?thesis by (auto simp: handleMctpEndpoints_eq Let_def)
  next
    case False
    let ?g = "\<lambda>v. (?f v)\<lparr>setErotTimeHandle := NoCoro, log := log v @ [IO_get_elapsed]\<rparr>"
    have "alike (?g w) (?g w2)"
      using alike_log [OF alike_own(3) [OF a, of NoCoro], of "[IO_get_elapsed]" "[IO_get_elapsed]"] by simp
    have el: "elapsed_reply P2 (log w2) = elapsed_reply P (log w)"
    proof -
      have o: "observed (log w2) = observed (log w)" using assms(2) by (simp add: alike_def)
      have "same_replies P P2" using assms(3) by (simp add: twins_def)
      with o show ?thesis unfolding same_replies_def by blast
    qed
    from False assms(1) m obtain v t s w3 where v: "elapsed_reply P (log w) = Some v" "get_uint64 v = Inr t"
      and task: "task_loop P t (?g w) = Inr (Some s, w3)" and w': "w' = suspend EndpointsTask t s w3"
      by (cases "setErotTimeHandle w")
        (auto simp: handleMctpEndpoints_eq handleMctpEndpointsTask_def Let_def bindR_eq_Inr
          split: option.splits sum.splits)
    from task_loop_alike [OF task \<open>alike (?g w) (?g w2)\<close> assms(3)] obtain w3' where
      t2: "task_loop P2 t (?g w2) = Inr (Some s, w3')" and a3: "alike w3 w3'" by blast
    have "handleMctpEndpointsTask P2 ((?f w2)\<lparr>setErotTimeHandle := NoCoro\<rparr>) = Inr (Some (t, s), w3')"
      using v el t2 by (simp add: handleMctpEndpointsTask_def)
    with False M m rec w' suspend_alike [OF a3] show ?thesis
      by (cases "setErotTimeHandle w") (auto simp: handleMctpEndpoints_eq Let_def)
  qed
qed

text \<open>An object whose socket address fits is recorded alike.\<close>

definition short_address :: "interface_map \<Rightarrow> bool" where
  "short_address interfaces \<longleftrightarrow> (case scan_interfaces interfaces ([], 0, 0, []) of
     Inr (uuid, type, protocol, address) \<Rightarrow> length address \<le> sun_path_size | Inl e \<Rightarrow> True)"

lemma populate_alike:
  assumes "populateMctpInfo interfaces (infos, socks w) = (infos', s)" and "alike w w2"
    and "short_address interfaces"
  shows "\<exists>s2. populateMctpInfo interfaces (infos, socks w2) = (infos', s2)
    \<and> alike (w\<lparr>socks := s\<rparr>) (w2\<lparr>socks := s2\<rparr>)"
proof -
  have reg: "\<exists>s2. registerMctpEndpoint eid ty pr path (socks w2) = s2
      \<and> alike (w\<lparr>socks := registerMctpEndpoint eid ty pr path (socks w)\<rparr>) (w2\<lparr>socks := s2\<rparr>)"
    if "length path \<le> sun_path_size" for eid ty pr path
  proof -
    have "short_paths (m(eid \<mapsto> (ty, pr, path)))" if "short_paths m" for m
      using that \<open>length path \<le> sun_path_size\<close> by (auto simp: short_paths_def ran_def)
    with assms(2) show ?thesis by (auto simp: alike_def registerMctpEndpoint_def)
  qed
  have same: "alike (w\<lparr>socks := socks w\<rparr>) (w2\<lparr>socks := socks w2\<rparr>)" using assms(2) by simp
  from assms(1,3) reg same show ?thesis
    unfolding populateMctpInfo_def short_address_def
    by (auto split: sum.splits option.splits if_splits prod.splits)
qed

lemma discover_alike:
  assumes "discoverEndpoints (erot_handlers P) interfaces w = Inr w'" and "alike w w2" and "twins P P2"
    and "short_address interfaces"
  shows "\<exists>w2'. discoverEndpoints (erot_handlers P2) interfaces w2 = Inr w2' \<and> alike w' w2'"
proof -
  obtain infos s where p: "populateMctpInfo interfaces ([], socks w) = (infos, s)" by (metis surj_pair)
  from populate_alike [OF p assms(2,4)] obtain s2 where
    p2: "populateMctpInfo interfaces ([], socks w2) = (infos, s2)"
    and a: "alike (w\<lparr>socks := s\<rparr>) (w2\<lparr>socks := s2\<rparr>)" by blast
  from assms(1) p have "handleMctpEndpoints P infos (w\<lparr>socks := s\<rparr>) = Inr w'"
    by (auto simp: discoverEndpoints_def bindR_eq_Inr)
  from handleMctpEndpoints_alike [OF this a assms(3)] p2 show ?thesis
    by (auto simp: discoverEndpoints_def)
qed

lemma handleTimeChange_alike:
  assumes "handleTimeChange P result now elapsed w = Inr w'" and "alike w w2" and "twins P P2"
  shows "\<exists>w2'. handleTimeChange P2 result now elapsed w2 = Inr w2' \<and> alike w' w2'"
proof -
  note M = alike_members [OF assms(2)]
  have i: "sync_interval P2 = sync_interval P" using assms(3) by (simp add: twins_def same_build_def)
  show ?thesis
  proof (cases "result \<noteq> - ECANCELED \<or> duration_cast_down 1000000000 (now - erotTimeSyncLast w) < sync_interval P
      \<or> (\<exists>c a t cur eids. setErotTimeHandle w = Suspended c a t cur eids)")
    case True
    with assms(1,2) M i show ?thesis by (auto simp: handleTimeChange_def split: if_splits)
  next
    case False
    with assms(1) obtain eids s w1 where top: "top_eids (mctpInfoMap w) = Inr eids" and
      set: "setTimeOnErots P (word_of_int elapsed) eids w = Inr (s, w1)" and
      w': "w' = (case s of Some x \<Rightarrow> suspend TimeChange (word_of_int elapsed) x w1
        | None \<Rightarrow> w1\<lparr>setErotTimeHandle := NoCoro\<rparr>)\<lparr>erotTimeSyncLast := now\<rparr>"
      by (auto simp: handleTimeChange_def bindR_eq_Inr Let_def split: if_splits coro.splits)
    from setTimeOnErots_alike [OF set assms(2,3)] obtain w1' where
      set2: "setTimeOnErots P2 (word_of_int elapsed) eids w2 = Inr (s, w1')" and a: "alike w1 w1'" by blast
    let ?r = "\<lambda>v. (case s of Some x \<Rightarrow> suspend TimeChange (word_of_int elapsed) x v
        | None \<Rightarrow> v\<lparr>setErotTimeHandle := NoCoro\<rparr>)\<lparr>erotTimeSyncLast := now\<rparr>"
    have "alike (?r w1) (?r w1')"
      using a by (auto split: option.splits intro!: alike_own suspend_alike)
    moreover have "handleTimeChange P2 result now elapsed w2 = Inr (?r w1')"
      using False M i top set2
      by (cases "setErotTimeHandle w") (auto simp: handleTimeChange_def Let_def)
    ultimately show ?thesis using w' by blast
  qed
qed

section \<open>Runs\<close>

text \<open>
  A message arriving from an endpoint, as either transport delivers it, or another event of the loop.
\<close>

datatype arrival = Message u8 bytes | Other event

fun carry :: "platform \<Rightarrow> arrival \<Rightarrow> event" where
  "carry P (Message eid msg) =
     Received (case transport P of
       DaemonRequest \<Rightarrow> datagram 0 (vdm_tag P # eid # messageType # msg)
     | InKernelRequest \<Rightarrow> datagram eid msg)"
| "carry P (Other ev) = ev"

fun usual :: "arrival \<Rightarrow> bool" where
  "usual (Message eid msg) = (msg \<noteq> [])"
| "usual (Other (Received rx)) = False"
| "usual (Other (Added interfaces)) = short_address interfaces"
| "usual (Other ev) = True"

lemma message_received:
  assumes "msg \<noteq> []"
  shows "erot_step P w (carry P (Message eid msg)) w' \<longleftrightarrow> processRxMsg P (erot_invoke P) eid msg w = Inr w'"
  using assms
  by (cases "transport P")
    (auto simp: erot_step_simps handleReceivedMsg_def Daemon_handleReceivedMsg_def
      InKernel_handleReceivedMsg_def read_byte_def)

lemma step_alike:
  assumes "erot_step P w (carry P x) w'" and "usual x" and "alike w w2" and "twins P P2"
  shows "\<exists>w2'. erot_step P2 w2 (carry P2 x) w2' \<and> alike w' w2'"
proof (cases x)
  case (Message eid msg)
  with assms(2) have ne: "msg \<noteq> []" by simp
  from assms(1) have rx: "processRxMsg P (erot_invoke P) eid msg w = Inr w'"
    unfolding Message message_received [OF ne] .
  have "\<exists>w2'. processRxMsg P2 (erot_invoke P2) eid msg w2 = Inr w2' \<and> alike w' w2'"
    using rx assms(3) handleResponse_alike [OF _ assms(3,4)]
    by (auto simp: processRxMsg_def bindR_eq_Inr Let_def split: if_splits)
  then show ?thesis unfolding Message message_received [OF ne] .
next
  case (Other ev)
  with assms(1) have st: "erot_step P w ev w'" by simp
  have "\<exists>w2'. erot_step P2 w2 ev w2' \<and> alike w' w2'"
    using st
  proof (cases rule: erot_step.cases)
    case (received ev)
    with Other assms(2) show ?thesis by simp
  next
    case (expired key e)
    from expiry_alike [OF expired(4) assms(3,4)] alike_entry [OF assms(3) expired(2)] expired(1,3)
    show ?thesis by (metis erot_step.expired)
  next
    case (deferred key)
    have "removeRequestContainer w2 = removeRequestContainer w" using assms(3) by (simp add: alike_def)
    with removal_alike [OF deferred(3) assms(3,4)] deferred(1,2) show ?thesis
      by (metis erot_step.deferred)
  next
    case (retried key e)
    from alike_entry [OF assms(3) retried(2)] obtain e2 where e2: "map_of (handlers w2) key = Some e2"
      "erase_fd e2 = erase_fd e" by metis
    then have "retry_timer (e_request e2)"
      using retried(3) by (cases e; cases e2; cases "e_request e"; cases "e_request e2")
        (auto simp: erase_fd_def)
    with e2(1) retry_tick_alike [OF assms(3)] retried(1,4) show ?thesis
      by (metis erot_step.retried)
  next
    case (added interfaces)
    with Other assms(2) have "short_address interfaces" by simp
    from discover_alike [OF added(2) assms(3,4) this] added(1) show ?thesis
      by (metis erot_step.added)
  next
    case (time_changed result now elapsed)
    from handleTimeChange_alike [OF time_changed(2) assms(3,4)] time_changed(1) show ?thesis
      by (metis erot_step.time_changed)
  qed
  with Other show ?thesis by simp
qed

inductive carried_run :: "platform \<Rightarrow> world \<Rightarrow> arrival list \<Rightarrow> world \<Rightarrow> bool" for P where
  none: "carried_run P w [] w"
| more: "carried_run P w xs w' \<Longrightarrow> erot_step P w' (carry P x) w'' \<Longrightarrow> carried_run P w (xs @ [x]) w''"

lemma carried_run_alike:
  "carried_run P w xs w' \<Longrightarrow> list_all usual xs \<Longrightarrow> alike w w2 \<Longrightarrow> twins P P2 \<Longrightarrow>
     \<exists>w2'. carried_run P2 w2 xs w2' \<and> alike w' w2'"
proof (induction rule: carried_run.induct)
  case (none w)
  then show ?case by (blast intro: carried_run.none)
next
  case (more w xs w' x w'')
  then obtain v where v: "carried_run P2 w2 xs v" "alike w' v" by auto
  from more.prems(1) have "usual x" by simp
  from step_alike [OF more.hyps(2) this v(2) more.prems(3)] obtain w2' where
    "erot_step P2 v (carry P2 x) w2'" "alike w'' w2'" by blast
  with carried_run.more [OF v(1)] show ?case by blast
qed

section \<open>Properties\<close>

text \<open>
  C7: both builds give the same service. Take two platforms that differ in the transport, whose
  calls succeed and whose D-Bus services answer alike, two states that differ only in descriptors,
  and any sequence of events: objects added whose socket address fits a socket path, non-empty
  messages carried in the frame of each transport, retries, expiries, removals and changes of the
  clock. Every run of one build over it is matched by a run of the other that ends in a state which
  again differs only in descriptors and in which the same messages were sent to the same endpoints,
  the same timers armed and the same D-Bus calls made.
\<close>

theorem transports_equivalent:
  assumes "twins P P2" and "alike w w2" and "list_all usual xs"
  shows "(\<forall>w'. carried_run P w xs w' \<longrightarrow> (\<exists>w2'. carried_run P2 w2 xs w2' \<and> alike w' w2'))
    \<and> (\<forall>w2'. carried_run P2 w2 xs w2' \<longrightarrow> (\<exists>w'. carried_run P w xs w' \<and> alike w' w2'))"
proof (intro conjI allI impI)
  show "\<exists>w2'. carried_run P2 w2 xs w2' \<and> alike w' w2'" if "carried_run P w xs w'" for w'
    using carried_run_alike [OF that assms(3,2,1)] .
  show "\<exists>w'. carried_run P w xs w' \<and> alike w' w2'" if "carried_run P2 w2 xs w2'" for w2'
    using carried_run_alike [OF that assms(3) alike_sym [OF assms(2)] twins_sym [OF assms(1)]]
    by (blast intro: alike_sym)
qed

lemma kind_platform_twins: "twins (kind_platform t) (kind_platform t')"
  using sample_reliable
  by (simp add: twins_def same_build_def same_replies_def) (simp add: kind_platform_def)

definition sample_reply :: bytes where
  "sample_reply = header_bytes ((addExtTimestamp_header 0)\<lparr>hdr_request := 0\<rparr>) @ [0]"

lemma sample_carried:
  "carried_run (kind_platform DaemonRequest) world_init
     [Other (Added sample_interfaces), Message 9 sample_reply] sample_served"
proof -
  let ?P = "kind_platform DaemonRequest"
  have "erot_step ?P world_init (carry ?P (Other (Added sample_interfaces))) sample_waiting"
    by (simp add: erot_step.added sample_discovery)
  from carried_run.more [OF carried_run.none this]
  have one: "carried_run ?P world_init [Other (Added sample_interfaces)] sample_waiting" by simp
  have "carry ?P (Message 9 sample_reply) = Received sample_answer"
    by (simp add: kind_platform_def sample_answer_def sample_reply_def messageType_def)
  with sample_answer_step carried_run.more [OF one] show ?thesis by fastforce
qed

theorem transports_equivalent_witness:
  "\<exists>w. carried_run (kind_platform InKernelRequest) world_init
      [Other (Added sample_interfaces), Message 9 sample_reply] w
    \<and> setErotTimeHandle w = Finished \<and> observed (log w) = observed (log sample_served)"
proof -
  have "alike world_init world_init"
    by (rule alike_refl) (simp add: world_init_def sock_init_def short_paths_def)
  moreover have "list_all usual [Other (Added sample_interfaces), Message 9 sample_reply]"
    by (simp add: short_address_def sample_interfaces_def endpoint_interfaces_def interface_names
        map_at_def sample_reply_def sun_path_size_def)
  ultimately obtain w where
    "carried_run (kind_platform InKernelRequest) world_init
       [Other (Added sample_interfaces), Message 9 sample_reply] w" and a: "alike sample_served w"
    using transports_equivalent [OF kind_platform_twins, of world_init world_init] sample_carried
    by blast
  moreover from alike_members [OF a] have "setErotTimeHandle w = Finished"
    by (simp add: sample_served_def)
  moreover from a have "observed (log w) = observed (log sample_served)" by (simp add: alike_def)
  ultimately show ?thesis by blast
qed

end
