(* ===== verification/Awaitable.thy ===== *)
theory Awaitable
  imports ErotProperties
begin

text \<open>
  The object a request is awaited on (\<open>SendRecvMctpVdmMsg\<close> of \<open>oem/nvidia/handler.hpp\<close>) as the code
  has it: a temporary in the frame of the coroutine \<open>setTimeOnErot\<close>, that holds references and
  pointers to the coroutine's variables. The store keeps those variables by address; an address not
  in it belongs to a variable that has been destroyed.

  Theory \<open>ErotTimeManager\<close> models the exchange without the store, by \<open>setTimeOnErot_start\<close> and
  \<open>setTimeOnErot_finish\<close>; the property shows that the two agree.
\<close>

section \<open>Store\<close>

record awaitable =
  resumeHandle :: "nat option"
  aw_eid :: u8
  aw_request :: nat
  aw_responseMsg :: "nat option"
  aw_responseLen :: "nat option"
  aw_rc :: u8

record store =
  requests :: "nat \<rightharpoonup> bytes"
  message_ptrs :: "nat \<rightharpoonup> bytes option"
  lengths :: "nat \<rightharpoonup> u64"
  awaitables :: "nat \<rightharpoonup> awaitable"

definition deref :: "(nat \<rightharpoonup> 'a) \<Rightarrow> nat \<Rightarrow> exn + 'a" where
  "deref m a = (case m a of None \<Rightarrow> Inl UndefinedBehaviour | Some x \<Rightarrow> Inr x)"

section \<open>The awaitable\<close>

definition SendRecvMctpVdmMsg :: "u8 \<Rightarrow> nat \<Rightarrow> nat option \<Rightarrow> nat option \<Rightarrow> awaitable" where
  "SendRecvMctpVdmMsg eid request responseMsg responseLen =
     \<lparr>resumeHandle = None, aw_eid = eid, aw_request = request, aw_responseMsg = responseMsg,
      aw_responseLen = responseLen, aw_rc = cc_val ErrGeneral\<rparr>"

definition msg_await_ready :: bool where
  "msg_await_ready = False"

definition set_awaitable :: "nat \<Rightarrow> awaitable \<Rightarrow> store \<Rightarrow> store" where
  "set_awaitable this aw h = h\<lparr>awaitables := (awaitables h)(this \<mapsto> aw)\<rparr>"

text \<open>
  The key's fields are read from the vector before it is moved into the request. The handler bound
  to \<open>this\<close> is the awaitable's address.
\<close>

definition msg_await_suspend ::
    "platform \<Rightarrow> nat \<Rightarrow> nat \<Rightarrow> store \<times> world \<Rightarrow> exn + (bool \<times> store \<times> world)" where
  "msg_await_suspend P this handle hw =
     (case hw of (h, w) \<Rightarrow>
        bindR (deref (awaitables h) this) (\<lambda>aw.
          if aw_responseMsg aw = None \<or> aw_responseLen aw = None
          then Inr (False, set_awaitable this (aw\<lparr>aw_rc := cc_val ErrInvalidData\<rparr>) h, w)
          else
            bindR (deref (requests h) (aw_request aw)) (\<lambda>request.
            bindR (request_key (aw_eid aw) request) (\<lambda>key.
            bindR (registerRequest P (aw_eid aw) (key_instanceId key) (key_type key)
                     (key_command key) request this w) (\<lambda>(rc, w1).
              let h1 = h\<lparr>requests := (requests h)(aw_request aw \<mapsto> [])\<rparr>;
                  aw1 = aw\<lparr>aw_rc := word_of_int rc\<rparr>
              in if aw_rc aw1 \<noteq> 0 then Inr (False, set_awaitable this aw1 h1, w1)
                 else Inr (True, set_awaitable this (aw1\<lparr>resumeHandle := Some handle\<rparr>) h1, w1))))))"

definition msg_await_resume :: "nat \<Rightarrow> store \<Rightarrow> exn + u8" where
  "msg_await_resume this h = bindR (deref (awaitables h) this) (\<lambda>aw. Inr (aw_rc aw))"

text \<open>A write through a pointer; both pointers are known to be set once a request is registered.\<close>

definition write_at :: "nat option \<Rightarrow> 'a \<Rightarrow> (nat \<rightharpoonup> 'a) \<Rightarrow> exn + (nat \<rightharpoonup> 'a)" where
  "write_at p x m =
     (case p of None \<Rightarrow> Inl UndefinedBehaviour
      | Some a \<Rightarrow> bindR (deref m a) (\<lambda>old. Inr (m(a \<mapsto> x))))"

text \<open>
  The handler of a response stores the pointer and the length, and the code, and yields the
  coroutine it resumes; resuming a null handle is undefined.
\<close>

definition msg_handleResponse ::
    "nat \<Rightarrow> bytes option \<Rightarrow> u64 \<Rightarrow> store \<Rightarrow> exn + (nat \<times> store)" where
  "msg_handleResponse this response msgLen h =
     bindR (deref (awaitables h) this) (\<lambda>aw.
     bindR (if response = None \<or> msgLen = 0
            then Inr (set_awaitable this (aw\<lparr>aw_rc := cc_val ErrGeneral\<rparr>) h)
            else
              bindR (write_at (aw_responseMsg aw) response (message_ptrs h)) (\<lambda>m.
              bindR (write_at (aw_responseLen aw) msgLen (lengths h)) (\<lambda>l.
                Inr (set_awaitable this (aw\<lparr>aw_rc := cc_val Success\<rparr>)
                       (h\<lparr>message_ptrs := m, lengths := l\<rparr>))))) (\<lambda>h1.
       case resumeHandle aw of
         None \<Rightarrow> Inl UndefinedBehaviour
       | Some coroutine \<Rightarrow> Inr (coroutine, h1)))"

section \<open>The coroutine that uses it\<close>

text \<open>The variables of \<open>setTimeOnErot\<close>, in the frame at \<open>frame\<close>, and their destruction.\<close>

definition enter_frame :: "nat \<Rightarrow> bytes \<Rightarrow> store \<Rightarrow> store" where
  "enter_frame frame request h =
     h\<lparr>requests := (requests h)(frame \<mapsto> request), message_ptrs := (message_ptrs h)(frame \<mapsto> None),
       lengths := (lengths h)(frame \<mapsto> 0)\<rparr>"

definition leave_frame :: "nat \<Rightarrow> store \<Rightarrow> store" where
  "leave_frame frame h =
     h\<lparr>requests := (requests h)(frame := None), message_ptrs := (message_ptrs h)(frame := None),
       lengths := (lengths h)(frame := None)\<rparr>"

text \<open>
  From \<open>await_resume\<close> to the value returned: the awaitable, a temporary, is destroyed with the full
  expression, the variables with the body.
\<close>

definition setTimeOnErot_rest :: "nat \<Rightarrow> nat \<Rightarrow> store \<Rightarrow> exn + (u8 \<times> store)" where
  "setTimeOnErot_rest frame this h =
     bindR (msg_await_resume this h) (\<lambda>rc.
     let h1 = h\<lparr>awaitables := (awaitables h)(this := None)\<rparr> in
       if rc \<noteq> 0 then Inr (rc, leave_frame frame h1)
       else
         bindR (deref (lengths h1) frame) (\<lambda>responseLen.
           if responseLen \<noteq> word_of_nat addExtTimestampRespBytes
           then Inr (cc_val ErrInvalidLength, leave_frame frame h1)
           else
             bindR (deref (message_ptrs h1) frame) (\<lambda>responseMsg.
               case responseMsg of
                 None \<Rightarrow> Inl UndefinedBehaviour
               | Some msg \<Rightarrow> bindR (read_payload0 msg) (\<lambda>v. Inr (v, leave_frame frame h1)))))"

text \<open>The whole body up to its suspension or its end; the awaitable gets a fresh address.\<close>

definition setTimeOnErot_body ::
    "platform \<Rightarrow> nat \<Rightarrow> u8 \<Rightarrow> u64 \<Rightarrow> store \<times> world \<Rightarrow> exn + (outcome \<times> store \<times> world)" where
  "setTimeOnErot_body P frame eid epochElapsedTime hw =
     (case hw of (h, w) \<Rightarrow>
        case getInstanceId eid (ids w) of
          (Inl e, m) \<Rightarrow> Inr (Returned 0, h, w\<lparr>ids := m\<rparr>)
        | (Inr i, m) \<Rightarrow>
            let this = next_awaitable w;
                h1 = enter_frame frame (addExtTimestamp_request i epochElapsedTime) h;
                h2 = set_awaitable this (SendRecvMctpVdmMsg eid frame (Some frame) (Some frame)) h1;
                w1 = w\<lparr>ids := m, next_awaitable := Suc this\<rparr>
            in bindR (if msg_await_ready then Inr (False, h2, w1)
                      else msg_await_suspend P this frame (h2, w1)) (\<lambda>(suspended, h3, w2).
                 if suspended then Inr (Awaits this, h3, w2)
                 else bindR (setTimeOnErot_rest frame this h3) (\<lambda>(rc, h4).
                        Inr (Returned rc, h4, w2))))"

section \<open>Lemmas\<close>

lemma deref_Some [simp]: "m a = Some x \<Longrightarrow> deref m a = Inr x"
  by (simp add: deref_def)

lemma set_awaitable_simps [simp]:
  "requests (set_awaitable a aw h) = requests h"
  "message_ptrs (set_awaitable a aw h) = message_ptrs h" "lengths (set_awaitable a aw h) = lengths h"
  "awaitables (set_awaitable a aw h) = (awaitables h)(a \<mapsto> aw)"
  by (simp_all add: set_awaitable_def)

lemma enter_frame_simps [simp]:
  "requests (enter_frame f q h) f = Some q" "awaitables (enter_frame f q h) = awaitables h"
  "message_ptrs (enter_frame f q h) f = Some None" "lengths (enter_frame f q h) f = Some 0"
  by (simp_all add: enter_frame_def)

lemma set_awaitable_twice [simp]: "set_awaitable a x (set_awaitable a y h) = set_awaitable a x h"
  by (simp add: set_awaitable_def)

lemma request_moved [simp]:
  "(set_awaitable a x (enter_frame f q h))\<lparr>requests := (requests (enter_frame f q h))(f \<mapsto> [])\<rparr>
     = set_awaitable a x (enter_frame f [] h)"
  by (simp add: set_awaitable_def enter_frame_def)

text \<open>No variable of the frame and no awaitable at the address exists yet.\<close>

definition unused :: "nat \<Rightarrow> nat \<Rightarrow> store \<Rightarrow> bool" where
  "unused frame this h \<longleftrightarrow> requests h frame = None \<and> message_ptrs h frame = None
     \<and> lengths h frame = None \<and> awaitables h this = None"

text \<open>The store while the coroutine waits: its variables as at the start, the vector moved from.\<close>

definition waiting_store :: "nat \<Rightarrow> nat \<Rightarrow> u8 \<Rightarrow> store \<Rightarrow> store" where
  "waiting_store frame this eid h =
     set_awaitable this ((SendRecvMctpVdmMsg eid frame (Some frame) (Some frame))
       \<lparr>aw_rc := 0, resumeHandle := Some frame\<rparr>) (enter_frame frame [] h)"

lemma leave_all:
  "unused frame this h \<Longrightarrow>
     leave_frame frame (h\<lparr>requests := (requests h)(frame \<mapsto> q), message_ptrs := (message_ptrs h)(frame \<mapsto> x),
       lengths := (lengths h)(frame \<mapsto> y), awaitables := (awaitables h)(this := None)\<rparr>) = h"
  by (cases h) (auto simp: unused_def leave_frame_def fun_eq_iff)

lemma leave_entered:
  "unused frame this h \<Longrightarrow>
     leave_frame frame ((set_awaitable this aw (enter_frame frame q h))
       \<lparr>awaitables := ((awaitables h)(this \<mapsto> aw))(this := None)\<rparr>) = h"
  by (cases h) (auto simp: unused_def leave_frame_def enter_frame_def set_awaitable_def fun_eq_iff)

lemma suspend_created:
  assumes "h2 = set_awaitable this (SendRecvMctpVdmMsg eid frame (Some frame) (Some frame))
    (enter_frame frame q h)"
  shows "msg_await_suspend P this frame (h2, w) =
    bindR (request_key eid q) (\<lambda>key.
    bindR (registerRequest P eid (key_instanceId key) (key_type key) (key_command key) q this w)
      (\<lambda>(rc, w1). if (word_of_int rc :: u8) \<noteq> 0
         then Inr (False, set_awaitable this ((SendRecvMctpVdmMsg eid frame (Some frame) (Some frame))
                \<lparr>aw_rc := word_of_int rc\<rparr>) (enter_frame frame [] h), w1)
         else Inr (True, waiting_store frame this eid h, w1)))"
  unfolding assms msg_await_suspend_def
  by (auto simp: SendRecvMctpVdmMsg_def Let_def waiting_store_def intro!: bindR_cong)

lemma rest_returns:
  assumes "unused frame this h" and "aw_rc aw \<noteq> 0"
  shows "setTimeOnErot_rest frame this (set_awaitable this aw (enter_frame frame q h)) = Inr (aw_rc aw, h)"
  using assms leave_entered [OF assms(1), of aw q]
  by (simp add: setTimeOnErot_rest_def msg_await_resume_def Let_def)

text \<open>Null pointers are refused before anything is registered or sent.\<close>

lemma null_pointer_refused:
  assumes "awaitables h this = Some aw" and "aw_responseMsg aw = None \<or> aw_responseLen aw = None"
  shows "msg_await_suspend P this handle (h, w)
    = Inr (False, set_awaitable this (aw\<lparr>aw_rc := cc_val ErrInvalidData\<rparr>) h, w)"
  using assms by (auto simp: msg_await_suspend_def)

text \<open>A response for an awaitable that is gone is a call of a destroyed object.\<close>

lemma destroyed_awaitable_called:
  "awaitables h this = None \<Longrightarrow> msg_handleResponse this response msgLen h = Inl UndefinedBehaviour"
  by (simp add: msg_handleResponse_def deref_def)

section \<open>Property\<close>

text \<open>A response as the two arguments of the handler; none is a null pointer with length 0.\<close>

definition response_ptr :: "response \<Rightarrow> bytes option" where
  "response_ptr r = map_option fst r"

definition response_len :: "response \<Rightarrow> u64" where
  "response_len r = (case r of None \<Rightarrow> 0 | Some (msg, msgLen) \<Rightarrow> msgLen)"

lemma response_resumes:
  assumes "unused frame this h"
  shows "bindR (msg_handleResponse this (response_ptr r) (response_len r)
      (waiting_store frame this eid h)) (\<lambda>(coroutine, h2).
      bindR (setTimeOnErot_rest coroutine this h2) (\<lambda>(rc, h3). Inr (coroutine, rc, h3)))
    = bindR (setTimeOnErot_finish r) (\<lambda>rc. Inr (frame, rc, h))"
proof (cases "\<exists>msg msgLen. r = Some (msg, msgLen) \<and> msgLen \<noteq> 0")
  case False
  let ?aw = "(SendRecvMctpVdmMsg eid frame (Some frame) (Some frame))
    \<lparr>aw_rc := cc_val ErrGeneral, resumeHandle := Some frame\<rparr>"
  from False have "msg_handleResponse this (response_ptr r) (response_len r)
      (waiting_store frame this eid h) = Inr (frame, set_awaitable this ?aw (enter_frame frame [] h))"
    by (cases r) (auto simp: msg_handleResponse_def waiting_store_def response_ptr_def
        response_len_def set_awaitable_def SendRecvMctpVdmMsg_def)
  moreover have "setTimeOnErot_finish r = Inr (cc_val ErrGeneral)"
    using False by (cases r) (auto simp: setTimeOnErot_finish_def awaitable_rc_def)
  ultimately show ?thesis
    using rest_returns [OF assms, of ?aw "[]"] by (simp add:)
next
  case True
  then obtain msg msgLen where r: "r = Some (msg, msgLen)" and nz: "msgLen \<noteq> 0" by blast
  show ?thesis
    unfolding r using nz
    by (cases "read_payload0 msg") (simp_all add: leave_all [OF assms] msg_handleResponse_def waiting_store_def response_ptr_def response_len_def
        write_at_def SendRecvMctpVdmMsg_def setTimeOnErot_rest_def msg_await_resume_def Let_def
        setTimeOnErot_finish_def awaitable_rc_def enter_frame_def set_awaitable_def)
qed

text \<open>
  C13: the awaitable's protocol is what the coroutine relies on. For a body of \<open>setTimeOnErot\<close> that
  runs in a frame of its own, the code with its awaitable, pointers and moved-from vector behaves as
  the two functions \<open>setTimeOnErot_start\<close> and \<open>setTimeOnErot_finish\<close> of the response: it fails,
  returns or waits alike and leaves the same state; whatever response the awaitable is then handed,
  the coroutine that created it is the one resumed, it returns the same code or has the same
  undefined behaviour, and the awaitable and all variables of the frame are gone afterwards.
\<close>

theorem awaitable_protocol_equivalent:
  assumes "unused frame (next_awaitable w) h"
  shows "case setTimeOnErot_body P frame eid t (h, w) of
      Inl e \<Rightarrow> setTimeOnErot_start P eid t w = Inl e
    | Inr (Returned rc, h1, w1) \<Rightarrow> setTimeOnErot_start P eid t w = Inr (Returned rc, w1) \<and> h1 = h
    | Inr (Awaits a, h1, w1) \<Rightarrow> setTimeOnErot_start P eid t w = Inr (Awaits a, w1)
        \<and> (\<forall>r. bindR (msg_handleResponse a (response_ptr r) (response_len r) h1)
                 (\<lambda>(coroutine, h2). bindR (setTimeOnErot_rest coroutine a h2)
                   (\<lambda>(rc, h3). Inr (coroutine, rc, h3)))
               = bindR (setTimeOnErot_finish r) (\<lambda>rc. Inr (frame, rc, h)))"
proof (cases "getInstanceId eid (ids w)")
  case (Pair x m)
  show ?thesis
  proof (cases x)
    case (Inl e)
    with Pair show ?thesis by (simp add: setTimeOnErot_body_def setTimeOnErot_start_def)
  next
    case (Inr i)
    let ?a = "next_awaitable w" and ?q = "addExtTimestamp_request i t"
    let ?w = "w\<lparr>ids := m, next_awaitable := Suc ?a\<rparr>"
    have start: "setTimeOnErot_start P eid t w = bindR (request_key eid ?q) (\<lambda>key.
        bindR (registerRequest P eid (key_instanceId key) (key_type key) (key_command key) ?q ?a ?w)
          (\<lambda>(rc, w1). if (word_of_int rc :: u8) \<noteq> 0 then Inr (Returned (word_of_int rc), w1)
            else Inr (Awaits ?a, w1)))"
      using Pair Inr by (simp add: setTimeOnErot_start_def await_suspend_def Let_def)
    note body = setTimeOnErot_body_def [of P frame eid t "(h, w)"] suspend_created [OF refl]
    show ?thesis
    proof (cases "request_key eid ?q")
      case (Inl e)
      with start Pair \<open>x = Inr i\<close> show ?thesis by (simp add: body Let_def msg_await_ready_def)
    next
      case (Inr key)
      let ?reg = "registerRequest P eid (key_instanceId key) (key_type key) (key_command key) ?q ?a ?w"
      show ?thesis
      proof (cases ?reg)
        case (Inl e)
        with start Inr Pair \<open>x = Inr i\<close> show ?thesis by (simp add: body Let_def msg_await_ready_def)
      next
        fix y assume "?reg = Inr y"
        moreover obtain rc w1 where "y = (rc, w1)" by (cases y)
        ultimately have reg: "?reg = Inr (rc, w1)" by simp
        show ?thesis
        proof (cases "(word_of_int rc :: u8) = 0")
          case True
          with start Inr Pair reg \<open>x = Inr i\<close> response_resumes [OF assms] show ?thesis
            by (simp add: body Let_def msg_await_ready_def)
        next
          case False
          let ?aw = "(SendRecvMctpVdmMsg eid frame (Some frame) (Some frame))\<lparr>aw_rc := word_of_int rc\<rparr>"
          from False start Inr Pair reg \<open>x = Inr i\<close> rest_returns [OF assms, of ?aw "[]"]
          show ?thesis by (simp add: body Let_def msg_await_ready_def)
        qed
      qed
    qed
  qed
qed

text \<open>A body in frame 0 of an empty store, answered with a payload of the one byte 4.\<close>

definition empty_store :: store where
  "empty_store = \<lparr>requests = Map.empty, message_ptrs = Map.empty, lengths = Map.empty,
     awaitables = Map.empty\<rparr>"

definition refusal :: bytes where
  "refusal = header_bytes (addExtTimestamp_header 0) @ [4]"

theorem awaitable_protocol_equivalent_witness:
  "\<exists>h1 w1. setTimeOnErot_body (kind_platform DaemonRequest) 0 9 1000 (empty_store, world_init)
      = Inr (Awaits 0, h1, w1)
    \<and> bindR (msg_handleResponse 0 (Some refusal) 1 h1) (\<lambda>(coroutine, h2).
        bindR (setTimeOnErot_rest coroutine 0 h2) (\<lambda>(rc, h3). Inr (coroutine, rc, h3)))
      = Inr (0, 4, empty_store)"
proof -
  let ?P = "kind_platform DaemonRequest"
  note ev = setTimeOnErot_start_def sample_getInstanceId await_suspend_def request_key_built
    registerRequest_def getSocket_def hash_emplace_def runRegisteredRequest_def run_entry_def
    RetryTimer_start_def request_send_def send_io_def upd_entry_def numCommandRetries_def run_defs
  obtain w1 where start: "setTimeOnErot_start ?P 9 1000 world_init = Inr (Awaits 0, w1)" by (simp add: ev)
  have "unused 0 (next_awaitable world_init) empty_store" by (simp add: unused_def empty_store_def)
  note E = awaitable_protocol_equivalent [OF this, of ?P 9 1000, unfolded start]
  from E obtain x h1 w2 where x: "setTimeOnErot_body ?P 0 9 1000 (empty_store, world_init) = Inr (x, h1, w2)"
    by (cases "setTimeOnErot_body ?P 0 9 1000 (empty_store, world_init)") auto
  with E have b: "setTimeOnErot_body ?P 0 9 1000 (empty_store, world_init) = Inr (Awaits 0, h1, w2)"
    and r: "\<And>r. bindR (msg_handleResponse 0 (response_ptr r) (response_len r) h1) (\<lambda>(coroutine, h2).
        bindR (setTimeOnErot_rest coroutine 0 h2) (\<lambda>(rc, h3). Inr (coroutine, rc, h3)))
      = bindR (setTimeOnErot_finish r) (\<lambda>rc. Inr (0, rc, empty_store))"
    by (cases x; simp)+
  have "setTimeOnErot_finish (Some (refusal, 1)) = Inr 4"
    by (simp add: setTimeOnErot_finish_def awaitable_rc_def addExtTimestampRespBytes_def refusal_def
        read_payload0_def read_byte_def nth_append)
  with b r [of "Some (refusal, 1)"] show ?thesis by (simp add: response_ptr_def response_len_def)
qed

end
