(* ===== verification/TimeBus.thy ===== *)
theory TimeBus
  imports Prelude
begin

text \<open>
  The D-Bus calls of the time manager (\<open>utils.hpp\<close>, \<open>utils.cpp\<close>) and the bus they go to. A call is
  appended to the history and answered by the bus, a parameter, which knows the history; \<open>None\<close>
  stands for an \<open>sdbusplus\<close> exception. The conversion of mode strings is generated code and a
  parameter too.
\<close>

datatype Mode = NTP | Manual

type_synonym add_data = "(string \<times> string) list"
type_synonym mapper_response = "(string \<times> (string \<times> string list) list) list"

datatype call =
    GetObject string string                    \<comment> \<open>path, interface\<close>
  | GetSubTree string string                   \<comment> \<open>root, interface\<close>
  | GetProperty string string string string    \<comment> \<open>service, path, interface, property\<close>
  | SetProperty string string string string string
  | SetNTP bool
  | SetTime int
  | CreateLog string string add_data           \<comment> \<open>message id, severity, data\<close>

record bus =
  get_object :: "call list \<Rightarrow> string \<Rightarrow> string \<Rightarrow> (string \<times> string list) list option"
  get_subtree :: "call list \<Rightarrow> mapper_response option"
  get_property :: "call list \<Rightarrow> call \<Rightarrow> string option"
  accepts :: "call list \<Rightarrow> call \<Rightarrow> bool"
  convertMethodFromString :: "string \<Rightarrow> Mode option"
  convertForMessage :: "Mode \<Rightarrow> string"
  default_time_mode :: Mode
  default_settings_path :: string

section \<open>The helpers\<close>

definition getService :: "bus \<Rightarrow> string \<Rightarrow> string \<Rightarrow> call list \<Rightarrow> (exn + string) \<times> call list" where
  "getService B path intf l =
     (case get_object B l path intf of
        None \<Rightarrow> Inl RuntimeError
      | Some [] \<Rightarrow> Inl RuntimeError
      | Some ((service, _) # _) \<Rightarrow> Inr service, l @ [GetObject path intf])"

definition getSubTree :: "bus \<Rightarrow> string \<Rightarrow> string \<Rightarrow> call list \<Rightarrow> (exn + mapper_response) \<times> call list" where
  "getSubTree B root intf l =
     (case get_subtree B l of None \<Rightarrow> Inl SdBusError | Some r \<Rightarrow> Inr r, l @ [GetSubTree root intf])"

definition getProperty ::
    "bus \<Rightarrow> string \<Rightarrow> string \<Rightarrow> string \<Rightarrow> string \<Rightarrow> call list \<Rightarrow> (exn + string) \<times> call list" where
  "getProperty B service path intf property l =
     (let c = GetProperty service path intf property
      in (case get_property B l c of None \<Rightarrow> Inl RuntimeError | Some v \<Rightarrow> Inr v, l @ [c]))"

definition setProperty ::
    "bus \<Rightarrow> string \<Rightarrow> string \<Rightarrow> string \<Rightarrow> string \<Rightarrow> string \<Rightarrow> call list \<Rightarrow> (exn + unit) \<times> call list" where
  "setProperty B service path intf property v l =
     (let c = SetProperty service path intf property v
      in (if accepts B l c then Inr () else Inl RuntimeError, l @ [c]))"

definition strToMode :: "bus \<Rightarrow> string \<Rightarrow> exn + Mode" where
  "strToMode B mode =
     (case convertMethodFromString B mode of None \<Rightarrow> Inl InvalidEnumString | Some m \<Rightarrow> Inr m)"

definition modeToStr :: "bus \<Rightarrow> Mode \<Rightarrow> string" where
  "modeToStr B mode = convertForMessage B mode"

text \<open>A failure to add the log entry is caught.\<close>

definition addEventLog :: "string \<Rightarrow> string \<Rightarrow> add_data \<Rightarrow> call list \<Rightarrow> call list" where
  "addEventLog messageId severity addData l = l @ [CreateLog messageId severity addData]"

section \<open>The settings object\<close>

definition settings_root :: string where
  "settings_root = ''/''"

definition timeSyncIntf :: string where
  "timeSyncIntf = ''xyz.openbmc_project.Time.Synchronization''"

definition ntpSync :: string where
  "ntpSync = ''xyz.openbmc_project.Time.Synchronization.Method.NTP''"

definition manualSync :: string where
  "manualSync = ''xyz.openbmc_project.Time.Synchronization.Method.Manual''"

fun find_settings :: "mapper_response \<Rightarrow> string \<Rightarrow> string" where
  "find_settings [] path = path"
| "find_settings ((p, services) # rest) path =
     find_settings rest
       (if list_ex (\<lambda>(service, interfaces). list_ex (\<lambda>i. timeSyncIntf = i) interfaces) services
        then p else path)"

text \<open>\<open>settings::Objects\<close>: a failed mapper call leaves the default path.\<close>

definition Objects :: "bus \<Rightarrow> call list \<Rightarrow> string \<times> call list" where
  "Objects B l =
     (case getSubTree B settings_root timeSyncIntf l of
        (Inl e, l1) \<Rightarrow> (default_settings_path B, l1)
      | (Inr result, l1) \<Rightarrow> (find_settings result (default_settings_path B), l1))"

text \<open>The last object that offers the interface wins.\<close>

definition offers :: "string \<times> (string \<times> string list) list \<Rightarrow> bool" where
  "offers e \<longleftrightarrow> (\<exists>(service, interfaces)\<in>set (snd e). timeSyncIntf \<in> set interfaces)"

lemma offers_ex: "list_ex (\<lambda>(service, interfaces). list_ex (\<lambda>i. timeSyncIntf = i) interfaces) services
  = offers (p, services)"
  by (auto simp: offers_def list_ex_iff)

lemma find_settings_last:
  "find_settings r path =
     (case filter offers r of [] \<Rightarrow> path | es \<Rightarrow> fst (last es))"
proof (induction r path rule: find_settings.induct)
  case (2 p services rest path)
  then show ?case
    by (cases "filter offers rest") (simp_all add: offers_ex [of services p])
qed simp

text \<open>What the generated conversion is documented to do (\<open>utils.hpp\<close>, \<open>strToMode\<close>).\<close>

definition documented_conversion :: "bus \<Rightarrow> bool" where
  "documented_conversion B \<longleftrightarrow> convertMethodFromString B =
     (\<lambda>s. if s = ntpSync then Some NTP else if s = manualSync then Some Manual else None)"

definition mode_string :: "Mode \<Rightarrow> string" where
  "mode_string m = (case m of NTP \<Rightarrow> ntpSync | Manual \<Rightarrow> manualSync)"

lemma sync_strings [simp]: "ntpSync \<noteq> manualSync" "manualSync \<noteq> ntpSync" "ntpSync \<noteq> []" "manualSync \<noteq> []"
  by (simp_all add: ntpSync_def manualSync_def)

lemma mode_string_ntp [simp]: "mode_string m = ntpSync \<longleftrightarrow> m = NTP" "ntpSync = mode_string m \<longleftrightarrow> m = NTP"
  by (cases m; simp add: mode_string_def)+

lemma strToMode_mode_string [simp]:
  "documented_conversion B \<Longrightarrow> strToMode B (mode_string m) = Inr m"
  by (cases m) (simp_all add: strToMode_def documented_conversion_def mode_string_def)

lemma strToMode_modeToStr:
  "documented_conversion B \<Longrightarrow> convertForMessage B = mode_string \<Longrightarrow> strToMode B (modeToStr B m) = Inr m"
  by (simp add: modeToStr_def)

lemma strToMode_other:
  "documented_conversion B \<Longrightarrow> v \<noteq> ntpSync \<Longrightarrow> v \<noteq> manualSync \<Longrightarrow> strToMode B v = Inl InvalidEnumString"
  by (simp add: strToMode_def documented_conversion_def)

text \<open>A bus on which every call succeeds, with the settings of one service.\<close>

definition kind_bus :: "Mode \<Rightarrow> bus" where
  "kind_bus m =
     \<lparr>get_object = (\<lambda>l p i. Some [(''settings'', [])]),
      get_subtree = (\<lambda>l. Some [(''/time/sync_method'', [(''settings'', [timeSyncIntf])])]),
      get_property = (\<lambda>l c. Some (mode_string m)),
      accepts = (\<lambda>l c. True),
      convertMethodFromString =
        (\<lambda>s. if s = ntpSync then Some NTP else if s = manualSync then Some Manual else None),
      convertForMessage = mode_string,
      default_time_mode = Manual, default_settings_path = ''/default''\<rparr>"

lemma kind_bus_conversion: "documented_conversion (kind_bus m)"
  by (simp add: documented_conversion_def kind_bus_def)

end
