(* ===== verification/TimeManager.thy ===== *)
theory TimeManager
  imports TimeBus
begin

text \<open>
  The manager of the time mode (\<open>manager.cpp\<close>): it carries the setting \<open>TimeSyncMethod\<close> to
  \<open>systemd-timedated\<close> and timedated's \<open>NTP\<close> property back to the setting.
\<close>

section \<open>State and operations\<close>

record manager =
  timeMode :: Mode
  timeSyncMethod :: string
  calls :: "call list"

definition propertyTimeMode :: string where
  "propertyTimeMode = ''TimeSyncMethod''"

definition propertyNtp :: string where
  "propertyNtp = ''NTP''"

text \<open>A failing \<open>SetNTP\<close> is caught and logged.\<close>

definition updateNtpSetting :: "string \<Rightarrow> manager \<Rightarrow> manager" where
  "updateNtpSetting v s = s\<lparr>calls := calls s @ [SetNTP (v = ntpSync)]\<rparr>"

definition onTimeModeChanged :: "string \<Rightarrow> manager \<Rightarrow> manager" where
  "onTimeModeChanged mode s = updateNtpSetting mode s"

text \<open>An unknown string raises an \<open>sdbusplus\<close> exception, which is caught.\<close>

definition setCurrentTimeMode :: "bus \<Rightarrow> string \<Rightarrow> manager \<Rightarrow> bool \<times> manager" where
  "setCurrentTimeMode B mode s =
     (case strToMode B mode of
        Inl e \<Rightarrow> (False, s)
      | Inr newMode \<Rightarrow>
          if newMode \<noteq> timeMode s then (True, s\<lparr>timeMode := newMode\<rparr>) else (False, s))"

definition onPropertyChanged :: "bus \<Rightarrow> string \<Rightarrow> string \<Rightarrow> bool \<Rightarrow> manager \<Rightarrow> exn + manager" where
  "onPropertyChanged B key v forceSet s =
     (if key \<noteq> propertyTimeMode then Inl AssertFailed
      else
        (let newNtpMode = (ntpSync = v); oldNtpMode = (NTP = timeMode s)
         in if forceSet \<or> newNtpMode \<noteq> oldNtpMode
            then Inr (snd (setCurrentTimeMode B v (onTimeModeChanged v s)))
            else Inr s))"

text \<open>The handlers of the two \<open>PropertiesChanged\<close> signals, given the changed properties.\<close>

fun onSettingsChanged :: "bus \<Rightarrow> (string \<times> string) list \<Rightarrow> manager \<Rightarrow> exn + (int \<times> manager)" where
  "onSettingsChanged B [] s = Inr (0, s)"
| "onSettingsChanged B ((key, v) # properties) s =
     bindR (onPropertyChanged B key v False s) (onSettingsChanged B properties)"

definition onTimedateChanged :: "bus \<Rightarrow> (string \<times> (string + bool)) list \<Rightarrow> manager \<Rightarrow> int \<times> manager" where
  "onTimedateChanged B properties s =
     (case map_of properties propertyNtp of
        None \<Rightarrow> (-1, s)
      | Some (Inl str) \<Rightarrow> (0, s)
      | Some (Inr newNtpMode) \<Rightarrow>
          (let oldNtpMode = (NTP = timeMode s)
           in if newNtpMode \<noteq> oldNtpMode then
                (let mode = (if newNtpMode then ntpSync else manualSync);
                     (r, l1) = getService B (timeSyncMethod s) timeSyncIntf (calls s)
                 in case r of
                      Inl e \<Rightarrow> (0, s\<lparr>calls := l1\<rparr>)
                    | Inr settingManager \<Rightarrow>
                        (let (r2, l2) = setProperty B settingManager (timeSyncMethod s) timeSyncIntf
                                          propertyTimeMode mode l1
                         in case r2 of
                              Inl e \<Rightarrow> (0, s\<lparr>calls := l2\<rparr>)
                            | Inr u \<Rightarrow> (0, snd (setCurrentTimeMode B mode (s\<lparr>calls := l2\<rparr>)))))
              else (0, s)))"

text \<open>Any exception is caught and gives the empty string.\<close>

definition getSetting :: "bus \<Rightarrow> string \<Rightarrow> string \<Rightarrow> string \<Rightarrow> call list \<Rightarrow> string \<times> call list" where
  "getSetting B path intf setting l =
     (let (r, l1) = getService B path intf l
      in case r of
           Inl e \<Rightarrow> ([], l1)
         | Inr settingManager \<Rightarrow>
             (let (r2, l2) = getProperty B settingManager path intf setting l1
              in case r2 of Inl e \<Rightarrow> ([], l2) | Inr v \<Rightarrow> (v, l2)))"

definition Manager :: "bus \<Rightarrow> exn + manager" where
  "Manager B =
     (let (path, l1) = Objects B [];
          (mode, l2) = getSetting B path timeSyncIntf propertyTimeMode l1
      in onPropertyChanged B propertyTimeMode mode True
           \<lparr>timeMode = default_time_mode B, timeSyncMethod = path, calls = l2\<rparr>)"

text \<open>\<open>BmcEpoch\<close> and the tests set the mode directly.\<close>

definition getTimeMode :: "manager \<Rightarrow> Mode" where
  "getTimeMode s = timeMode s"

definition setTimeMode :: "Mode \<Rightarrow> manager \<Rightarrow> manager" where
  "setTimeMode mode s = s\<lparr>timeMode := mode\<rparr>"

section \<open>Lemmas\<close>

lemma onPropertyChanged_mode:
  assumes "documented_conversion B"
  shows "onPropertyChanged B propertyTimeMode (mode_string m) force s =
    Inr (if force \<or> m \<noteq> timeMode s
         then s\<lparr>timeMode := m, calls := calls s @ [SetNTP (m = NTP)]\<rparr> else s)"
  using assms
  by (cases m; cases "timeMode s")
    (auto simp: onPropertyChanged_def onTimeModeChanged_def updateNtpSetting_def
      setCurrentTimeMode_def)

lemma onPropertyChanged_other:
  assumes "documented_conversion B" and "v \<noteq> ntpSync" and "v \<noteq> manualSync"
  shows "onPropertyChanged B propertyTimeMode v force s =
    Inr (if force \<or> timeMode s = NTP then s\<lparr>calls := calls s @ [SetNTP False]\<rparr> else s)"
  using assms
  by (auto simp: onPropertyChanged_def onTimeModeChanged_def updateNtpSetting_def
      setCurrentTimeMode_def strToMode_other)

lemma onTimedateChanged_ntp:
  assumes "documented_conversion B"
    and "get_object B (calls s) (timeSyncMethod s) timeSyncIntf = Some ((service, is) # rest)"
    and "accepts B (calls s @ [GetObject (timeSyncMethod s) timeSyncIntf])
      (SetProperty service (timeSyncMethod s) timeSyncIntf propertyTimeMode (mode_string m))"
  shows "onTimedateChanged B [(propertyNtp, Inr (m = NTP))] s =
    (0, if m = timeMode s then s
        else s\<lparr>timeMode := m, calls := calls s @ [GetObject (timeSyncMethod s) timeSyncIntf,
          SetProperty service (timeSyncMethod s) timeSyncIntf propertyTimeMode (mode_string m)]\<rparr>)"
  using assms strToMode_mode_string [OF assms(1), of m]
  by (cases m; cases "timeMode s")
    (simp_all add: onTimedateChanged_def getService_def setProperty_def setCurrentTimeMode_def
      Let_def mode_string_def)

lemma Manager_mode:
  assumes "documented_conversion B" and "Objects B [] = (path, l1)"
    and "getSetting B path timeSyncIntf propertyTimeMode l1 = (mode_string m, l2)"
  shows "Manager B = Inr \<lparr>timeMode = m, timeSyncMethod = path, calls = l2 @ [SetNTP (m = NTP)]\<rparr>"
  by (simp add: Manager_def assms(2,3) onPropertyChanged_mode [OF assms(1)])

section \<open>Properties\<close>

definition sample_manager :: "Mode \<Rightarrow> manager" where
  "sample_manager m = \<lparr>timeMode = m, timeSyncMethod = ''/time/sync_method'', calls = []\<rparr>"

text \<open>
  The manager starts in agreement with the setting. When the mapper and the settings service
  answer with a valid mode, timedated's NTP is forced to it, once, and the manager's mode is that
  mode, whatever the built-in default; the settings object is the last one that offers the
  interface, or the built-in default if none does.
\<close>

theorem startup_follows_setting:
  assumes "documented_conversion B" and "get_subtree B [] = Some tree"
    and "path = (case filter offers tree of [] \<Rightarrow> default_settings_path B | es \<Rightarrow> fst (last es))"
    and "get_object B [GetSubTree settings_root timeSyncIntf] path timeSyncIntf = Some ((service, is) # rest)"
    and "get_property B [GetSubTree settings_root timeSyncIntf, GetObject path timeSyncIntf]
      (GetProperty service path timeSyncIntf propertyTimeMode) = Some (mode_string m)"
  shows "Manager B = Inr \<lparr>timeMode = m, timeSyncMethod = path,
    calls = [GetSubTree settings_root timeSyncIntf, GetObject path timeSyncIntf,
             GetProperty service path timeSyncIntf propertyTimeMode, SetNTP (m = NTP)]\<rparr>"
proof -
  have "Objects B [] = (path, [GetSubTree settings_root timeSyncIntf])"
    using assms(2,3) by (simp add: Objects_def getSubTree_def find_settings_last)
  from Manager_mode [OF assms(1) this] assms(4,5) show ?thesis
    by (simp add: getSetting_def getService_def getProperty_def)
qed

theorem startup_follows_setting_witness:
  "\<exists>s. Manager (kind_bus NTP) = Inr s \<and> timeMode s = NTP \<and> last (calls s) = SetNTP True
     \<and> timeSyncMethod s = ''/time/sync_method''"
proof -
  let ?B = "kind_bus NTP" and ?tree = "[(''/time/sync_method'', [(''settings'', [timeSyncIntf])])]"
  have off: "offers (''/time/sync_method'', [(''settings'', [timeSyncIntf])])"
    by (simp add: offers_def)
  have "get_subtree ?B [] = Some ?tree" by (simp add: kind_bus_def)
  moreover have "''/time/sync_method''
      = (case filter offers ?tree of [] \<Rightarrow> default_settings_path ?B | es \<Rightarrow> fst (last es))"
    using off by simp
  moreover have "get_object ?B [GetSubTree settings_root timeSyncIntf] ''/time/sync_method'' timeSyncIntf
      = Some [(''settings'', [])]" by (simp add: kind_bus_def)
  moreover have "get_property ?B [GetSubTree settings_root timeSyncIntf,
        GetObject ''/time/sync_method'' timeSyncIntf]
      (GetProperty ''settings'' ''/time/sync_method'' timeSyncIntf propertyTimeMode) = Some (mode_string NTP)"
    by (simp add: kind_bus_def)
  ultimately show ?thesis
    using startup_follows_setting [OF kind_bus_conversion] by simp
qed

text \<open>
  C32: a settings service that cannot be asked at start-up turns NTP off. The failed read gives the
  empty string, which is no mode: the manager keeps its default mode, NTP included, but timedated is
  told to disable NTP.
\<close>

theorem failed_setting_disables_ntp:
  assumes "documented_conversion B"
    and "get_object B [GetSubTree settings_root timeSyncIntf]
      (fst (Objects B [])) timeSyncIntf = None"
  shows "\<exists>s. Manager B = Inr s \<and> timeMode s = default_time_mode B \<and> last (calls s) = SetNTP False"
proof -
  obtain path where o: "Objects B [] = (path, [GetSubTree settings_root timeSyncIntf])"
    by (cases "get_subtree B []") (auto simp: Objects_def getSubTree_def)
  have v: "[] \<noteq> ntpSync" "[] \<noteq> manualSync" using sync_strings(3,4) by metis+
  from assms(2) o show ?thesis
    by (simp add: Manager_def getSetting_def getService_def onPropertyChanged_other [OF assms(1) v])
qed

theorem failed_setting_disables_ntp_witness:
  "\<exists>s. Manager ((kind_bus NTP)\<lparr>get_object := (\<lambda>l p i. None), default_time_mode := NTP\<rparr>) = Inr s
     \<and> timeMode s = NTP \<and> last (calls s) = SetNTP False"
proof -
  let ?B = "(kind_bus NTP)\<lparr>get_object := (\<lambda>l p i. None), default_time_mode := NTP\<rparr>"
  have "documented_conversion ?B" by (simp add: documented_conversion_def kind_bus_def)
  from failed_setting_disables_ntp [OF this] show ?thesis by simp
qed

end
