(* ===== verification/Calendar.thy ===== *)
theory Calendar
  imports Prelude
begin

text \<open>
  Timestamps as the programs print them: \<open>gmtime\<close> and \<open>put_time\<close> of the standard library, used by
  \<open>BmcEpoch::setTime\<close> (\<open>bmc_epoch.cpp\<close>) and \<open>currentUtcDateTime\<close> (\<open>oem/nvidia/hmc_time_sync.cpp\<close>),
  both with the format \<open>%Y-%m-%dT%H:%M:%S+00:00\<close>. Times are seconds since the epoch, negative ones
  included, back to the year 1570: counting starts 400 years (146097 days) before the epoch, earlier
  than any time the programs can format.
\<close>

section \<open>The civil calendar\<close>

definition leap :: "nat \<Rightarrow> bool" where
  "leap y \<longleftrightarrow> y mod 4 = 0 \<and> y mod 100 \<noteq> 0 \<or> y mod 400 = 0"

definition year_len :: "nat \<Rightarrow> nat" where
  "year_len y = (if leap y then 366 else 365)"

definition month_len :: "nat \<Rightarrow> nat \<Rightarrow> nat" where
  "month_len y m = (if m = 2 then (if leap y then 29 else 28)
     else if m = 4 \<or> m = 6 \<or> m = 9 \<or> m = 11 then 30 else 31)"

lemma year_len_pos [simp]: "0 < year_len y"
  by (simp add: year_len_def)

lemma month_len_pos [simp]: "0 < month_len y m"
  by (simp add: month_len_def)

text \<open>The year and the day in it; the month and the day in it.\<close>

function civil_year :: "nat \<Rightarrow> nat \<Rightarrow> nat \<times> nat" where
  "civil_year d y = (if d < year_len y then (y, d) else civil_year (d - year_len y) (Suc y))"
  by pat_completeness auto
termination
  by (relation "measure (\<lambda>(d, y). d)") (auto intro: diff_less simp: year_len_def)

function civil_month :: "nat \<Rightarrow> nat \<Rightarrow> nat \<Rightarrow> nat \<times> nat" where
  "civil_month d y m = (if d < month_len y m then (m, d) else civil_month (d - month_len y m) y (Suc m))"
  by pat_completeness auto
termination
  by (relation "measure (\<lambda>(d, y, m). d)") (auto intro: diff_less simp: month_len_def)

declare civil_year.simps [simp del] civil_month.simps [simp del]

record tm =
  tm_year :: nat
  tm_mon :: nat
  tm_mday :: nat
  tm_hour :: nat
  tm_min :: nat
  tm_sec :: nat

definition calendar_start :: int where
  "calendar_start = -12622780800"

definition gmtime :: "int \<Rightarrow> tm" where
  "gmtime t =
     (let u = nat (t - calendar_start);
          (y, yd) = civil_year (u div 86400) 1570;
          (m, md) = civil_month yd y 1;
          s = u mod 86400
      in \<lparr>tm_year = y, tm_mon = m, tm_mday = Suc md,
          tm_hour = s div 3600, tm_min = s mod 3600 div 60, tm_sec = s mod 60\<rparr>)"

section \<open>Text\<close>

definition digit :: "nat \<Rightarrow> char" where
  "digit n = char_of (48 + n)"

definition pad2 :: "nat \<Rightarrow> string" where
  "pad2 n = [digit (n div 10), digit (n mod 10)]"

definition timestamp :: "int \<Rightarrow> string" where
  "timestamp t =
     (let v = gmtime t
      in to_string (tm_year v) @ ''-'' @ pad2 (tm_mon v) @ ''-'' @ pad2 (tm_mday v) @ ''T''
         @ pad2 (tm_hour v) @ '':'' @ pad2 (tm_min v) @ '':'' @ pad2 (tm_sec v) @ ''+00:00'')"

section \<open>Reading a timestamp back\<close>

text \<open>
  What the text means: the number of seconds from the epoch to the time it names. \<open>days_before\<close> is
  the number of days before a year of the proleptic Gregorian calendar, in closed form.
\<close>

definition days_before :: "nat \<Rightarrow> nat" where
  "days_before y = 365 * y + (y + 3) div 4 + (y + 399) div 400 - (y + 99) div 100"

definition month_days_before :: "nat \<Rightarrow> nat \<Rightarrow> nat" where
  "month_days_before y m = sum_list (map (month_len y) [1..<m])"

definition digit_val :: "char \<Rightarrow> nat" where
  "digit_val c = of_char c - 48"

fun read_timestamp :: "string \<Rightarrow> int option" where
  "read_timestamp [y1, y2, y3, y4, d1, m1, m2, d2, a1, a2, tt, h1, h2, c1, n1, n2, c2, s1, s2,
     z0, z1, z2, z3, z4, z5] =
     (let num = (\<lambda>a b. 10 * digit_val a + digit_val b); y = 100 * num y1 y2 + num y3 y4
      in Some ((int (days_before y + month_days_before y (num m1 m2) + num a1 a2 - 1) - int (days_before 1970))
           * 86400 + int (num h1 h2 * 3600 + num n1 n2 * 60 + num s1 s2)))"
| "read_timestamp _ = None"

section \<open>Lemmas\<close>

lemma ceil_div:
  assumes "0 < (k :: nat)"
  shows "(y + (k - 1)) div k = y div k + (if y mod k = 0 then 0 else 1)"
proof -
  have "y + (k - 1) = y div k * k + (y mod k + (k - 1))" by simp
  then have "(y + (k - 1)) div k = y div k + (y mod k + (k - 1)) div k"
    using assms by (metis add.commute div_mult_self1 less_not_refl)
  moreover have "(y mod k + (k - 1)) div k = (if y mod k = 0 then 0 else 1)"
  proof (cases "y mod k = 0")
    case False
    with assms have "y mod k + (k - 1) = k + (y mod k - 1)" by simp
    then have "(y mod k + (k - 1)) div k = 1 + (y mod k - 1) div k"
      using assms by (simp only: div_add_self1)
    moreover have "(y mod k - 1) div k = 0" using mod_less_divisor [OF assms, of y] by simp
    ultimately show ?thesis using False by simp
  qed (use assms in simp)
  ultimately show ?thesis by simp
qed

lemma ceil_div_Suc:
  assumes "0 < (k :: nat)"
  shows "(Suc y + (k - 1)) div k = (y + (k - 1)) div k + (if y mod k = 0 then 1 else 0)"
proof -
  have "Suc y + (k - 1) = y + k" using assms by simp
  then have "(Suc y + (k - 1)) div k = y div k + 1" using assms by (simp add: div_add_self2)
  with ceil_div [OF assms, of y] show ?thesis by simp
qed

lemma day_count_step:
  "(b :: nat) \<le> a \<Longrightarrow> a' = a + i \<Longrightarrow> b' = b + j \<Longrightarrow> c' = c + k \<Longrightarrow> l + j = 365 + i + k \<Longrightarrow>
     365 * Suc y + a' + c' - b' = 365 * y + a + c - b + l"
  by simp

lemma days_before_Suc: "days_before (Suc y) = days_before y + year_len y"
proof -
  have m: "y mod 400 = 0 \<Longrightarrow> y mod 100 = 0" "y mod 100 = 0 \<Longrightarrow> y mod 4 = 0"
    by presburger+
  have "4 * ((y + 99) div 100) \<le> y + 3"
  proof (cases "(y + 99) div 100")
    case (Suc q)
    have "100 * ((y + 99) div 100) \<le> y + 99" by simp
    with Suc show ?thesis by linarith
  qed simp
  then have le: "(y + 99) div 100 \<le> (y + 3) div 4" by (simp add: less_eq_div_iff_mult_less_eq mult.commute)
  have steps: "(Suc y + 3) div 4 = (y + 3) div 4 + (if y mod 4 = 0 then 1 else 0)"
    "(Suc y + 99) div 100 = (y + 99) div 100 + (if y mod 100 = 0 then 1 else 0)"
    "(Suc y + 399) div 400 = (y + 399) div 400 + (if y mod 400 = 0 then 1 else 0)"
    using ceil_div_Suc [of 4 y] ceil_div_Suc [of 100 y] ceil_div_Suc [of 400 y] by simp_all
  have "year_len y + (if y mod 100 = 0 then 1 else 0)
      = 365 + (if y mod 4 = 0 then 1 else 0) + (if y mod 400 = 0 then 1 else 0)"
    using m by (auto simp: year_len_def leap_def)
  with le steps show ?thesis unfolding days_before_def by (rule day_count_step)
qed

lemma days_before_mono: "y \<le> y' \<Longrightarrow> days_before y \<le> days_before y'"
  by (induction y' rule: dec_induct) (simp_all add: days_before_Suc)

lemma civil_year_spec:
  "civil_year d y = (y', r) \<Longrightarrow> y \<le> y' \<and> r < year_len y' \<and> days_before y + d = days_before y' + r"
proof (induction d y rule: civil_year.induct)
  case (1 d y)
  show ?case
  proof (cases "d < year_len y")
    case True
    with 1(2) show ?thesis by (subst (asm) civil_year.simps) auto
  next
    case False
    with 1(2) have "civil_year (d - year_len y) (Suc y) = (y', r)"
      by (subst (asm) civil_year.simps) auto
    from 1(1) [OF False this] False show ?thesis by (simp add: days_before_Suc)
  qed
qed

lemma civil_month_spec:
  "civil_month d y m = (m', r) \<Longrightarrow> 1 \<le> m \<Longrightarrow>
     m \<le> m' \<and> r < month_len y m' \<and> month_days_before y m + d = month_days_before y m' + r"
proof (induction d y m rule: civil_month.induct)
  case (1 d y m)
  show ?case
  proof (cases "d < month_len y m")
    case True
    with 1(2) show ?thesis by (subst (asm) civil_month.simps) auto
  next
    case False
    with 1(2) have "civil_month (d - month_len y m) y (Suc m) = (m', r)"
      by (subst (asm) civil_month.simps) auto
    from 1(1) [OF False this] 1(3) False show ?thesis
      by (simp add: month_days_before_def)
  qed
qed

lemma month_days_total: "month_days_before y 13 = year_len y"
  by (simp add: month_days_before_def month_len_def year_len_def upt_rec)

lemma month_days_mono: "m \<le> m' \<Longrightarrow> month_days_before y m \<le> month_days_before y m'"
proof (induction m' rule: dec_induct)
  case (step n)
  then show ?case by (cases "n = 0") (simp_all add: month_days_before_def)
qed simp

text \<open>The fields of a time are in range and name it.\<close>

lemma gmtime_spec:
  assumes "calendar_start \<le> t" and "t < 253402300800"
  shows "1570 \<le> tm_year (gmtime t)" "tm_year (gmtime t) < 10000"
    "1 \<le> tm_mon (gmtime t)" "tm_mon (gmtime t) \<le> 12"
    "1 \<le> tm_mday (gmtime t)" "tm_mday (gmtime t) \<le> month_len (tm_year (gmtime t)) (tm_mon (gmtime t))"
    "tm_hour (gmtime t) < 24" "tm_min (gmtime t) < 60" "tm_sec (gmtime t) < 60"
    "(int (days_before (tm_year (gmtime t)) + month_days_before (tm_year (gmtime t)) (tm_mon (gmtime t))
          + tm_mday (gmtime t) - 1) - int (days_before 1970)) * 86400
      + int (tm_hour (gmtime t) * 3600 + tm_min (gmtime t) * 60 + tm_sec (gmtime t)) = t"
proof -
  obtain u where u: "u = nat (t - calendar_start)" by simp
  have t: "t = int u + calendar_start" using u assms(1) by simp
  obtain y yd where y: "civil_year (u div 86400) 1570 = (y, yd)" by (metis surj_pair)
  obtain m md where m: "civil_month yd y 1 = (m, md)" by (metis surj_pair)
  let ?s = "u mod 86400"
  have g: "gmtime t = \<lparr>tm_year = y, tm_mon = m, tm_mday = Suc md, tm_hour = ?s div 3600,
      tm_min = ?s mod 3600 div 60, tm_sec = ?s mod 60\<rparr>"
    using y m u by (simp add: gmtime_def Let_def)
  note Y = civil_year_spec [OF y] and M = civil_month_spec [OF m]
  have first: "month_days_before y 1 = 0" by (simp add: month_days_before_def)
  have mono: "days_before 10000 \<le> days_before y" if "10000 \<le> y"
    using that by (rule days_before_mono)
  have top: "days_before 10000 = days_before 1570 + 3078994" "days_before 1970 = days_before 1570 + 146097"
    by (simp_all add: days_before_def)
  have "u < 266025081600" using assms(2) t by (simp add: calendar_start_def)
  then have "u div 86400 < 3078994" by simp
  then show "tm_year (gmtime t) < 10000" using Y mono top g by (cases "y < 10000") auto
  show "1570 \<le> tm_year (gmtime t)" "1 \<le> tm_mon (gmtime t)" "1 \<le> tm_mday (gmtime t)"
    "tm_mday (gmtime t) \<le> month_len (tm_year (gmtime t)) (tm_mon (gmtime t))"
    using Y M g by simp_all
  have "m < 13"
  proof (rule ccontr)
    assume "\<not> m < 13"
    then have "month_days_before y 13 \<le> month_days_before y m" by (intro month_days_mono) simp
    with M Y first month_days_total [of y] show False by simp
  qed
  then show "tm_mon (gmtime t) \<le> 12" using g by simp
  show "tm_hour (gmtime t) < 24" "tm_min (gmtime t) < 60" "tm_sec (gmtime t) < 60"
    using g by (simp_all add: less_mult_imp_div_less)
  have "int (days_before y + month_days_before y m + Suc md - 1) - int (days_before 1970)
      = int (u div 86400) - 146097"
  proof -
    have "days_before 1570 + u div 86400 = days_before y + yd" using Y by simp
    moreover have "yd = month_days_before y m + md" using M first by simp
    ultimately show ?thesis using top(2) by simp
  qed
  moreover have "?s div 3600 * 3600 + ?s mod 3600 div 60 * 60 + ?s mod 60 = ?s"
  proof -
    have "?s mod 60 = ?s mod 3600 mod 60" by (simp add: mod_mod_cancel)
    then show ?thesis by (metis add.assoc div_mult_mod_eq)
  qed
  moreover have "(int (u div 86400) - 146097) * 86400 + int ?s = t"
  proof -
    have "int (u div 86400) * 86400 + int ?s = int u"
      by (metis div_mult_mod_eq of_nat_add of_nat_mult of_nat_numeral)
    with t show ?thesis unfolding calendar_start_def by simp
  qed
  ultimately show "(int (days_before (tm_year (gmtime t))
        + month_days_before (tm_year (gmtime t)) (tm_mon (gmtime t)) + tm_mday (gmtime t) - 1)
        - int (days_before 1970)) * 86400
      + int (tm_hour (gmtime t) * 3600 + tm_min (gmtime t) * 60 + tm_sec (gmtime t)) = t"
    unfolding g tm.simps by (simp only:)
qed

lemma digit_val_digit: "n < 10 \<Longrightarrow> digit_val (digit n) = n"
  by (simp add: digit_val_def digit_def)

lemma pad2_val: "n < 100 \<Longrightarrow> 10 * digit_val (digit (n div 10)) + digit_val (digit (n mod 10)) = n"
  by (simp add: digit_val_digit less_mult_imp_div_less)

lemma to_string_4:
  assumes "1000 \<le> n" "n < 10000"
  shows "to_string n = [digit (n div 1000), digit (n div 100 mod 10), digit (n div 10 mod 10), digit (n mod 10)]"
proof -
  have 1: "to_string n = to_string (n div 10) @ [digit (n mod 10)]"
    using assms by (subst to_string.simps) (simp add: digit_def)
  have 2: "to_string (n div 10) = to_string (n div 100) @ [digit (n div 10 mod 10)]"
    using assms by (subst to_string.simps) (simp add: digit_def div_mult2_eq [symmetric])
  have 3: "to_string (n div 100) = to_string (n div 1000) @ [digit (n div 100 mod 10)]"
    using assms by (subst to_string.simps) (simp add: digit_def div_mult2_eq [symmetric])
  have 4: "to_string (n div 1000) = [digit (n div 1000)]"
    using assms by (subst to_string.simps) (simp add: digit_def less_mult_imp_div_less)
  show ?thesis by (simp add: 1 2 3 4)
qed

text \<open>Every timestamp of the years 1570 to 9999 reads back as its time.\<close>

lemma read_timestamp_timestamp:
  assumes "calendar_start \<le> t" and "t < 253402300800"
  shows "read_timestamp (timestamp t) = Some t"
proof -
  let ?v = "gmtime t"
  note G = gmtime_spec [OF assms]
  let ?y = "tm_year ?v"
  have y: "to_string ?y = [digit (?y div 1000), digit (?y div 100 mod 10), digit (?y div 10 mod 10),
      digit (?y mod 10)]"
    using G(1,2) by (intro to_string_4) simp_all
  have y100: "?y div 100 < 100" using G(2) by (simp add: less_mult_imp_div_less)
  have hi: "10 * digit_val (digit (?y div 1000)) + digit_val (digit (?y div 100 mod 10)) = ?y div 100"
    using pad2_val [OF y100] by (simp add: div_mult2_eq [symmetric])
  have lo: "10 * digit_val (digit (?y div 10 mod 10)) + digit_val (digit (?y mod 10)) = ?y mod 100"
    using mod_mult2_eq [of ?y 10 10] by (simp add: digit_val_digit)
  have md: "tm_mday ?v < 100"
    using G(6) by (auto simp: month_len_def split: if_splits)
  have num: "10 * digit_val (digit (n div 10)) + digit_val (digit (n mod 10)) = n"
    if "n \<in> {tm_mon ?v, tm_mday ?v, tm_hour ?v, tm_min ?v, tm_sec ?v}" for n
    using that G md by (intro pad2_val) auto
  have year: "100 * (?y div 100) + ?y mod 100 = ?y" by simp
  have "read_timestamp (timestamp t) = Some
    ((int (days_before (100 * (?y div 100) + ?y mod 100)
        + month_days_before (100 * (?y div 100) + ?y mod 100) (tm_mon ?v) + tm_mday ?v - 1)
        - int (days_before 1970)) * 86400
      + int (tm_hour ?v * 3600 + tm_min ?v * 60 + tm_sec ?v))"
    unfolding timestamp_def Let_def y pad2_def append.simps read_timestamp.simps hi lo
    by (simp only: num insert_iff simp_thms Let_def)
  then show ?thesis unfolding year G(10) .
qed

end
