(* ===== verification/BmcEpoch.thy ===== *)
theory BmcEpoch
  imports TimeManager Calendar
begin

text \<open>
  The \<open>EpochTime\<close> object (\<open>bmc_epoch.cpp\<close>): the property \<open>Elapsed\<close>, whose setter asks timedated to set
  the clock and logs the new time, and the timer descriptor that reports jumps of the clock. Results
  of the system calls are parameters; the clock is a parameter of the getter.
\<close>

section \<open>State and operations\<close>

record epoch =
  timeFd :: int
  open_fds :: "int list"
  elapsed_property :: u64
  epoch_manager :: manager

record timer_calls =
  timerfd_create :: int
  timerfd_settime :: int
  sd_event_add_io :: int

definition initialize :: "timer_calls \<Rightarrow> epoch \<Rightarrow> (exn + unit) \<times> epoch" where
  "initialize T e =
     (let fd = timerfd_create T; e1 = e\<lparr>timeFd := fd\<rparr>
      in if fd = -1 then (Inl InternalFailure, e1)
         else
           (let e2 = e1\<lparr>open_fds := fd # open_fds e1\<rparr>
            in if timerfd_settime T \<noteq> 0 then (Inl InternalFailure, e2)
               else if sd_event_add_io T < 0 then (Inl InternalFailure, e2)
               else (Inr (), e2)))"

text \<open>An exception leaves the constructor without running the destructor.\<close>

definition BmcEpoch :: "timer_calls \<Rightarrow> manager \<Rightarrow> (exn + unit) \<times> epoch" where
  "BmcEpoch T m = initialize T \<lparr>timeFd = -1, open_fds = [], elapsed_property = 0, epoch_manager = m\<rparr>"

definition BmcEpoch_destroy :: "epoch \<Rightarrow> epoch" where
  "BmcEpoch_destroy e = e\<lparr>open_fds := remove1 (timeFd e) (open_fds e)\<rparr>"

text \<open>Draining the timer: \<open>read\<close> is called until it reports no data; \<open>None\<close> if it blocks before that.\<close>

fun onTimeChange :: "int list \<Rightarrow> (int \<times> int list) option" where
  "onTimeChange [] = None"
| "onTimeChange (r # rs) = (if r > 0 then onTimeChange rs else Some (0, rs))"

definition onModeChanged :: "Mode \<Rightarrow> epoch \<Rightarrow> epoch" where
  "onModeChanged mode e = e\<lparr>epoch_manager := setTimeMode mode (epoch_manager e)\<rparr>"

text \<open>\<open>system_clock\<close> counts nanoseconds.\<close>

definition getTime :: "int \<Rightarrow> int" where
  "getTime now = duration_cast_down 1000 now"

definition elapsed :: "int \<Rightarrow> u64" where
  "elapsed now = word_of_int (getTime now)"

definition int64 :: "int \<Rightarrow> bool" where
  "int64 n \<longleftrightarrow> -9223372036854775808 \<le> n \<and> n \<le> 9223372036854775807"

definition timeUpdated :: string where
  "timeUpdated = ''OpenBMC.0.4.BMCSystemTimeUpdated''"

text \<open>The additional data, in the order of the map's keys.\<close>

definition time_log :: "string \<Rightarrow> add_data" where
  "time_log ts = [(''REDFISH_MESSAGE_ARGS'', ts), (''REDFISH_MESSAGE_ID'', timeUpdated),
     (''xyz.openbmc_project.Logging.Entry.Resolution'', ''None'')]"

definition informational :: string where
  "informational = ''xyz.openbmc_project.Logging.Entry.Level.Informational''"

text \<open>
  The conversion to a \<open>time_point\<close> multiplies by 1000; a signed overflow there has no defined meaning.
\<close>

definition setTime :: "bus \<Rightarrow> int \<Rightarrow> call list \<Rightarrow> (exn + bool) \<times> call list" where
  "setTime B usec l =
     (let l1 = l @ [SetTime usec]
      in if \<not> accepts B l (SetTime usec) then (Inl TimeFailed, l1)
         else if \<not> int64 (usec * 1000) then (Inl UndefinedBehaviour, l1)
         else
           (let time = duration_cast_down 1000000000 (usec * 1000)
            in (Inr True, addEventLog timeUpdated informational (time_log (timestamp time)) l1)))"

text \<open>\<open>microseconds(value)\<close> reinterprets the unsigned value as a signed count.\<close>

definition set_elapsed :: "bus \<Rightarrow> u64 \<Rightarrow> epoch \<Rightarrow> (exn + u64) \<times> epoch" where
  "set_elapsed B val e =
     (let m = epoch_manager e; (r, l) = setTime B (sint val) (calls m);
          e1 = e\<lparr>epoch_manager := m\<lparr>calls := l\<rparr>\<rparr>
      in case r of Inl x \<Rightarrow> (Inl x, e1) | Inr b \<Rightarrow> (Inr val, e1\<lparr>elapsed_property := val\<rparr>))"

section \<open>Lemmas\<close>

text \<open>The values \<open>SetTime\<close> can take without an overflow, as unsigned numbers.\<close>

definition max_usec :: nat where
  "max_usec = 9223372036854775"

lemma unat_u64_less: "unat (val :: u64) < 18446744073709551616"
  using unsigned_less [of val, where ?'a = nat] by simp

lemma signed_of_nat:
  "n < 18446744073709551616 \<Longrightarrow> (int n + 9223372036854775808) mod 18446744073709551616 - 9223372036854775808
     = (if n < 9223372036854775808 then int n else int n - 18446744073709551616)"
  by (auto simp: mod_pos_pos_trivial mod_pos_geq)

lemma sint_cases: "sint (val :: u64) = (if unat val < 9223372036854775808 then int (unat val)
    else int (unat val) - 18446744073709551616)"
proof -
  obtain n where n: "n = unat val" "uint val = int n" by simp
  have "sint val = (int n + 9223372036854775808) mod 18446744073709551616 - 9223372036854775808"
    by (simp add: sint_uint signed_take_bit_eq_take_bit_shift take_bit_eq_mod n(2))
  also have "\<dots> = (if n < 9223372036854775808 then int n else int n - 18446744073709551616)"
    using unat_u64_less [of val] unfolding n(1) [symmetric] by (rule signed_of_nat)
  finally show ?thesis by (simp only: n(1))
qed

lemma int64_usec:
  "int64 (sint (val :: u64) * 1000) \<longleftrightarrow> unat val \<le> max_usec \<or> 18446744073709551616 - max_usec \<le> unat val"
proof -
  obtain n where n: "n = unat val" by simp
  show ?thesis
    using unat_u64_less [of val] unfolding sint_cases int64_def max_usec_def n [symmetric] by auto
qed

lemma elapsed_of_clock: "elapsed (sint val * 1000) = val"
proof -
  have "getTime (sint val * 1000) = sint val"
    by (simp add: getTime_def duration_cast_down_def minus_mult_left del: mult_minus_left)
  then show ?thesis by (simp add: elapsed_def)
qed

lemma onTimeChange_drains:
  "onTimeChange rs = (case dropWhile (\<lambda>r. r > 0) rs of [] \<Rightarrow> None | r # rs' \<Rightarrow> Some (0, rs'))"
  by (induction rs) simp_all

lemma setTime_accepted:
  assumes "accepts B l (SetTime (int n))" and "n \<le> max_usec"
  shows "setTime B (int n) l = (Inr True, l @ [SetTime (int n),
    CreateLog timeUpdated informational (time_log (timestamp (int (n div 1000000))))])"
proof -
  have "int64 (int n * 1000)" using assms(2) by (simp add: int64_def max_usec_def)
  moreover have "duration_cast_down 1000000000 (int n * 1000) = int (n div 1000000)"
    by (simp add: duration_cast_down_def zdiv_int)
  ultimately show ?thesis
    using assms(1) by (simp add: setTime_def addEventLog_def Let_def)
qed

section \<open>The listener\<close>

text \<open>
  \<open>PropertyChangeListener\<close> of \<open>property_change_listener.hpp\<close>: whoever is told of the modes in turn ends
  in the last one.
\<close>

locale property_change_listener =
  fixes notify :: "'m \<Rightarrow> 'l \<Rightarrow> 'l" and mode_of :: "'l \<Rightarrow> 'm"
  assumes notified: "mode_of (notify m l) = m"
begin

lemma last_notified: "ms \<noteq> [] \<Longrightarrow> mode_of (fold notify ms l) = last ms"
  by (cases ms rule: rev_cases) (simp_all add: notified)

end

interpretation epoch_listener: property_change_listener onModeChanged "\<lambda>e. getTimeMode (epoch_manager e)"
  by unfold_locales (simp add: onModeChanged_def getTimeMode_def setTimeMode_def)

text \<open>The epoch object only passes the mode on to its manager, which makes no call for it.\<close>

lemma epoch_notified:
  assumes "ms \<noteq> []"
  shows "getTimeMode (epoch_manager (fold onModeChanged ms e)) = last ms"
    and "calls (epoch_manager (fold onModeChanged ms e)) = calls (epoch_manager e)"
proof -
  show "getTimeMode (epoch_manager (fold onModeChanged ms e)) = last ms"
    by (rule epoch_listener.last_notified [OF assms])
  show "calls (epoch_manager (fold onModeChanged ms e)) = calls (epoch_manager e)"
    by (induction ms arbitrary: e) (simp_all add: onModeChanged_def setTimeMode_def)
qed

section \<open>Properties\<close>

text \<open>
  C30: what a write of \<open>Elapsed\<close> can end in. timedated refusing the time is the error \<open>Failed\<close>; an
  accepted time of more than 9223372036854775 microseconds (the year 2262) before or after the epoch
  runs into a signed overflow, the clock already being set; every other accepted write returns its
  value. The property keeps its old value unless the write succeeds.
\<close>

theorem set_elapsed_outcome:
  "fst (set_elapsed B val e) =
     (if \<not> accepts B (calls (epoch_manager e)) (SetTime (sint val)) then Inl TimeFailed
      else if unat val \<le> max_usec \<or> 18446744073709551616 - max_usec \<le> unat val then Inr val
      else Inl UndefinedBehaviour)
   \<and> elapsed_property (snd (set_elapsed B val e)) =
     (if fst (set_elapsed B val e) = Inr val then val else elapsed_property e)"
  by (simp add: set_elapsed_def setTime_def int64_usec Let_def)

text \<open>
  C23: a write that succeeds sets the clock once and logs it once. timedated is asked for exactly the
  value, the log entry follows, its timestamp read back as a date names the second the clock was set
  to, the mode is not touched, and the clock so set reads as the value written.
\<close>

theorem set_elapsed_logs_time:
  assumes "accepts B (calls (epoch_manager e)) (SetTime (int (unat val)))" and "unat val \<le> max_usec"
  shows "\<exists>ts. set_elapsed B val e = (Inr val, e\<lparr>elapsed_property := val,
      epoch_manager := epoch_manager e\<lparr>calls := calls (epoch_manager e) @
        [SetTime (int (unat val)), CreateLog timeUpdated informational (time_log ts)]\<rparr>\<rparr>)
    \<and> read_timestamp ts = Some (int (unat val div 1000000))
    \<and> elapsed (int (unat val) * 1000) = val"
proof -
  let ?ts = "timestamp (int (unat val div 1000000))"
  have v: "sint val = int (unat val)" using assms(2) by (simp add: sint_cases max_usec_def)
  have "unat val div 1000000 \<le> 9223372036" using assms(2) div_le_mono [of "unat val" max_usec 1000000]
    by (simp add: max_usec_def)
  then have "read_timestamp ?ts = Some (int (unat val div 1000000))"
    by (intro read_timestamp_timestamp) (simp_all add: calendar_start_def)
  moreover have "elapsed (int (unat val) * 1000) = val" using elapsed_of_clock [of val] v by simp
  ultimately show ?thesis
    using setTime_accepted [OF assms] by (intro exI [of _ ?ts]) (simp add: set_elapsed_def v Let_def)
qed

definition sample_epoch :: "Mode \<Rightarrow> epoch" where
  "sample_epoch m = \<lparr>timeFd = 3, open_fds = [3], elapsed_property = 0, epoch_manager = sample_manager m\<rparr>"

theorem set_elapsed_logs_time_witness:
  "\<exists>e' ts. set_elapsed (kind_bus Manual) 1487304700000000 (sample_epoch Manual) = (Inr 1487304700000000, e')
     \<and> calls (epoch_manager e') = [SetTime 1487304700000000,
         CreateLog timeUpdated informational (time_log ts)]
     \<and> read_timestamp ts = Some 1487304700"
proof -
  have "accepts (kind_bus Manual) (calls (epoch_manager (sample_epoch Manual)))
      (SetTime (int (unat (1487304700000000 :: u64))))" by (simp add: kind_bus_def)
  moreover have "unat (1487304700000000 :: u64) \<le> max_usec" by (simp add: max_usec_def)
  ultimately have "\<exists>ts. set_elapsed (kind_bus Manual) 1487304700000000 (sample_epoch Manual)
      = (Inr 1487304700000000, (sample_epoch Manual)\<lparr>elapsed_property := 1487304700000000,
          epoch_manager := (sample_manager Manual)\<lparr>calls :=
            [SetTime 1487304700000000, CreateLog timeUpdated informational (time_log ts)]\<rparr>\<rparr>)
      \<and> read_timestamp ts = Some 1487304700"
    using set_elapsed_logs_time [of "kind_bus Manual" "sample_epoch Manual" 1487304700000000]
    by (auto simp: sample_epoch_def sample_manager_def)
  then show ?thesis by (auto simp: sample_epoch_def)
qed

text \<open>
  Starting the object. It starts exactly if all three calls succeed, and then its destructor
  closes the timer; if the timer exists but cannot be armed or watched, the exception leaves the
  descriptor open, since the destructor of a half-built object does not run.
\<close>

theorem startup_descriptor:
  "(fst (BmcEpoch T m) = Inr () \<longleftrightarrow>
      timerfd_create T \<noteq> -1 \<and> timerfd_settime T = 0 \<and> 0 \<le> sd_event_add_io T)
   \<and> open_fds (snd (BmcEpoch T m)) = (if timerfd_create T = -1 then [] else [timerfd_create T])
   \<and> open_fds (BmcEpoch_destroy (snd (BmcEpoch T m))) = []"
  by (simp add: BmcEpoch_def initialize_def BmcEpoch_destroy_def Let_def)

end
