(* ===== verification/TimeSystem.thy ===== *)
theory TimeSystem
  imports BmcEpoch
begin

text \<open>
  The time manager in its surroundings (\<open>main.cpp\<close>): its two objects, the settings service that holds
  \<open>TimeSyncMethod\<close>, timedated that holds \<open>NTP\<close>, and the queue of \<open>PropertiesChanged\<close> signals on
  their way to the manager. Both services are parameters: what a write does to their property and
  which signals it emits. The manager and the services together keep one mode in three places; the
  specification is a symmetric mirror of two values, and the deliveries of signals refine it.
\<close>

section \<open>The process\<close>

text \<open>\<open>Inl\<close> carries the exit code of a \<open>main\<close> whose start failed.\<close>

definition manager_main :: "bus \<Rightarrow> timer_calls \<Rightarrow> int + epoch" where
  "manager_main B T =
     (case Manager B of
        Inl e \<Rightarrow> Inl (-1)
      | Inr m \<Rightarrow>
          (case BmcEpoch T m of
             (Inl e, ep) \<Rightarrow> Inl (-1)
           | (Inr u, ep) \<Rightarrow> Inr ep))"

datatype signal =
    SettingsSignal "(string \<times> string) list"
  | TimedateSignal "(string \<times> (string + bool)) list"

fun handle_signal :: "bus \<Rightarrow> signal \<Rightarrow> manager \<Rightarrow> exn + manager" where
  "handle_signal B (SettingsSignal properties) m =
     bindR (onSettingsChanged B properties m) (\<lambda>(rc, m'). Inr m')"
| "handle_signal B (TimedateSignal properties) m = Inr (snd (onTimedateChanged B properties m))"

section \<open>The services\<close>

text \<open>
  The old value and the requested one give the new value and the signals emitted; whether the time
  may be set is decided by the \<open>NTP\<close> property and the status of the NTP service.
\<close>

datatype ntp_service = ServiceActive | ServiceStopping | ServiceStopped

record daemons =
  settings_write :: "string \<Rightarrow> string \<Rightarrow> string \<times> signal list"
  timedate_write :: "bool \<Rightarrow> bool \<Rightarrow> bool \<times> signal list"
  may_set_time :: "bool \<Rightarrow> ntp_service \<Rightarrow> bool"

record time_sys =
  epoch_obj :: epoch
  setting :: string
  ntp :: bool
  pending :: "signal list"

abbreviation mgr :: "time_sys \<Rightarrow> manager" where
  "mgr s \<equiv> epoch_manager (epoch_obj s)"

definition user_setting :: "daemons \<Rightarrow> string \<Rightarrow> time_sys \<Rightarrow> time_sys" where
  "user_setting D v s =
     (let (x, sg) = settings_write D (setting s) v in s\<lparr>setting := x, pending := pending s @ sg\<rparr>)"

definition user_ntp :: "daemons \<Rightarrow> bool \<Rightarrow> time_sys \<Rightarrow> time_sys" where
  "user_ntp D b s =
     (let (x, sg) = timedate_write D (ntp s) b in s\<lparr>ntp := x, pending := pending s @ sg\<rparr>)"

text \<open>What a call of the manager does to the services.\<close>

fun obey :: "daemons \<Rightarrow> call \<Rightarrow> time_sys \<Rightarrow> time_sys" where
  "obey D (SetNTP b) s = user_ntp D b s"
| "obey D (SetProperty service path intf property v) s =
     (if intf = timeSyncIntf \<and> property = propertyTimeMode then user_setting D v s else s)"
| "obey D c s = s"

fun obey_all :: "bus \<Rightarrow> daemons \<Rightarrow> call list \<Rightarrow> call list \<Rightarrow> time_sys \<Rightarrow> time_sys" where
  "obey_all B D l [] s = s"
| "obey_all B D l (c # cs) s =
     obey_all B D (l @ [c]) cs (if accepts B l c then obey D c s else s)"

definition absorb :: "bus \<Rightarrow> daemons \<Rightarrow> manager \<Rightarrow> time_sys \<Rightarrow> time_sys" where
  "absorb B D m' s =
     obey_all B D (calls (mgr s)) (drop (length (calls (mgr s))) (calls m'))
       (s\<lparr>epoch_obj := (epoch_obj s)\<lparr>epoch_manager := m'\<rparr>\<rparr>)"

definition deliver :: "bus \<Rightarrow> daemons \<Rightarrow> time_sys \<Rightarrow> exn + time_sys" where
  "deliver B D s =
     (case pending s of
        [] \<Rightarrow> Inr s
      | sg # rest \<Rightarrow>
          bindR (handle_signal B sg (mgr s)) (\<lambda>m'. Inr (absorb B D m' (s\<lparr>pending := rest\<rparr>))))"

primrec deliver_n :: "bus \<Rightarrow> daemons \<Rightarrow> nat \<Rightarrow> time_sys \<Rightarrow> exn + time_sys" where
  "deliver_n B D 0 s = Inr s"
| "deliver_n B D (Suc n) s = bindR (deliver_n B D n s) (deliver B D)"

text \<open>A write of \<open>Elapsed\<close> while the NTP service has the status \<open>st\<close>.\<close>

definition clock_bus :: "bus \<Rightarrow> daemons \<Rightarrow> ntp_service \<Rightarrow> time_sys \<Rightarrow> bus" where
  "clock_bus B D st s =
     B\<lparr>accepts := (\<lambda>l c. case c of SetTime t \<Rightarrow> may_set_time D (ntp s) st | _ \<Rightarrow> accepts B l c)\<rparr>"

definition write_elapsed ::
    "bus \<Rightarrow> daemons \<Rightarrow> ntp_service \<Rightarrow> u64 \<Rightarrow> time_sys \<Rightarrow> (exn + u64) \<times> time_sys" where
  "write_elapsed B D st val s =
     (let (r, e') = set_elapsed (clock_bus B D st s) val (epoch_obj s) in (r, s\<lparr>epoch_obj := e'\<rparr>))"

definition boot :: "bus \<Rightarrow> daemons \<Rightarrow> timer_calls \<Rightarrow> string \<Rightarrow> bool \<Rightarrow> int + time_sys" where
  "boot B D T v b =
     (case manager_main (B\<lparr>get_property := (\<lambda>l c. Some v)\<rparr>) T of
        Inl rc \<Rightarrow> Inl rc
      | Inr e \<Rightarrow>
          Inr (obey_all B D [] (calls (epoch_manager e))
            \<lparr>epoch_obj = e, setting = v, ntp = b, pending = []\<rparr>))"

inductive time_reachable :: "bus \<Rightarrow> daemons \<Rightarrow> time_sys \<Rightarrow> bool" for B D where
  started: "boot B D T (mode_string m) b = Inr s \<Longrightarrow> time_reachable B D s"
| setting_changed: "time_reachable B D s \<Longrightarrow> time_reachable B D (user_setting D (mode_string m) s)"
| ntp_changed: "time_reachable B D s \<Longrightarrow> time_reachable B D (user_ntp D b s)"
| delivered: "time_reachable B D s \<Longrightarrow> deliver B D s = Inr s' \<Longrightarrow> time_reachable B D s'"
| time_written: "time_reachable B D s \<Longrightarrow> time_reachable B D (snd (write_elapsed B D st val s))"

section \<open>Documented behaviour of the surroundings\<close>

text \<open>
  A property written with a new value takes it and announces it; a property written with the value
  it has announces nothing.
\<close>

definition documented_daemons :: "daemons \<Rightarrow> bool" where
  "documented_daemons D \<longleftrightarrow>
     settings_write D = (\<lambda>old v. (v, if v = old then [] else [SettingsSignal [(propertyTimeMode, v)]])) \<and>
     timedate_write D = (\<lambda>old v. (v, if v = old then [] else [TimedateSignal [(propertyNtp, Inr v)]]))"

text \<open>
  When timedated lets the time be set, by the README's special note: up to systemd v236 by the setting
  of NTP, since v239 by the status of the NTP service, so that the time cannot be set while the
  service is stopping although NTP is already off.
\<close>

datatype timedated = Systemd236 | Systemd239

fun lets_time_be_set :: "timedated \<Rightarrow> bool \<Rightarrow> ntp_service \<Rightarrow> bool" where
  "lets_time_be_set Systemd236 on st = (\<not> on)"
| "lets_time_be_set Systemd239 on st = (st = ServiceStopped)"

definition documented_timedated :: "timedated \<Rightarrow> daemons \<Rightarrow> bool" where
  "documented_timedated v D \<longleftrightarrow> may_set_time D = lets_time_be_set v"

text \<open>Every call finds its service and is carried out.\<close>

definition reliable_bus :: "bus \<Rightarrow> bool" where
  "reliable_bus B \<longleftrightarrow> documented_conversion B
     \<and> (\<forall>l p i. \<exists>service is rest. get_object B l p i = Some ((service, is) # rest))
     \<and> (\<forall>l c. accepts B l c)"

section \<open>The specification: a mirror of two values\<close>

datatype side = Settings | Timedated

fun other :: "side \<Rightarrow> side" where
  "other Settings = Timedated"
| "other Timedated = Settings"

record mirror =
  m_mode :: Mode
  m_val :: "side \<Rightarrow> Mode"
  m_queue :: "(side \<times> Mode) list"

definition m_write :: "side \<Rightarrow> Mode \<Rightarrow> mirror \<Rightarrow> mirror" where
  "m_write sd m a =
     (if m = m_val a sd then a
      else a\<lparr>m_val := (m_val a)(sd := m), m_queue := m_queue a @ [(sd, m)]\<rparr>)"

definition m_deliver :: "mirror \<Rightarrow> mirror" where
  "m_deliver a =
     (case m_queue a of
        [] \<Rightarrow> a
      | (sd, m) # q \<Rightarrow>
          if m = m_mode a then a\<lparr>m_queue := q\<rparr>
          else m_write (other sd) m (a\<lparr>m_mode := m, m_queue := q\<rparr>))"

fun signal_of :: "side \<times> Mode \<Rightarrow> signal" where
  "signal_of (Settings, m) = SettingsSignal [(propertyTimeMode, mode_string m)]"
| "signal_of (Timedated, m) = TimedateSignal [(propertyNtp, Inr (m = NTP))]"

definition mirrors :: "time_sys \<Rightarrow> mirror \<Rightarrow> bool" where
  "mirrors s a \<longleftrightarrow> timeMode (mgr s) = m_mode a \<and> setting s = mode_string (m_val a Settings)
     \<and> ntp s = (m_val a Timedated = NTP) \<and> pending s = map signal_of (m_queue a)"

section \<open>Lemmas\<close>

lemma mode_string_inject [simp]: "mode_string m = mode_string m' \<longleftrightarrow> m = m'"
  by (cases m; cases m') (simp_all add: mode_string_def)

lemma ntp_inject [simp]: "((m = NTP) = (m' = NTP)) \<longleftrightarrow> m = m'"
  by (cases m; cases m') simp_all

lemma other_other [simp]: "other (other sd) = sd"
  by (cases sd) simp_all

lemma other_neq [simp]: "other sd \<noteq> sd" "sd \<noteq> other sd"
  by (cases sd; simp)+

lemma side_neq [simp]: "sd \<noteq> Settings \<longleftrightarrow> sd = Timedated" "sd \<noteq> Timedated \<longleftrightarrow> sd = Settings"
  by (cases sd; simp)+

lemma obtain_mode: obtains m where "b = (m = NTP)"
  using that [of NTP] that [of Manual] by (cases b) simp_all

lemma obey_all_reliable: "reliable_bus B \<Longrightarrow> obey_all B D l cs s = fold (obey D) cs s"
  by (induction cs arbitrary: l s) (simp_all add: reliable_bus_def)

lemma user_setting_mirrors:
  "documented_daemons D \<Longrightarrow> mirrors s a \<Longrightarrow>
     mirrors (user_setting D (mode_string m) s) (m_write Settings m a)"
  by (simp add: user_setting_def documented_daemons_def mirrors_def m_write_def)

lemma user_ntp_mirrors:
  "documented_daemons D \<Longrightarrow> mirrors s a \<Longrightarrow> mirrors (user_ntp D (m = NTP) s) (m_write Timedated m a)"
  by (simp add: user_ntp_def documented_daemons_def mirrors_def m_write_def)

text \<open>A write depends on neither the manager nor what it has called.\<close>

lemma mirrors_epoch:
  "mirrors s a \<Longrightarrow> timeMode (epoch_manager e) = m \<Longrightarrow>
     mirrors (s\<lparr>pending := map signal_of q, epoch_obj := e\<rparr>) (a\<lparr>m_mode := m, m_queue := q\<rparr>)"
  by (simp add: mirrors_def)

lemma handle_signal_same:
  assumes "documented_conversion B"
  shows "handle_signal B (signal_of (sd, timeMode M)) M = Inr M"
proof (cases sd)
  case Settings
  then show ?thesis by (simp add: onPropertyChanged_mode [OF assms])
next
  case Timedated
  then show ?thesis by (auto simp: onTimedateChanged_def propertyNtp_def)
qed

text \<open>A change of mode is passed on to the other side, and to nothing else.\<close>

definition forwards :: "call list \<Rightarrow> side \<Rightarrow> Mode \<Rightarrow> bool" where
  "forwards cs sd m \<longleftrightarrow>
     (\<exists>service path. cs = (case sd of
        Settings \<Rightarrow> [SetNTP (m = NTP)]
      | Timedated \<Rightarrow> [GetObject path timeSyncIntf,
          SetProperty service path timeSyncIntf propertyTimeMode (mode_string m)]))"

lemma handle_signal_new:
  assumes "reliable_bus B" and "m \<noteq> timeMode M"
  obtains cs where "handle_signal B (signal_of (sd, m)) M = Inr (M\<lparr>timeMode := m, calls := calls M @ cs\<rparr>)"
    and "forwards cs sd m"
proof -
  from assms(1) have doc: "documented_conversion B" by (simp add: reliable_bus_def)
  show thesis
  proof (cases sd)
    case Settings
    with assms(2) show ?thesis
      by (intro that [of "[SetNTP (m = NTP)]"])
        (simp_all add: onPropertyChanged_mode [OF doc] forwards_def)
  next
    case Timedated
    from assms(1) obtain service "is" rest where
      "get_object B (calls M) (timeSyncMethod M) timeSyncIntf = Some ((service, is) # rest)"
      unfolding reliable_bus_def by blast
    moreover have "accepts B l c" for l c using assms(1) by (simp add: reliable_bus_def)
    ultimately show ?thesis
      using Timedated assms(2) onTimedateChanged_ntp [OF doc, of M service "is" rest m]
      by (intro that [of "[GetObject (timeSyncMethod M) timeSyncIntf, SetProperty service
          (timeSyncMethod M) timeSyncIntf propertyTimeMode (mode_string m)]"])
        (auto simp: forwards_def)
  qed
qed

lemma obey_forwards:
  "forwards cs sd m \<Longrightarrow> documented_daemons D \<Longrightarrow> mirrors s a \<Longrightarrow>
     mirrors (fold (obey D) cs s) (m_write (other sd) m a)"
  by (cases sd) (auto simp: forwards_def user_setting_mirrors user_ntp_mirrors)

lemma deliver_mirrors:
  assumes "reliable_bus B" and "documented_daemons D" and "mirrors s a"
  shows "\<exists>s'. deliver B D s = Inr s' \<and> mirrors s' (m_deliver a)"
proof (cases "m_queue a")
  case Nil
  with assms(3) show ?thesis by (simp add: deliver_def m_deliver_def mirrors_def)
next
  case (Cons x q)
  obtain sd m where x: "x = (sd, m)" by (cases x)
  have p: "pending s = signal_of (sd, m) # map signal_of q" and M: "timeMode (mgr s) = m_mode a"
    using assms(3) Cons x by (simp_all add: mirrors_def)
  have doc: "documented_conversion B" using assms(1) by (simp add: reliable_bus_def)
  show ?thesis
  proof (cases "m = m_mode a")
    case True
    with M have "handle_signal B (signal_of (sd, m)) (mgr s) = Inr (mgr s)"
      using handle_signal_same [OF doc, of sd "mgr s"] by simp
    with True show ?thesis using mirrors_epoch [OF assms(3) M, of q] p Cons x
      by (simp add: deliver_def m_deliver_def absorb_def mirrors_def)
  next
    case False
    with M have "m \<noteq> timeMode (mgr s)" by simp
    then obtain cs where cs: "handle_signal B (signal_of (sd, m)) (mgr s)
        = Inr ((mgr s)\<lparr>timeMode := m, calls := calls (mgr s) @ cs\<rparr>)" "forwards cs sd m"
      by (rule handle_signal_new [OF assms(1)])
    let ?e = "(epoch_obj s)\<lparr>epoch_manager := (mgr s)\<lparr>timeMode := m, calls := calls (mgr s) @ cs\<rparr>\<rparr>"
    have "mirrors (s\<lparr>pending := map signal_of q, epoch_obj := ?e\<rparr>) (a\<lparr>m_mode := m, m_queue := q\<rparr>)"
      by (rule mirrors_epoch [OF assms(3)]) simp
    from obey_forwards [OF cs(2) assms(2) this] False show ?thesis
      using p Cons x cs(1) by (simp add: deliver_def m_deliver_def absorb_def
          obey_all_reliable [OF assms(1)])
  qed
qed

lemma write_elapsed_frame:
  "timeMode (mgr (snd (write_elapsed B D st val s))) = timeMode (mgr s)"
  "setting (snd (write_elapsed B D st val s)) = setting s"
  "ntp (snd (write_elapsed B D st val s)) = ntp s"
  "pending (snd (write_elapsed B D st val s)) = pending s"
  by (simp_all add: write_elapsed_def set_elapsed_def Let_def split: prod.splits sum.splits)

section \<open>The mirror converges\<close>

text \<open>
  The invariant: a side with no signal under way has the value the manager has; otherwise the last
  signal under way carries its value.
\<close>

definition side_queue :: "side \<Rightarrow> mirror \<Rightarrow> Mode list" where
  "side_queue sd a = map snd (filter (\<lambda>x. fst x = sd) (m_queue a))"

definition tracked :: "mirror \<Rightarrow> bool" where
  "tracked a \<longleftrightarrow> (\<forall>sd. m_val a sd = last (m_mode a # side_queue sd a))"

lemma tracked_write [inv_intro]: "tracked a \<Longrightarrow> tracked (m_write sd m a)"
  by (auto simp: tracked_def m_write_def side_queue_def)

lemma tracked_deliver [inv_intro]:
  assumes "tracked a"
  shows "tracked (m_deliver a)"
proof (cases "m_queue a")
  case Nil
  with assms show ?thesis by (simp add: m_deliver_def)
next
  case (Cons x q)
  obtain sd m where x: "x = (sd, m)" by (cases x)
  have val: "m_val a sd' = last (m_mode a # (if sd' = sd then [m] else []) @ side_queue sd' (a\<lparr>m_queue := q\<rparr>))"
    for sd' using assms Cons x by (auto simp: tracked_def side_queue_def)
  show ?thesis
  proof (cases "m = m_mode a")
    case True
    have "m_val a sd' = last (m_mode a # side_queue sd' (a\<lparr>m_queue := q\<rparr>))" for sd'
      using val [of sd'] True by (cases "sd' = sd") auto
    with True Cons x show ?thesis by (simp add: tracked_def m_deliver_def side_queue_def)
  next
    case False
    let ?a = "a\<lparr>m_mode := m, m_queue := q\<rparr>"
    have val': "m_val a sd' = last (m # side_queue sd' ?a)"
      if "sd' = sd \<or> side_queue sd' ?a \<noteq> []" for sd'
      using that val [of sd'] by (auto simp: side_queue_def split: if_splits)
    have "tracked (m_write (other sd) m ?a)"
      using val' by (auto simp: tracked_def m_write_def side_queue_def) (metis other.simps side.exhaust)+
    with False Cons x show ?thesis by (simp add: m_deliver_def)
  qed
qed

lemma tracked_quiet: "tracked a \<Longrightarrow> m_queue a = [] \<Longrightarrow> m_val a sd = m_mode a"
  by (simp add: tracked_def side_queue_def)

lemma boot_mirrors:
  assumes "reliable_bus B" and "documented_daemons D" and "boot B D T (mode_string m) b = Inr s"
  shows "\<exists>a. mirrors s a \<and> tracked a"
proof -
  let ?B = "B\<lparr>get_property := (\<lambda>l c. Some (mode_string m))\<rparr>"
  from assms(1) have doc: "documented_conversion ?B"
    by (simp add: reliable_bus_def documented_conversion_def)
  obtain path l1 where o: "Objects ?B [] = (path, l1)" "l1 = [GetSubTree settings_root timeSyncIntf]"
    by (cases "get_subtree B []") (auto simp: Objects_def getSubTree_def)
  obtain service "is" rest where "get_object B l1 path timeSyncIntf = Some ((service, is) # rest)"
    using assms(1) unfolding reliable_bus_def by blast
  then have "getSetting ?B path timeSyncIntf propertyTimeMode l1
      = (mode_string m, l1 @ [GetObject path timeSyncIntf,
          GetProperty service path timeSyncIntf propertyTimeMode])"
    by (simp add: getSetting_def getService_def getProperty_def Let_def)
  note M = Manager_mode [OF doc o(1) this]
  obtain e where e: "manager_main ?B T = Inr e" "s = obey_all B D [] (calls (epoch_manager e))
      \<lparr>epoch_obj = e, setting = mode_string m, ntp = b, pending = []\<rparr>"
    using assms(3) by (auto simp: boot_def split: sum.splits)
  then have "epoch_manager e = projr (Manager ?B)"
    by (auto simp: manager_main_def M BmcEpoch_def initialize_def Let_def split: sum.splits prod.splits if_splits)
  with M o(2) have em: "timeMode (epoch_manager e) = m" "fold (obey D) (calls (epoch_manager e))
      = user_ntp D (m = NTP)"
    by (simp_all add: fun_eq_iff)
  obtain n where n: "b = (n = NTP)" by (rule obtain_mode)
  let ?a = "\<lparr>m_mode = m, m_val = (\<lambda>sd. if sd = Settings then m else n), m_queue = []\<rparr>"
  have "mirrors \<lparr>epoch_obj = e, setting = mode_string m, ntp = b, pending = []\<rparr> ?a"
    by (simp add: mirrors_def em n)
  then have "mirrors s (m_write Timedated m ?a)"
    using user_ntp_mirrors [OF assms(2)] by (simp add: e(2) obey_all_reliable [OF assms(1)] em)
  moreover have "tracked (m_write Timedated m ?a)"
    by (auto simp: tracked_def m_write_def side_queue_def)
  ultimately show ?thesis by blast
qed

lemma reachable_mirrors:
  assumes "time_reachable B D s" and "reliable_bus B" and "documented_daemons D"
  shows "\<exists>a. mirrors s a \<and> tracked a"
  using assms(1)
proof (induction rule: time_reachable.induct)
  case (started T m b s)
  then show ?case by (rule boot_mirrors [OF assms(2,3)])
next
  case (setting_changed s m)
  then show ?case using user_setting_mirrors [OF assms(3)] tracked_write by blast
next
  case (ntp_changed s b)
  obtain m where "b = (m = NTP)" by (rule obtain_mode)
  with ntp_changed.IH show ?case using user_ntp_mirrors [OF assms(3)] tracked_write by blast
next
  case (delivered s s')
  from delivered.IH obtain a where a: "mirrors s a" "tracked a" by blast
  with delivered.hyps(2) deliver_mirrors [OF assms(2,3) a(1)] show ?case
    using tracked_deliver by auto
next
  case (time_written s st val)
  then show ?case by (simp add: mirrors_def write_elapsed_frame)
qed

text \<open>A state with no signal under way is one mode in three places.\<close>

definition settled :: "Mode \<Rightarrow> time_sys \<Rightarrow> bool" where
  "settled m s \<longleftrightarrow> pending s = [] \<and> timeMode (mgr s) = m \<and> setting s = mode_string m \<and> ntp s = (m = NTP)"

definition calm :: "Mode \<Rightarrow> mirror" where
  "calm m = \<lparr>m_mode = m, m_val = (\<lambda>sd. m), m_queue = []\<rparr>"

lemma settled_calm: "settled m s \<longleftrightarrow> mirrors s (calm m)"
  by (auto simp: settled_def mirrors_def calm_def)

lemma quiet_settled:
  assumes "time_reachable B D s" and "reliable_bus B" and "documented_daemons D" and "pending s = []"
  shows "settled (timeMode (mgr s)) s"
proof -
  from reachable_mirrors [OF assms(1-3)] obtain a where a: "mirrors s a" "tracked a" by blast
  with assms(4) have "m_queue a = []" by (simp add: mirrors_def)
  with a tracked_quiet [OF a(2)] show ?thesis by (simp add: mirrors_def settled_def)
qed

lemma deliver_n_mirrors:
  assumes "reliable_bus B" and "documented_daemons D" and "mirrors s a"
  shows "\<exists>s'. deliver_n B D n s = Inr s' \<and> mirrors s' ((m_deliver ^^ n) a)"
proof (induction n)
  case (Suc n)
  then obtain s' where "deliver_n B D n s = Inr s'" "mirrors s' ((m_deliver ^^ n) a)" by blast
  with deliver_mirrors [OF assms(1,2)] show ?case by simp
qed (use assms(3) in simp)

lemma one_write_calms: "m_deliver (m_deliver (m_write sd m (calm m'))) = calm m"
  by (cases sd) (auto simp: m_write_def m_deliver_def calm_def fun_eq_iff)

text \<open>A write taken back before it is delivered goes round for ever, in a cycle of four states.\<close>

definition chase :: "side \<Rightarrow> Mode \<Rightarrow> Mode \<Rightarrow> nat \<Rightarrow> mirror" where
  "chase sd m m' n = (m_deliver ^^ n) (m_write sd m' (m_write sd m (calm m')))"

lemma chase_steps:
  assumes "m \<noteq> m'"
  shows "chase sd m m' 0 = \<lparr>m_mode = m', m_val = (\<lambda>sd. m'), m_queue = [(sd, m), (sd, m')]\<rparr>"
    "chase sd m m' 1 = \<lparr>m_mode = m, m_val = (\<lambda>sd. m')(other sd := m), m_queue = [(sd, m'), (other sd, m)]\<rparr>"
    "chase sd m m' 2 = \<lparr>m_mode = m', m_val = (\<lambda>sd. m'), m_queue = [(other sd, m), (other sd, m')]\<rparr>"
    "chase sd m m' 3 = \<lparr>m_mode = m, m_val = (\<lambda>sd. m')(sd := m), m_queue = [(other sd, m'), (sd, m)]\<rparr>"
    "chase sd m m' 4 = chase sd m m' 0"
proof -
  show 0: "chase sd m m' 0 = \<lparr>m_mode = m', m_val = (\<lambda>sd. m'), m_queue = [(sd, m), (sd, m')]\<rparr>"
    using assms by (auto simp: chase_def m_write_def calm_def fun_eq_iff)
  have step: "chase sd m m' (Suc n) = m_deliver (chase sd m m' n)" for n by (simp add: chase_def)
  show 1: "chase sd m m' 1 = \<lparr>m_mode = m, m_val = (\<lambda>sd. m')(other sd := m),
      m_queue = [(sd, m'), (other sd, m)]\<rparr>"
    using step [of 0] 0 assms by (simp add: m_deliver_def m_write_def)
  show 2: "chase sd m m' 2 = \<lparr>m_mode = m', m_val = (\<lambda>sd. m'), m_queue = [(other sd, m), (other sd, m')]\<rparr>"
    using step [of 1] 1 assms by (auto simp: m_deliver_def m_write_def fun_eq_iff numeral_2_eq_2)
  show 3: "chase sd m m' 3 = \<lparr>m_mode = m, m_val = (\<lambda>sd. m')(sd := m), m_queue = [(other sd, m'), (sd, m)]\<rparr>"
    using step [of 2] 2 assms by (auto simp: m_deliver_def m_write_def fun_eq_iff numeral_3_eq_3)
  show "chase sd m m' 4 = chase sd m m' 0"
    using step [of 3] 3 0 assms by (auto simp: m_deliver_def m_write_def fun_eq_iff)
qed

lemma chase_mod: "m \<noteq> m' \<Longrightarrow> chase sd m m' n = chase sd m m' (n mod 4)"
  using chase_steps(5) [of m m' sd] unfolding chase_def
  by (intro funpow_mod_eq [symmetric]) simp

lemma chase_busy: "m \<noteq> m' \<Longrightarrow> length (m_queue (chase sd m m' n)) = 2"
proof -
  assume neq: "m \<noteq> m'"
  have "n mod 4 = 0 \<or> n mod 4 = 1 \<or> n mod 4 = 2 \<or> n mod 4 = 3" by linarith
  with chase_steps [OF neq, of sd] chase_mod [OF neq, of sd n] show ?thesis by auto
qed

section \<open>A concrete system\<close>

definition plain_daemons :: daemons where
  "plain_daemons =
     \<lparr>settings_write = (\<lambda>old v. (v, if v = old then [] else [SettingsSignal [(propertyTimeMode, v)]])),
      timedate_write = (\<lambda>old v. (v, if v = old then [] else [TimedateSignal [(propertyNtp, Inr v)]])),
      may_set_time = lets_time_be_set Systemd239\<rparr>"

lemma plain_daemons_documented: "documented_daemons plain_daemons"
  by (simp add: documented_daemons_def plain_daemons_def)

lemma kind_bus_reliable: "reliable_bus (kind_bus m)"
  using kind_bus_conversion [of m] by (simp add: reliable_bus_def) (simp add: kind_bus_def)

definition good_calls :: timer_calls where
  "good_calls = \<lparr>timerfd_create = 3, timerfd_settime = 0, sd_event_add_io = 0\<rparr>"

definition sample_sys :: "Mode \<Rightarrow> time_sys" where
  "sample_sys m = projr (boot (kind_bus m) plain_daemons good_calls (mode_string m) (m = NTP))"

lemma sample_boot: "boot (kind_bus m) plain_daemons good_calls (mode_string m) (m = NTP) = Inr (sample_sys m)
    \<and> pending (sample_sys m) = [] \<and> timeMode (mgr (sample_sys m)) = m"
proof -
  let ?B = "kind_bus m\<lparr>get_property := (\<lambda>l c. Some (mode_string m))\<rparr>"
  have doc: "documented_conversion ?B" using kind_bus_conversion [of m] by (simp add: documented_conversion_def)
  let ?path = "''/time/sync_method''" and ?l = "[GetSubTree settings_root timeSyncIntf]"
  have o: "Objects ?B [] = (?path, ?l)" by (simp add: Objects_def getSubTree_def kind_bus_def)
  have g: "getSetting ?B ?path timeSyncIntf propertyTimeMode ?l = (mode_string m, ?l @ [GetObject ?path timeSyncIntf,
      GetProperty ''settings'' ?path timeSyncIntf propertyTimeMode])"
    by (simp add: getSetting_def getService_def getProperty_def kind_bus_def Let_def)
  note M = Manager_mode [OF doc o g]
  have "\<exists>s. boot (kind_bus m) plain_daemons good_calls (mode_string m) (m = NTP) = Inr s
      \<and> pending s = [] \<and> timeMode (mgr s) = m"
    by (simp add: boot_def manager_main_def M BmcEpoch_def initialize_def good_calls_def
        obey_all_reliable [OF kind_bus_reliable] user_ntp_def plain_daemons_def Let_def)
  then show ?thesis by (auto simp: sample_sys_def)
qed

lemma started_reachable: "time_reachable (kind_bus m) plain_daemons (sample_sys m)"
  using sample_boot [of m] by (intro started) blast

lemma sample_settled: "settled m (sample_sys m)"
  using quiet_settled [OF started_reachable [of m] kind_bus_reliable plain_daemons_documented]
    sample_boot [of m] by simp

section \<open>Properties\<close>

text \<open>
  C15: the time manager refines the mirror. Every state it can reach, whatever clients write and in
  whatever order signals and writes interleave, represents a state of the specification in which
  each side's value is the last one announced; delivering a signal is the specification's step. No
  signal makes the manager fail.
\<close>

theorem manager_refines_mirror:
  assumes "reliable_bus B" and "documented_daemons D" and "time_reachable B D s"
  shows "\<exists>a s'. mirrors s a \<and> tracked a \<and> deliver B D s = Inr s' \<and> mirrors s' (m_deliver a)"
proof -
  from reachable_mirrors [OF assms(3,1,2)] obtain a where a: "mirrors s a" "tracked a" by blast
  with deliver_mirrors [OF assms(1,2) a(1)] show ?thesis by blast
qed

theorem manager_refines_mirror_witness:
  "\<exists>a s'. mirrors (sample_sys NTP) a \<and> deliver (kind_bus NTP) plain_daemons (sample_sys NTP) = Inr s'"
  using manager_refines_mirror [OF kind_bus_reliable plain_daemons_documented started_reachable [of NTP]]
  by blast

text \<open>
  C20: when no signal is under way the three copies of the mode agree: the manager's mode, the setting
  and timedated's NTP switch, after any history of writes to either service.
\<close>

theorem quiet_system_agrees:
  assumes "reliable_bus B" and "documented_daemons D" and "time_reachable B D s" and "pending s = []"
  shows "setting s = mode_string (timeMode (mgr s)) \<and> ntp s = (timeMode (mgr s) = NTP)"
  using quiet_settled [OF assms(3,1,2,4)] by (simp add: settled_def)

theorem quiet_system_agrees_witness:
  "setting (sample_sys NTP) = ntpSync \<and> ntp (sample_sys NTP)"
  using quiet_system_agrees [OF kind_bus_reliable plain_daemons_documented started_reachable [of NTP]]
    sample_boot [of NTP] by (simp add: mode_string_def)

text \<open>
  C21: one change settles. From a settled state a change of the setting, or of timedated's switch, is
  carried over in two deliveries, after which the system is settled in the new mode.
\<close>

theorem single_change_settles:
  assumes "reliable_bus B" and "documented_daemons D" and "settled m' s"
    and "s0 = user_setting D (mode_string m) s \<or> s0 = user_ntp D (m = NTP) s"
  shows "\<exists>s2. deliver_n B D 2 s0 = Inr s2 \<and> settled m s2"
proof -
  have c: "mirrors s (calm m')" using assms(3) by (simp add: settled_calm)
  have "\<exists>sd. mirrors s0 (m_write sd m (calm m'))"
    using assms(4) user_setting_mirrors [OF assms(2) c] user_ntp_mirrors [OF assms(2) c] by blast
  then obtain sd where "mirrors s0 (m_write sd m (calm m'))" by blast
  from deliver_n_mirrors [OF assms(1,2) this, of 2] show ?thesis
    by (simp add: settled_calm numeral_2_eq_2 one_write_calms)
qed

theorem single_change_settles_witness:
  "\<exists>s2. deliver_n (kind_bus Manual) plain_daemons 2 (user_setting plain_daemons ntpSync (sample_sys Manual)) = Inr s2
     \<and> settled NTP s2 \<and> ntp s2"
  using single_change_settles [OF kind_bus_reliable plain_daemons_documented sample_settled [of Manual],
      where m = NTP and ?s0.0 = "user_setting plain_daemons ntpSync (sample_sys Manual)"]
  by (auto simp: mode_string_def settled_def)

text \<open>
  C19: a change taken back before it is delivered never settles. When the setting goes from one mode
  to the other and back while the first signal is still under way, the manager passes each change on
  to timedated, takes timedated's announcements for new changes and writes them back to the setting:
  after any number of deliveries two signals are under way, and NTP is switched over and back in
  every four deliveries, for ever.
\<close>

theorem reverted_change_livelocks:
  assumes "reliable_bus B" and "documented_daemons D" and "settled m' s" and "m \<noteq> m'"
    and "s0 = user_setting D (mode_string m') (user_setting D (mode_string m) s)"
  shows "\<exists>s'. deliver_n B D n s0 = Inr s' \<and> length (pending s') = 2
    \<and> (n mod 4 = 1 \<longrightarrow> ntp s' = (m = NTP)) \<and> (n mod 4 = 2 \<longrightarrow> ntp s' = (m' = NTP))"
proof -
  have "mirrors s0 (chase Settings m m' 0)"
    using assms(3) by (simp add: settled_calm assms(5) chase_def user_setting_mirrors [OF assms(2)])
  from deliver_n_mirrors [OF assms(1,2) this, of n]
  obtain s' where s': "deliver_n B D n s0 = Inr s'" "mirrors s' (chase Settings m m' n)"
    by (auto simp: chase_def)
  then have "length (pending s') = 2" "ntp s' = (m_val (chase Settings m m' n) Timedated = NTP)"
    using chase_busy [OF assms(4), of Settings n] by (simp_all add: mirrors_def)
  with s'(1) chase_mod [OF assms(4), of Settings n] chase_steps [OF assms(4), of Settings]
  show ?thesis by auto
qed

theorem reverted_change_livelocks_witness:
  "\<exists>s'. deliver_n (kind_bus Manual) plain_daemons 1000001
      (user_setting plain_daemons manualSync (user_setting plain_daemons ntpSync (sample_sys Manual))) = Inr s'
     \<and> length (pending s') = 2 \<and> ntp s'"
  using reverted_change_livelocks [OF kind_bus_reliable plain_daemons_documented sample_settled [of Manual],
      where m = NTP and ?s0.0 = "user_setting plain_daemons manualSync (user_setting plain_daemons ntpSync (sample_sys Manual))"
      and n = 1000001]
  by (auto simp: mode_string_def)

text \<open>
  C22: the README's table and its special note. With no signal under way, a write of \<open>Elapsed\<close> of at
  most \<open>max_usec\<close> microseconds fails in the mode NTP and leaves the property alone, given that the
  NTP service is not stopped while NTP is on. In the mode Manual it returns the value written and
  the property holds it; but with a timedated that looks at the service's status it fails, and
  leaves the property alone, until the service has stopped.
\<close>

theorem elapsed_follows_mode:
  assumes "reliable_bus B" and "documented_daemons D" and "time_reachable B D s" and "pending s = []"
    and "unat val \<le> max_usec" and "documented_timedated v D"
    and "v = Systemd239 \<and> ntp s \<longrightarrow> st \<noteq> ServiceStopped"
    and "write_elapsed B D st val s = (r, s')"
  shows "(timeMode (mgr s) = NTP \<longrightarrow> r = Inl TimeFailed
        \<and> elapsed_property (epoch_obj s') = elapsed_property (epoch_obj s))
    \<and> (timeMode (mgr s) = Manual \<and> v = Systemd239 \<and> st \<noteq> ServiceStopped \<longrightarrow> r = Inl TimeFailed
        \<and> elapsed_property (epoch_obj s') = elapsed_property (epoch_obj s))
    \<and> (timeMode (mgr s) = Manual \<and> (v = Systemd236 \<or> st = ServiceStopped) \<longrightarrow> r = Inr val
        \<and> elapsed_property (epoch_obj s') = val)"
proof -
  have n: "ntp s = (timeMode (mgr s) = NTP)"
    using quiet_settled [OF assms(3,1,2,4)] by (simp add: settled_def)
  have "int64 (sint val * 1000)" using assms(5) by (simp add: int64_usec)
  then have yes: "may_set_time D (ntp s) st \<Longrightarrow> r = Inr val \<and> elapsed_property (epoch_obj s') = val"
    and no: "\<not> may_set_time D (ntp s) st \<Longrightarrow> r = Inl TimeFailed
      \<and> elapsed_property (epoch_obj s') = elapsed_property (epoch_obj s)"
    using assms(8) by (auto simp: write_elapsed_def set_elapsed_def setTime_def clock_bus_def Let_def)
  from assms(6,7) n have "may_set_time D (ntp s) st
      \<longleftrightarrow> timeMode (mgr s) = Manual \<and> (v = Systemd236 \<or> st = ServiceStopped)"
    by (cases v; cases "timeMode (mgr s)") (auto simp: documented_timedated_def)
  with yes no show ?thesis by (cases v) auto
qed

text \<open>In the mode Manual the same write fails while the NTP service is stopping and succeeds after it.\<close>

theorem elapsed_follows_mode_witness:
  "fst (write_elapsed (kind_bus NTP) plain_daemons ServiceActive 5000000 (sample_sys NTP)) = Inl TimeFailed
   \<and> fst (write_elapsed (kind_bus Manual) plain_daemons ServiceStopping 5000000 (sample_sys Manual))
      = Inl TimeFailed
   \<and> fst (write_elapsed (kind_bus Manual) plain_daemons ServiceStopped 5000000 (sample_sys Manual))
      = Inr 5000000"
proof -
  have v: "unat (5000000 :: u64) \<le> max_usec" by (simp add: max_usec_def)
  have d: "documented_timedated Systemd239 plain_daemons"
    by (simp add: documented_timedated_def plain_daemons_def)
  have n: "ntp (sample_sys m) = (m = NTP)" for m
    using sample_settled [of m] by (cases m) (simp_all add: settled_def)
  have "fst (write_elapsed (kind_bus m) plain_daemons st 5000000 (sample_sys m))
      = (if m = Manual \<and> st = ServiceStopped then Inr 5000000 else Inl TimeFailed)"
    if "m = NTP \<longrightarrow> st \<noteq> ServiceStopped" for m st
  proof -
    obtain r s' where w: "write_elapsed (kind_bus m) plain_daemons st 5000000 (sample_sys m) = (r, s')"
      by (metis surj_pair)
    from that n have "Systemd239 = Systemd239 \<and> ntp (sample_sys m) \<longrightarrow> st \<noteq> ServiceStopped" by simp
    from elapsed_follows_mode [OF kind_bus_reliable plain_daemons_documented started_reachable [of m] _ v d
        this w] sample_boot [of m] w show ?thesis by (cases m) auto
  qed
  from this [of NTP ServiceActive] this [of Manual ServiceStopping] this [of Manual ServiceStopped]
  show ?thesis by simp
qed

end
