(* ===== verification/RequestTiming.thy ===== *)
theory RequestTiming
  imports RequestHandler
begin

text \<open>
  When the messages of a request go out (\<open>oem/nvidia/handler.hpp\<close>, \<open>oem/nvidia/request.hpp\<close>): the times
  the requester is constructed with, the construction of a request and, for a request that nobody
  answers, the dispatches of its two timers. At which times the event loop dispatches them is a
  parameter, of which only what the timers document is assumed.
\<close>

section \<open>Construction\<close>

text \<open>The requester's times, in milliseconds, and the default arguments \<open>main\<close> constructs it with.\<close>

record handler_config =
  instanceIdExpiryInterval :: nat
  cfg_numRetries :: u8
  responseTimeOut :: nat

definition Handler_defaults :: handler_config where
  "Handler_defaults = \<lparr>instanceIdExpiryInterval = 15 * 1000, cfg_numRetries = numCommandRetries,
     responseTimeOut = 5000\<rparr>"

text \<open>
  A request is constructed over the retry timer, whose number of retries and period it passes on;
  the timer is not armed. Both request classes have the same members.
\<close>

record timed_request = retry_request +
  timeout :: nat

definition RequestRetryTimer_new :: "u8 \<Rightarrow> nat \<Rightarrow> int \<Rightarrow> u8 \<Rightarrow> bytes \<Rightarrow> timed_request" where
  "RequestRetryTimer_new retries period fd eid msg =
     \<lparr>rq_fd = fd, rq_eid = eid, requestMsg = msg, numRetries = retries, retry_timer = False,
      timeout = period\<rparr>"

definition DaemonRequest_new :: "int \<Rightarrow> u8 \<Rightarrow> bytes \<Rightarrow> u8 \<Rightarrow> nat \<Rightarrow> timed_request" where
  "DaemonRequest_new fd eid msg retries period = RequestRetryTimer_new retries period fd eid msg"

definition InKernelRequest_new :: "int \<Rightarrow> u8 \<Rightarrow> bytes \<Rightarrow> u8 \<Rightarrow> nat \<Rightarrow> timed_request" where
  "InKernelRequest_new fd eid msg retries period = RequestRetryTimer_new retries period fd eid msg"

definition new_request :: "platform \<Rightarrow> handler_config \<Rightarrow> int \<Rightarrow> u8 \<Rightarrow> bytes \<Rightarrow> timed_request" where
  "new_request P C fd eid msg =
     (case transport P of
        DaemonRequest \<Rightarrow> DaemonRequest_new fd eid msg (cfg_numRetries C) (responseTimeOut C)
      | InKernelRequest \<Rightarrow> InKernelRequest_new fd eid msg (cfg_numRetries C) (responseTimeOut C))"

section \<open>The dispatches of an unanswered request\<close>

text \<open>
  One dispatch of the request's retry timer; a timer that is not armed is not dispatched.
\<close>

definition retry_fires ::
    "platform \<Rightarrow> RequestKey \<Rightarrow> ('rh, 'z) requester_scheme \<Rightarrow> ('rh, 'z) requester_scheme" where
  "retry_fires P key w = (case map_of (handlers w) key of
     None \<Rightarrow> w
   | Some e \<Rightarrow> if retry_timer (e_request e) then retry_tick P key w else w)"

text \<open>
  The times of the dispatches are the event loop's. What the timers document: the retry timer was
  armed at \<open>a\<close> and the expiry timer after it, at \<open>b\<close>; no timer is dispatched early, a periodic timer is
  due again one period after it was dispatched, and the expiry is dispatched at \<open>T\<close>, after the
  dispatches \<open>ts\<close> of the retry timer.
\<close>

definition documented_timers :: "handler_config \<Rightarrow> nat \<Rightarrow> nat \<Rightarrow> nat list \<Rightarrow> nat \<Rightarrow> bool" where
  "documented_timers C a b ts T \<longleftrightarrow>
     a \<le> b
     \<and> successively (\<lambda>x y. x + responseTimeOut C \<le> y) (a # ts)
     \<and> b + instanceIdExpiryInterval C \<le> T
     \<and> (\<forall>t\<in>set ts. t \<le> T)"

text \<open>
  An event loop that is at most \<open>slack\<close> late: every dispatch happens at most that long after it is
  due, and no retry, while the timer is armed, is overdue by more when the expiry is dispatched.
\<close>

definition dispatched_within :: "nat \<Rightarrow> handler_config \<Rightarrow> nat \<Rightarrow> nat \<Rightarrow> nat list \<Rightarrow> nat \<Rightarrow> bool" where
  "dispatched_within slack C a b ts T \<longleftrightarrow>
     successively (\<lambda>x y. y \<le> x + (responseTimeOut C + slack)) (a # ts)
     \<and> T \<le> b + instanceIdExpiryInterval C + slack
     \<and> (length ts \<le> unat (cfg_numRetries C) \<longrightarrow> T \<le> last (a # ts) + (responseTimeOut C + slack))"

lemma no_dispatch_early:
  assumes "successively (\<lambda>x y. x + d \<le> y) (a # ts)" and "i < length ts"
  shows "a + Suc i * d \<le> ts ! i"
  using assms
proof (induction ts arbitrary: a i)
  case (Cons t ts)
  then show ?case
  proof (cases i)
    case (Suc j)
    with Cons.prems have "successively (\<lambda>x y. x + d \<le> y) (t # ts)" "j < length ts" and t: "a + d \<le> t"
      by simp_all
    with Suc t Cons.IH [of t j] show ?thesis by simp
  qed (simp add: successively_Cons)
qed simp

lemma last_dispatch:
  "successively (\<lambda>x y. y \<le> x + (d :: nat)) (a # ts) \<Longrightarrow> last (a # ts) \<le> a + length ts * d"
proof (induction ts arbitrary: a)
  case (Cons t ts)
  then have "last (t # ts) \<le> t + length ts * d" "t \<le> a + d" by (auto simp: successively_Cons)
  then show ?case by simp
qed simp

lemma retry_tick_entry:
  assumes "map_of (handlers w) key = Some e"
  shows "map_of (handlers (retry_tick P key w)) key = Some (e\<lparr>e_request :=
      (if numRetries (e_request e) \<noteq> 0
       then (e_request e)\<lparr>numRetries := numRetries (e_request e) - 1\<rparr>
       else (e_request e)\<lparr>numRetries := -1, retry_timer := False\<rparr>)\<rparr>)"
    and "log (retry_tick P key w) = log w
      @ (if numRetries (e_request e) \<noteq> 0 then [send_io P (e_request e)] else [])"
  using assms by (simp_all add: retry_tick_def RetryTimer_callback_eq map_of_upd_entry)

text \<open>The dispatches change nothing but the entry's request and the log.\<close>

lemma retry_fires_ticks:
  assumes "map_of (handlers w) key = Some e"
  shows "map_of (handlers ((retry_fires P key ^^ k) w)) key
      = Some (e\<lparr>e_request := fst (retry_ticks P k (e_request e) (log w))\<rparr>)
    \<and> log ((retry_fires P key ^^ k) w) = snd (retry_ticks P k (e_request e) (log w))"
  using assms
proof (induction k arbitrary: w e)
  case (Suc k)
  obtain rq l where c: "RetryTimer_callback P (e_request e) (log w) = (rq, l)" by (metis surj_pair)
  show ?case
  proof (cases "retry_timer (e_request e)")
    case True
    with Suc.prems c have f: "retry_fires P key w = upd_entry key (\<lambda>e. e\<lparr>e_request := rq\<rparr>) (w\<lparr>log := l\<rparr>)"
      by (simp add: retry_fires_def retry_tick_def)
    with Suc.prems have "map_of (handlers (retry_fires P key w)) key = Some (e\<lparr>e_request := rq\<rparr>)"
      and "log (retry_fires P key w) = l" by (simp_all add: map_of_upd_entry)
    with Suc.IH [of "retry_fires P key w" "e\<lparr>e_request := rq\<rparr>"] True c show ?thesis
      by (simp add: funpow_Suc_right del: funpow.simps)
  next
    case False
    with Suc.prems have "retry_fires P key w = w" by (simp add: retry_fires_def)
    with Suc.IH [OF Suc.prems] False show ?thesis by (simp add: funpow_Suc_right del: funpow.simps)
  qed
qed simp

lemma RetryTimer_started:
  assumes "RetryTimer_start P rq l = (0, rq', l')" and "numRetries rq \<noteq> 0"
  shows "rq' = rq\<lparr>retry_timer := True\<rparr>" and "l' = l @ [send_io P rq, IO_retry_timer_start]"
  using assms
  by (auto simp: RetryTimer_start_def request_send_def syscall_def Let_def split: if_splits prod.splits)

lemma run_entry_started:
  assumes "run_entry P eid key e w = Inr (0, w')" and "numRetries (e_request e) \<noteq> 0"
  shows "w' = upd_entry key (\<lambda>x. x\<lparr>e_request := (e_request e)\<lparr>retry_timer := True\<rparr>, e_timer := True\<rparr>)
    (w\<lparr>log := log w @ [send_io P (e_request e), IO_retry_timer_start, IO_expiry_timer_start]\<rparr>)"
proof -
  obtain c rq l where st: "RetryTimer_start P (e_request e) (log w) = (c, rq, l)"
    by (metis surj_pair)
  with assms(1) have "c = 0"
    by (auto simp: run_entry_def Let_def bindR_eq_Inr split: if_splits)
  with st assms(2) have "rq = (e_request e)\<lparr>retry_timer := True\<rparr>"
    "l = log w @ [send_io P (e_request e), IO_retry_timer_start]" by (metis RetryTimer_started)+
  with assms(1) st \<open>c = 0\<close> show ?thesis
    by (auto simp: run_entry_def Let_def syscall_def upd_entry_log upd_entry_twice bindR_eq_Inr
        split: if_splits)
qed

text \<open>A request registered for an endpoint that has none is sent at once and its timers are armed.\<close>

lemma registered_idle:
  assumes "registerRequest P eid i type command msg rh w = Inr (0, w')"
    and "distinct (map fst (handlers w))" and "eid \<notin> key_eid ` keys w"
  obtains rq where "map_of (handlers w') (RequestKey eid i type command)
      = Some \<lparr>e_request = rq, e_handler = rh, e_timer = True\<rparr>"
    "retry_timer rq" "numRetries rq = numCommandRetries" "requestMsg rq = msg" "rq_eid rq = eid"
    "log w' = log w @ [send_io P rq, IO_retry_timer_start, IO_expiry_timer_start]"
proof -
  let ?key = "RequestKey eid i type command"
  obtain fd s where s: "getSocket eid (socks w) = (fd, s)" by (metis surj_pair)
  let ?rq = "\<lparr>rq_fd = fd, rq_eid = eid, requestMsg = msg, numRetries = numCommandRetries,
    retry_timer = False\<rparr>"
  let ?wa = "w\<lparr>socks := s, handlers := hash_emplace (key_order P) ?key
    \<lparr>e_request = ?rq, e_handler = rh, e_timer = False\<rparr> (handlers w)\<rparr>"
  from assms(1) s have run: "runRegisteredRequest P eid ?wa = Inr (0, w')"
    by (simp add: registerRequest_def)
  have fresh: "?key \<notin> keys w" using assms(3) by force
  have d: "distinct (map fst (handlers ?wa))" using assms(2) by simp
  have ka: "keys ?wa = insert ?key (keys w)" using fresh by (simp add: keys_def set_hash_emplace)
  from fresh assms(2) have at: "map_of (handlers ?wa) ?key
      = Some \<lparr>e_request = ?rq, e_handler = rh, e_timer = False\<rparr>"
    by (simp add: map_of_hash_emplace keys_def)
  have idle: "running ?wa eid = {}"
    using assms(3) running_subset_keys [of ?wa eid] ka at by (force simp: running_def)
  from d run show ?thesis
  proof (cases rule: runRegisteredRequest_cases)
    case busy
    with idle show ?thesis by simp
  next
    case idle
    with ka show ?thesis by auto
  next
    case (run key e)
    from run(3) ka run(2) assms(3) have k: "key = ?key" by (force simp: keys_map_of)
    with run(3) at have e: "e = \<lparr>e_request = ?rq, e_handler = rh, e_timer = False\<rparr>" by simp
    have n: "numCommandRetries \<noteq> 0" by (simp add: numCommandRetries_def)
    from run_entry_started [OF run(4)] e n have
      w': "w' = upd_entry key (\<lambda>e. e\<lparr>e_request := ?rq\<lparr>retry_timer := True\<rparr>, e_timer := True\<rparr>)
        (?wa\<lparr>log := log w @ [send_io P ?rq, IO_retry_timer_start, IO_expiry_timer_start]\<rparr>)" by simp
    have "map_of (handlers w') ?key
        = Some \<lparr>e_request = ?rq\<lparr>retry_timer := True\<rparr>, e_handler = rh, e_timer = True\<rparr>"
      using at by (simp add: w' k map_of_upd_entry)
    moreover have "send_io P (?rq\<lparr>retry_timer := True\<rparr>) = send_io P ?rq"
      by (simp only: send_io_upd)
    then have "log w' = log w @ [send_io P (?rq\<lparr>retry_timer := True\<rparr>), IO_retry_timer_start,
        IO_expiry_timer_start]" by (simp only: w' upd_entry_frame) simp
    ultimately show ?thesis using that [of "?rq\<lparr>retry_timer := True\<rparr>"] by simp
  qed
qed

text \<open>A registered request is the constructed one.\<close>

lemma new_request_defaults:
  "retry_request.truncate (new_request P Handler_defaults fd eid msg)
     = \<lparr>rq_fd = fd, rq_eid = eid, requestMsg = msg, numRetries = numCommandRetries, retry_timer = False\<rparr>"
  "timeout (new_request P Handler_defaults fd eid msg) = 5000"
  by (simp_all add: new_request_def DaemonRequest_new_def InKernelRequest_new_def
      RequestRetryTimer_new_def Handler_defaults_def retry_request.defs split: transport.splits)

section \<open>Property\<close>

lemma default_config:
  "instanceIdExpiryInterval Handler_defaults = 15000" "responseTimeOut Handler_defaults = 5000"
  "unat (cfg_numRetries Handler_defaults) = 3"
  by (simp_all add: Handler_defaults_def numCommandRetries_def)

text \<open>How many retries an event loop that is at most \<open>slack\<close> late dispatches.\<close>

lemma dispatched_retries:
  assumes "documented_timers Handler_defaults a b ts T"
    and "dispatched_within slack Handler_defaults a b ts T"
  shows "slack < 2500 \<longrightarrow> 2 \<le> length ts" and "3 * slack < b - a \<longrightarrow> 3 \<le> length ts"
    and "3 \<le> length ts \<longrightarrow> T \<le> ts ! 2 + (b - a) + slack"
proof -
  have T: "a + 15000 + (b - a) \<le> T" "T \<le> a + 15000 + (b - a) + slack"
    using assms by (auto simp: documented_timers_def dispatched_within_def default_config)
  have L: "T \<le> a + Suc (length ts) * (5000 + slack)" if "length ts \<le> 3"
    using that assms(2) last_dispatch [of "5000 + slack" a ts]
    by (simp add: dispatched_within_def default_config)
  show "slack < 2500 \<longrightarrow> 2 \<le> length ts"
  proof (intro impI, rule ccontr)
    assume s: "slack < 2500" and "\<not> 2 \<le> length ts"
    then have "length ts = 0 \<or> length ts = 1" by linarith
    with L T(1) s show False by auto
  qed
  show "3 * slack < b - a \<longrightarrow> 3 \<le> length ts"
  proof (intro impI, rule ccontr)
    assume s: "3 * slack < b - a" and "\<not> 3 \<le> length ts"
    then have "length ts = 0 \<or> length ts = 1 \<or> length ts = 2" by linarith
    with L T(1) s show False by auto
  qed
  show "3 \<le> length ts \<longrightarrow> T \<le> ts ! 2 + (b - a) + slack"
  proof
    assume "3 \<le> length ts"
    with assms(1) have "a + Suc 2 * 5000 \<le> ts ! 2"
      by (intro no_dispatch_early) (simp_all add: documented_timers_def default_config)
    with T(2) show "T \<le> ts ! 2 + (b - a) + slack" by simp
  qed
qed

text \<open>A loop that late may dispatch the expiry before the third retry.\<close>

lemma third_retry_lost:
  assumes "a \<le> b" and "b - a \<le> 3 * slack" and "slack \<le> 2500"
  shows "\<exists>ts T. length ts = 2 \<and> documented_timers Handler_defaults a b ts T
    \<and> dispatched_within slack Handler_defaults a b ts T"
  using assms
  by (intro exI [of _ "[a + 5000 + slack, a + 10000 + 2 * slack]"] exI [of _ "b + 15000"])
    (simp add: documented_timers_def dispatched_within_def default_config)

text \<open>
  C14: what an endpoint that never answers is sent. With the times the program uses, a request
  registered for an endpoint with no other request is sent at once. Whenever the event loop
  dispatches its timers, each of the first three dispatches of the retry timer repeats the message,
  the \<open>n\<close>-th no earlier than \<open>n\<close> times 5 seconds after the start, and no later one sends anything; the
  expiry, no earlier than 15 seconds after its timer was armed, calls the handler once, with no
  response, and leaves the entry, its timers stopped, to a deferred removal. An event loop that is
  less than 2.5 seconds late dispatches at least two retries before the expiry. It dispatches the
  third if three times its lateness is below the time between the arming of the two timers, and need
  not if it is not; and when the third is sent, the expiry follows it by no more than that time and
  the lateness, so that its response is not waited for.
\<close>

theorem unanswered_request_timeline:
  assumes "registerRequest P eid i type command msg rh w = Inr (0, w')"
    and "distinct (map fst (handlers w))" and "eid \<notin> key_eid ` keys w"
    and "documented_timers Handler_defaults a b ts T"
    and "key = RequestKey eid i type command" and "w1 = (retry_fires P key ^^ length ts) w'"
  shows "(\<exists>rq. requestMsg rq = msg \<and> rq_eid rq = eid
      \<and> log w' = log w @ [send_io P rq, IO_retry_timer_start, IO_expiry_timer_start]
      \<and> (\<forall>k\<le>length ts. log ((retry_fires P key ^^ k) w') = log w' @ replicate (min k 3) (send_io P rq)))
    \<and> instanceIdExpiryCallBack invoke key w1 =
        bindR (invoke rh eid None (upd_entry key stop_entry w1)) (\<lambda>w2.
          Inr (w2\<lparr>removeRequestContainer := (if key \<in> set (removeRequestContainer w2)
            then removeRequestContainer w2 else removeRequestContainer w2 @ [key])\<rparr>))
    \<and> (\<forall>n<length ts. a + Suc n * 5000 \<le> ts ! n) \<and> b + 15000 \<le> T
    \<and> (\<forall>slack. dispatched_within slack Handler_defaults a b ts T \<longrightarrow>
        (slack < 2500 \<longrightarrow> 2 \<le> length ts)
        \<and> (3 * slack < b - a \<longrightarrow> 3 \<le> length ts)
        \<and> (3 \<le> length ts \<longrightarrow> T \<le> ts ! 2 + (b - a) + slack))
    \<and> (\<forall>slack. b - a \<le> 3 * slack \<and> slack \<le> 2500 \<longrightarrow>
        (\<exists>ts' T'. length ts' = 2 \<and> documented_timers Handler_defaults a b ts' T'
          \<and> dispatched_within slack Handler_defaults a b ts' T'))"
proof -
  from registered_idle [OF assms(1-3)] assms(5) obtain rq where
    e: "map_of (handlers w') key = Some \<lparr>e_request = rq, e_handler = rh, e_timer = True\<rparr>"
    and rq: "retry_timer rq" "numRetries rq = numCommandRetries" "requestMsg rq = msg" "rq_eid rq = eid"
    and l: "log w' = log w @ [send_io P rq, IO_retry_timer_start, IO_expiry_timer_start]" by metis
  note R = retry_fires_ticks [OF e, where P = P]
  have ke: "key_eid key = eid" by (simp add: assms(5))
  have "log ((retry_fires P key ^^ k) w') = log w' @ replicate (min k 3) (send_io P rq)" for k
    using R [where k = k] rq(1,2) by (simp add: retry_ticks_spec numCommandRetries_def min_def)
  moreover have "instanceIdExpiryCallBack invoke key w1 =
        bindR (invoke rh eid None (upd_entry key stop_entry w1)) (\<lambda>w2.
          Inr (w2\<lparr>removeRequestContainer := (if key \<in> set (removeRequestContainer w2)
            then removeRequestContainer w2 else removeRequestContainer w2 @ [key])\<rparr>))"
    using R [where k = "length ts"] ke by (simp add: instanceIdExpiryCallBack_def assms(6))
  moreover have "\<forall>n<length ts. a + Suc n * 5000 \<le> ts ! n" and "b + 15000 \<le> T"
    using assms(4) no_dispatch_early [of 5000 a ts] by (simp_all add: documented_timers_def default_config)
  moreover from assms(4) have "a \<le> b" by (simp add: documented_timers_def)
  note third_retry_lost [OF this]
  ultimately show ?thesis
    using rq(3,4) l dispatched_retries [OF assms(4)] by (intro conjI exI [of _ rq]) simp_all
qed

text \<open>
  An event loop that is up to 100 milliseconds late: the expiry comes before the third retry of the
  sample request, whose message has then been sent three times.
\<close>

theorem unanswered_request_timeline_witness:
  "\<exists>w' rq. registerRequest (kind_platform DaemonRequest) 9 0 1 0x13 [1] 42 sample_requester = Inr (0, w')
    \<and> requestMsg rq = [1]
    \<and> log ((retry_fires (kind_platform DaemonRequest) sample_key ^^ 2) w') = log sample_requester
        @ [send_io (kind_platform DaemonRequest) rq, IO_retry_timer_start, IO_expiry_timer_start]
        @ replicate 2 (send_io (kind_platform DaemonRequest) rq)
    \<and> dispatched_within 100 Handler_defaults 0 1 [5100, 10200] 15050"
proof -
  let ?P = "kind_platform DaemonRequest"
  obtain w' where reg: "registerRequest ?P 9 0 1 0x13 [1] 42 sample_requester = Inr (0, w')"
    by (simp add: registerRequest_def sample_world_defs kind_platform_def getSocket_def
        hash_emplace_def runRegisteredRequest_def run_entry_def RetryTimer_start_def
        request_send_def syscall_def numCommandRetries_def upd_entry_def Let_def)
  have "distinct (map fst (handlers sample_requester))" "9 \<notin> key_eid ` keys sample_requester"
    by (simp_all add: sample_requester_def keys_def)
  moreover have "documented_timers Handler_defaults 0 1 [5100, 10200] 15050"
    by (simp add: documented_timers_def default_config)
  ultimately obtain rq where "requestMsg rq = [1]"
    "log w' = log sample_requester @ [send_io ?P rq, IO_retry_timer_start, IO_expiry_timer_start]"
    "\<forall>k\<le>2. log ((retry_fires ?P sample_key ^^ k) w') = log w' @ replicate (min k 3) (send_io ?P rq)"
    using unanswered_request_timeline [OF reg _ _ _ refl refl, of 0 1 "[5100, 10200]" 15050 record_call]
    by auto
  moreover have "dispatched_within 100 Handler_defaults 0 1 [5100, 10200] 15050"
    by (simp add: dispatched_within_def default_config)
  ultimately show ?thesis using reg by (intro exI [of _ w'] exI [of _ rq]) simp
qed

end
