(* ===== verification/TimeDelivery.thy ===== *)
theory TimeDelivery
  imports TimeSystem ErotLiveness RequestTiming
begin

text \<open>
  The two programs together: a write of \<open>Elapsed\<close> through the time manager sets the system clock, the
  kernel cancels the timer of the ERoT time manager, which reads the clock and sends it on. What an
  idle manager does with the change, and what a manager does that is serving endpoints when the
  clock changes.
\<close>

section \<open>A manager at rest\<close>

text \<open>With a free identifier and no other request the loop sends to its first endpoint and waits.\<close>

lemma first_erot_served:
  assumes "reliable P" and "handlers w = []" and "held (ids w) eid = {}"
  shows "\<exists>i rq w'. unat i < 32
    \<and> erots_loop P t (eid # eids) w = Inr (Some (next_awaitable w, eid, eids), w')
    \<and> log w' = log w @ [send_io P rq, IO_retry_timer_start, IO_expiry_timer_start]
    \<and> rq_eid rq = eid \<and> requestMsg rq = addExtTimestamp_request i t"
proof -
  obtain x m where g: "getInstanceId eid (ids w) = (x, m)" by (metis surj_pair)
  have "x \<noteq> Inl e" for e
    using iid.alloc_full [of eid "ids w" e m] g assms(3) by (auto simp: maxInstanceIds_def)
  then obtain i where x: "x = Inr i" by (cases x) auto
  have i: "unat i < 32" using getInstanceId_Inr(1) [OF g [unfolded x]] by (simp add: maxInstanceIds_def)
  let ?w0 = "w\<lparr>ids := m, next_awaitable := Suc (next_awaitable w)\<rparr>"
  let ?q = "addExtTimestamp_request i t"
  obtain fd s where "getSocket eid (socks w) = (fd, s)" by (metis surj_pair)
  then have "\<exists>w'. registerRequest P eid i 1 0x13 ?q (next_awaitable w) ?w0 = Inr (0, w')"
    by (simp add: registerRequest_def run_reliable [OF assms(1)])
  then obtain w' where reg: "registerRequest P eid i 1 0x13 ?q (next_awaitable w) ?w0 = Inr (0, w')" ..
  have start: "setTimeOnErot_start P eid t w = Inr (Awaits (next_awaitable w), w')"
    using g x reg by (simp add: setTimeOnErot_start_def await_suspend_def request_key_built [OF i])
  have "distinct (map fst (handlers ?w0))" "eid \<notin> key_eid ` keys ?w0"
    using assms(2) by (simp_all add: keys_def)
  from registered_idle [OF reg this] obtain rq where "requestMsg rq = ?q" "rq_eid rq = eid"
    "log w' = log w @ [send_io P rq, IO_retry_timer_start, IO_expiry_timer_start]" by auto
  with i start show ?thesis by (intro exI [of _ i] exI [of _ rq] exI [of _ w']) simp
qed

section \<open>A manager that is serving endpoints\<close>

text \<open>The chain of caller \<open>C\<close> with the time \<open>T\<close>, or none.\<close>

definition same_chain :: "caller \<Rightarrow> u64 \<Rightarrow> world \<Rightarrow> bool" where
  "same_chain C T w = (case setErotTimeHandle w of
     Suspended c a t eid eids \<Rightarrow> c = C \<and> t = T | _ \<Rightarrow> True)"

lemma same_chain_more: "requester.more w' = requester.more w \<Longrightarrow> same_chain C T w' = same_chain C T w"
  by (drule world_more(3)) (simp add: same_chain_def)

interpretation erot_chain: client_contract "erot_invoke P" "same_chain C T" for P C T
proof
  fix rh eid r and w w' :: world
  assume inv: "erot_invoke P rh eid r w = Inr w'" and I: "same_chain C T w"
  then show "same_chain C T w'"
    by (auto simp: erot_invoke_def after_loop_def same_chain_def suspend_def bindR_eq_Inr
        split: coro.splits if_splits option.splits caller.splits)
qed (metis same_chain_more)

text \<open>A run of the event loop during which the chain of the first state stays suspended.\<close>

inductive busy_run :: "platform \<Rightarrow> world \<Rightarrow> world \<Rightarrow> bool" for P where
  here: "busy_run P w w"
| on: "busy_run P w w1 \<Longrightarrow> erot_step P w1 ev w2 \<Longrightarrow>
    setErotTimeHandle w2 = Suspended c a t eid eids \<Longrightarrow> busy_run P w w2"

lemma step_same_chain:
  assumes "erot_step P w ev w'" and "same_chain C T w"
    and "setErotTimeHandle w = Suspended c a t eid eids"
  shows "same_chain C T w'"
  using assms(1)
proof (cases rule: erot_step.cases)
  case (received ev)
  from erot_chain.received_keeps [OF received(2) assms(2)] show ?thesis .
next
  case (expired key e)
  with erot_chain.instanceIdExpiryCallBack_keeps assms(2) show ?thesis by blast
next
  case (deferred key)
  with erot_chain.removeRequestEntry_keeps assms(2) show ?thesis by blast
next
  case (retried key e)
  with erot_chain.retry_tick_keeps assms(2) show ?thesis by blast
next
  case (added interfaces)
  obtain infos s where "populateMctpInfo interfaces ([], socks w) = (infos, s)" by (metis surj_pair)
  with added have "handleMctpEndpoints P infos (w\<lparr>socks := s\<rparr>) = Inr w'"
    by (auto simp: discoverEndpoints_def bindR_eq_Inr)
  with assms(2,3) show ?thesis
    by (auto simp: handleMctpEndpoints_eq bindR_eq_Inr Let_def same_chain_def)
next
  case (time_changed result now clock)
  with assms(2,3) show ?thesis by (auto simp: handleTimeChange_def split: if_splits)
qed

lemma busy_run_same_chain:
  assumes "busy_run P w w'" and "setErotTimeHandle w = Suspended c a t eid eids"
  shows "\<exists>a' eid' eids'. setErotTimeHandle w' = Suspended c a' t eid' eids'"
  using assms
proof (induction rule: busy_run.induct)
  case (on w w1 ev w2 c2 a2 t2 eid2 eids2)
  then obtain a' eid' eids' where w1: "setErotTimeHandle w1 = Suspended c a' t eid' eids'" by blast
  then have "same_chain c t w1" by (simp add: same_chain_def)
  from step_same_chain [OF on.hyps(2) this w1] on.hyps(3) show ?case by (simp add: same_chain_def)
qed blast

section \<open>Properties\<close>

text \<open>
  C11: a time written through the time manager reaches the ERoTs. timedated is asked to set exactly the
  value written. If the clock then reads \<open>delta\<close> nanoseconds more when the ERoT time manager learns
  of the change, and the manager is at rest, its last synchronisation is long enough ago and the
  sockets open, then it sends the first ERoT a request that carries the value written plus the
  elapsed microseconds, and waits for the answer with the other ERoTs still to be served.
\<close>

theorem written_time_reaches_first_erot:
  assumes "write_elapsed B D st val s = (Inr val, s')" and "unat val \<le> max_usec"
    and "reliable P" and "orderly_reachable P w" and "removeRequestContainer w = []"
    and "setErotTimeHandle w = NoCoro \<or> setErotTimeHandle w = Finished"
    and "sync_interval P \<le> (now - erotTimeSyncLast w) div 1000000000"
    and "top_eids (mctpInfoMap w) = Inr (eid # eids)"
    and "activateSockets P (eid # eids) (socks w) (log w) = Inr (0, so, l)"
  shows "\<exists>ts i rq w'. calls (mgr s') = calls (mgr s)
        @ [SetTime (int (unat val)), CreateLog timeUpdated informational (time_log ts)]
    \<and> handleTimeChange P (- ECANCELED) now (getTime (int (unat val) * 1000 + int delta)) w = Inr w'
    \<and> log w' = l @ [send_io P rq, IO_retry_timer_start, IO_expiry_timer_start]
    \<and> rq_eid rq = eid \<and> requestMsg rq = addExtTimestamp_request i (val + word_of_nat (delta div 1000))
    \<and> setErotTimeHandle w' = Suspended TimeChange (next_awaitable w)
        (val + word_of_nat (delta div 1000)) eid eids"
proof -
  have v: "sint val = int (unat val)" using assms(2) by (simp add: sint_cases max_usec_def)
  have "accepts (clock_bus B D st s) (calls (mgr s)) (SetTime (int (unat val)))"
    using assms(1) v
    by (auto simp: write_elapsed_def set_elapsed_def setTime_def Let_def split: prod.splits if_splits)
  from setTime_accepted [OF this assms(2)] assms(1) v obtain ts where
    c: "calls (mgr s') = calls (mgr s)
      @ [SetTime (int (unat val)), CreateLog timeUpdated informational (time_log ts)]"
    by (auto simp: write_elapsed_def set_elapsed_def Let_def)
  let ?t = "val + word_of_nat (delta div 1000)"
  have "getTime (int (unat val) * 1000 + int delta)
      = duration_cast_down (int 1000) (int (unat val * 1000 + delta))" by (simp add: getTime_def)
  also have "\<dots> = int (unat val + delta div 1000)" unfolding duration_cast_down_nat by simp
  finally have t: "(word_of_int (getTime (int (unat val) * 1000 + int delta)) :: u64) = ?t"
    by simp
  note rest = rest_table [OF assms(3-6)]
  let ?w1 = "w\<lparr>socks := so, log := l\<rparr>"
  from first_erot_served [OF assms(3), of ?w1 eid ?t eids] rest obtain i rq w1 where
    loop: "erots_loop P ?t (eid # eids) ?w1 = Inr (Some (next_awaitable w, eid, eids), w1)"
    and w1: "log w1 = l @ [send_io P rq, IO_retry_timer_start, IO_expiry_timer_start]"
      "rq_eid rq = eid" "requestMsg rq = addExtTimestamp_request i ?t" by auto
  have set: "setTimeOnErots P ?t (eid # eids) w = Inr (Some (next_awaitable w, eid, eids), w1)"
    using assms(9) loop by (simp add: setTimeOnErots_def)
  let ?w' = "(suspend TimeChange ?t (next_awaitable w, eid, eids) w1)\<lparr>erotTimeSyncLast := now\<rparr>"
  have "\<not> duration_cast_down 1000000000 (now - erotTimeSyncLast w) < sync_interval P"
    using duration_cast_down_ge [of 1000000000 "now - erotTimeSyncLast w"] assms(7) by simp
  then have "handleTimeChange P (- ECANCELED) now (getTime (int (unat val) * 1000 + int delta)) w = Inr ?w'"
    using assms(6,8) set unfolding handleTimeChange_def t by (auto simp: Let_def)
  with c w1 show ?thesis by (intro exI [of _ ts] exI [of _ i] exI [of _ rq] exI [of _ ?w'])
      (simp add: suspend_def)
qed

lemma sample_write:
  "\<exists>s'. write_elapsed (kind_bus Manual) plain_daemons ServiceStopped 5000000 (sample_sys Manual) = (Inr 5000000, s')"
proof -
  have "ntp (sample_sys Manual) = False" using sample_settled [of Manual] by (simp add: settled_def)
  moreover have "int64 (5000000 * 1000)" by (simp add: int64_def)
  ultimately show ?thesis
    by (simp add: write_elapsed_def set_elapsed_def setTime_def clock_bus_def plain_daemons_def Let_def)
qed

theorem written_time_reaches_first_erot_witness:
  "\<exists>i rq w'. handleTimeChange (kind_platform DaemonRequest) (- ECANCELED) 60000000000
      (getTime (5000000 * 1000 + 7000)) sample_served = Inr w'
    \<and> send_io (kind_platform DaemonRequest) rq \<in> set (log w')
    \<and> rq_eid rq = 9 \<and> requestMsg rq = addExtTimestamp_request i 5000007"
proof -
  let ?P = "kind_platform DaemonRequest"
  obtain s' where s: "write_elapsed (kind_bus Manual) plain_daemons ServiceStopped 5000000 (sample_sys Manual)
      = (Inr 5000000, s')" using sample_write by blast
  have m: "unat (5000000 :: u64) \<le> max_usec" by (simp add: max_usec_def)
  have c: "removeRequestContainer sample_served = []"
    and h: "setErotTimeHandle sample_served = NoCoro \<or> setErotTimeHandle sample_served = Finished"
    and i: "sync_interval ?P \<le> (60000000000 - erotTimeSyncLast sample_served) div 1000000000"
    and t: "top_eids (mctpInfoMap sample_served) = Inr [9]"
    by (simp_all add: sample_served_def sample_waiting_def world_init_def kind_platform_def pq_top_def)
  obtain so l where a: "activateSockets ?P [9] (socks sample_served) (log sample_served) = Inr (0, so, l)"
    by (simp add: sample_served_def sample_waiting_def sock_params_def initSocket_def
        Daemon_initSocket_def run_defs sun_path_size_def registerEndpoint_def)
  from written_time_reaches_first_erot [OF s m sample_reliable sample_orderly_served c h i t a,
      where delta = 7000]
  obtain i rq w' where "handleTimeChange ?P (- ECANCELED) 60000000000
      (getTime (int (unat (5000000 :: u64)) * 1000 + int 7000)) sample_served = Inr w'"
    "log w' = l @ [send_io ?P rq, IO_retry_timer_start, IO_expiry_timer_start]" "rq_eid rq = 9"
    "requestMsg rq = addExtTimestamp_request i (5000000 + word_of_nat (7000 div 1000))" by blast
  then show ?thesis by (intro exI [of _ i] exI [of _ rq] exI [of _ w']) simp
qed

text \<open>
  C10: a change of the clock during a chain is lost. Whatever the event loop does while a chain of
  coroutines is suspended, the chain keeps the time it was started with: a change of the system time
  in between, by however much, is ignored and not made up for, and every ERoT a discovery task still
  has to serve is sent the old time.
\<close>

theorem clock_change_during_chain_is_lost:
  assumes "setErotTimeHandle w = Suspended c a t eid eids" and "busy_run P w w'"
  shows "\<exists>a' eid' eids'. setErotTimeHandle w' = Suspended c a' t eid' eids'
    \<and> (\<forall>now clock. handleTimeChange P (- ECANCELED) now clock w' = Inr w')
    \<and> (\<forall>rc. c = EndpointsTask \<longrightarrow>
          setTimeOnErots_resume P c t eid' eids' rc w' = erots_loop P t eids' (report P eid' rc w'))"
proof -
  from busy_run_same_chain [OF assms(2,1)] obtain a' eid' eids' where
    "setErotTimeHandle w' = Suspended c a' t eid' eids'" by blast
  then show ?thesis by (auto simp: handleTimeChange_def setTimeOnErots_resume_eq)
qed

theorem clock_change_during_chain_is_lost_witness:
  "busy_run (kind_platform DaemonRequest) sample_waiting sample_waiting
   \<and> handleTimeChange (kind_platform DaemonRequest) (- ECANCELED) 70000000000 1487304700000000
      sample_waiting = Inr sample_waiting"
proof -
  let ?P = "kind_platform DaemonRequest"
  have h: "setErotTimeHandle sample_waiting = Suspended EndpointsTask 0 1000 9 []"
    by (simp add: sample_waiting_def)
  have "erot_step ?P sample_waiting (TimeChanged (- ECANCELED) 70000000000 1487304700000000) sample_waiting"
    by (rule erot_step.time_changed) (simp add: handleTimeChange_def h)
  from busy_run.on [OF busy_run.here this h] have r: "busy_run ?P sample_waiting sample_waiting" .
  with clock_change_during_chain_is_lost [OF h r] show ?thesis by blast
qed

end
