(* ===== verification/ErotEndpoints.thy ===== *)
theory ErotEndpoints
  imports ErotResources
begin

text \<open>
  The endpoint tables over whole runs of the ERoT time manager: whatever is recorded for an ERoT or
  waits in the queue of discovered endpoints has socket parameters, so \<open>activateSockets\<close> never falls
  back to the empty entry that \<open>operator[]\<close> inserts.
\<close>

section \<open>The invariant\<close>

definition has_params :: "sock_state \<Rightarrow> u8 \<Rightarrow> bool" where
  "has_params s eid \<longleftrightarrow>
     (\<exists>type protocol address. eidToSockMap s eid = Some (type, protocol, address) \<and> type \<noteq> 0 \<and> address \<noteq> [])"

definition recorded_eids :: "(string \<times> MctpEidInfo list) list \<Rightarrow> u8 set" where
  "recorded_eids m = (\<Union>q\<in>snd ` set m. info_eid ` set q)"

definition queued_eids :: "mctp_info list list \<Rightarrow> u8 set" where
  "queued_eids q = (\<Union>infos\<in>set q. fst ` set infos)"

definition ep_inv :: "world \<Rightarrow> bool" where
  "ep_inv w \<longleftrightarrow> params_ok (socks w)
     \<and> (\<forall>eid\<in>recorded_eids (mctpInfoMap w) \<union> queued_eids (queuedMctpInfos w).
          eidToSockMap (socks w) eid \<noteq> None)"

lemma has_params_known: "params_ok s \<Longrightarrow> eidToSockMap s eid \<noteq> None \<Longrightarrow> has_params s eid"
  by (fastforce simp: params_ok_def has_params_def ran_def)

text \<open>Every operation but a discovery leaves the parameters alone and forgets endpoints at most.\<close>

definition ep_le :: "world \<Rightarrow> world \<Rightarrow> bool" where
  "ep_le w w' \<longleftrightarrow> eidToSockMap (socks w') = eidToSockMap (socks w)
     \<and> recorded_eids (mctpInfoMap w') \<subseteq> recorded_eids (mctpInfoMap w)
     \<and> queued_eids (queuedMctpInfos w') \<subseteq> queued_eids (queuedMctpInfos w)"

lemma ep_le_refl [simp]: "ep_le w w"
  by (simp add: ep_le_def)

lemma ep_le_trans: "ep_le w w' \<Longrightarrow> ep_le w' w'' \<Longrightarrow> ep_le w w''"
  unfolding ep_le_def by (metis subset_trans)

lemma ep_le_inv: "ep_le w w' \<Longrightarrow> ep_inv w \<Longrightarrow> ep_inv w'"
  by (auto simp: ep_le_def ep_inv_def params_ok_def)

lemma ep_le_same:
  "eidToSockMap (socks w') = eidToSockMap (socks w) \<Longrightarrow> mctpInfoMap w' = mctpInfoMap w \<Longrightarrow>
     queuedMctpInfos w' = queuedMctpInfos w \<Longrightarrow> ep_le w w'"
  by (simp add: ep_le_def)

lemma ep_le_quiet:
  "quiet w w' \<Longrightarrow> mctpInfoMap w' = mctpInfoMap w \<Longrightarrow> queuedMctpInfos w' = queuedMctpInfos w \<Longrightarrow> ep_le w w'"
  by (simp add: ep_le_def quiet_def)

section \<open>Every operation keeps it\<close>

lemma initSocket_params:
  "initSocket P type protocol path s l = Inr (fd, s', l') \<Longrightarrow> eidToSockMap s' = eidToSockMap s"
  by (auto simp: initSocket_def Daemon_initSocket_def InKernel_initSocket_def Let_def syscall_def
      split: transport.splits if_splits)

lemma activateSockets_params:
  "activateSockets P eids s l = Inr (rc, s', l') \<Longrightarrow> \<forall>eid\<in>set eids. eidToSockMap s eid \<noteq> None \<Longrightarrow>
     eidToSockMap s' = eidToSockMap s"
proof (induction eids arbitrary: s l)
  case (Cons eid eids)
  from Cons.prems(2) obtain ty pr path where p: "eidToSockMap s eid = Some (ty, pr, path)" by auto
  have reg: "eidToSockMap (registerEndpoint eid fd k) = eidToSockMap k" for fd k
    by (simp add: registerEndpoint_def)
  show ?case
  proof (cases "map_of (socketInfoMap s) path")
    case (Some fd)
    with Cons.prems(1) p have "activateSockets P eids (registerEndpoint eid fd s) l = Inr (rc, s', l')"
      by (simp add: sock_params_def)
    from Cons.IH [OF this] Cons.prems(2) show ?thesis by (simp add: reg)
  next
    case None
    with Cons.prems(1) p obtain fd k l2 where init: "initSocket P ty pr path s l = Inr (fd, k, l2)"
      and rest: "(if fd < 0 then activateSockets P eids k l2
         else activateSockets P eids (registerEndpoint eid fd k) l2) = Inr (rc, s', l')"
      by (auto simp: sock_params_def bindR_eq_Inr)
    from initSocket_params [OF init] have "eidToSockMap k = eidToSockMap s" .
    with Cons.prems(2) rest Cons.IH [of k l2] Cons.IH [of "registerEndpoint eid fd k" l2] show ?thesis
      by (simp add: reg split: if_splits)
  qed
qed simp

lemma start_ep: "setTimeOnErot_start P eid t w = Inr (r, w') \<Longrightarrow> ep_le w w'"
  using setTimeOnErot_start_frame(1,2) [of P eid t w r w']
  by (intro ep_le_quiet start_quiet) (auto simp: same_queue_def)

lemma set_delete_sub: "set (AList.delete k xs) \<subseteq> set xs"
  by (auto simp: set_delete)

lemma report_ep: "ep_le w (report P eid rc w)"
proof -
  have "set (mctpInfoMap (report P eid rc w)) \<subseteq> set (mctpInfoMap w)"
    by (auto simp: report_def createErrorLog_def Let_def set_delete split: option.splits)
  then have "recorded_eids (mctpInfoMap (report P eid rc w)) \<subseteq> recorded_eids (mctpInfoMap w)"
    by (auto simp: recorded_eids_def)
  then show ?thesis
    using report_frame(3) [where P = P and eid = eid and rc = rc and w = w]
      report_frame(6) [where P = P and eid = eid and rc = rc and w = w]
    by (simp add: ep_le_def same_queue_def)
qed

lemma close_ep: "ep_le w (close_sockets w)"
  using close_sockets_frame(4,5) [of w]
  by (intro ep_le_same)
    (auto simp: close_sockets_def deactivateSockets_def clearMctpEndpoints_def same_queue_def)

lemma erots_loop_ep: "erots_loop P t eids w = Inr (s, w') \<Longrightarrow> ep_le w w'"
proof (induction eids arbitrary: w)
  case (Cons x eids)
  then obtain r w1 where st: "setTimeOnErot_start P x t w = Inr (r, w1)"
    and rest: "(case r of Awaits a \<Rightarrow> Inr (Some (a, x, eids), w1)
       | Returned rc \<Rightarrow> erots_loop P t eids (report P x rc w1)) = Inr (s, w')"
    by (auto simp: bindR_eq_Inr)
  show ?case
  proof (cases r)
    case (Returned rc)
    with rest have "erots_loop P t eids (report P x rc w1) = Inr (s, w')" by simp
    from start_ep [OF st] report_ep Cons.IH [OF this] show ?thesis by (blast intro: ep_le_trans)
  qed (use rest start_ep [OF st] in auto)
qed (auto simp: close_ep)

lemma setTimeOnErots_ep:
  assumes "setTimeOnErots P t eids w = Inr (s, w')" and "\<forall>eid\<in>set eids. eidToSockMap (socks w) eid \<noteq> None"
  shows "ep_le w w'"
proof (cases "eids = []")
  case False
  with assms(1) obtain rc k l where act: "activateSockets P eids (socks w) (log w) = Inr (rc, k, l)"
    and rest: "(if rc < 0 then Inr (None, w\<lparr>socks := k, log := l\<rparr>)
      else erots_loop P t eids (w\<lparr>socks := k, log := l\<rparr>)) = Inr (s, w')"
    by (auto simp: setTimeOnErots_def bindR_eq_Inr)
  have "ep_le w (w\<lparr>socks := k, log := l\<rparr>)"
    using activateSockets_params [OF act assms(2)] by (intro ep_le_same) simp_all
  with rest show ?thesis
    by (auto split: if_splits dest: erots_loop_ep intro: ep_le_trans)
qed (use assms in \<open>simp add: setTimeOnErots_def\<close>)

lemma pop_ep: "ep_le w (w\<lparr>queuedMctpInfos := tl (queuedMctpInfos w)\<rparr>)"
  by (cases "queuedMctpInfos w") (auto simp: ep_le_def queued_eids_def)

lemma task_loop_ep: "task_loop P t w = Inr (s, w') \<Longrightarrow> ep_inv w \<Longrightarrow> ep_le w w'"
proof (induction P t w rule: task_loop.induct)
  case (1 P t w)
  show ?case
  proof (cases "queuedMctpInfos w")
    case Nil
    with 1(2) show ?thesis by (subst (asm) task_loop.simps) auto
  next
    case (Cons infos q)
    with 1(2) obtain s1 w1 where set: "setTimeOnErots P t (map fst infos) w = Inr (s1, w1)"
      and rest: "(case s1 of Some x \<Rightarrow> Inr (Some x, w1)
        | None \<Rightarrow> task_loop P t (w1\<lparr>queuedMctpInfos := tl (queuedMctpInfos w1)\<rparr>)) = Inr (s, w')"
      by (subst (asm) task_loop.simps) (auto simp: bindR_eq_Inr)
    have le: "ep_le w w1"
      using 1(3) Cons by (intro setTimeOnErots_ep [OF set]) (auto simp: ep_inv_def queued_eids_def)
    show ?thesis
    proof (cases s1)
      case (Some x)
      with rest le show ?thesis by auto
    next
      case None
      let ?w2 = "w1\<lparr>queuedMctpInfos := tl (queuedMctpInfos w1)\<rparr>"
      from None rest have "task_loop P t ?w2 = Inr (s, w')" by simp
      with 1(1) [OF Cons set refl None] ep_le_inv [OF ep_le_trans [OF le pop_ep] 1(3)]
      show ?thesis using le pop_ep by (blast intro: ep_le_trans)
    qed
  qed
qed

lemma suspend_ep [simp]: "ep_le w (suspend c t x w')  \<longleftrightarrow> ep_le w w'"
  by (cases x) (simp add: suspend_def ep_le_def)

lemma handle_ep [simp]: "ep_le w (w'\<lparr>setErotTimeHandle := h\<rparr>) \<longleftrightarrow> ep_le w w'"
  by (simp add: ep_le_def)

lemma erot_invoke_ep:
  assumes "erot_invoke P b eid' r w = Inr w'" and "ep_inv w"
  shows "ep_inv w'"
proof -
  from assms(1) obtain c a t eid eids where h: "setErotTimeHandle w = Suspended c a t eid eids"
    by (auto simp: erot_invoke_def split: coro.splits)
  with assms(1) obtain rc s w1 where
    res: "setTimeOnErots_resume P c t eid eids rc w = Inr (s, w1)" and
    after: "after_loop P c t (s, w1) = Inr w'"
    by (auto simp: erot_invoke_def bindR_eq_Inr split: if_splits)
  from res have "erots_loop P t eids (report P eid rc w) = Inr (s, w1)"
    by (simp add: setTimeOnErots_resume_eq split: if_splits)
  from ep_le_trans [OF report_ep erots_loop_ep [OF this]] have le: "ep_le w w1" .
  let ?w2 = "w1\<lparr>queuedMctpInfos := tl (queuedMctpInfos w1)\<rparr>"
  have le2: "ep_le w ?w2" using le pop_ep by (rule ep_le_trans)
  have task: "ep_le w v" if "task_loop P t ?w2 = Inr (s2, v)" for s2 v
    using task_loop_ep [OF that ep_le_inv [OF le2 assms(2)]] le2 by (blast intro: ep_le_trans)
  from after le task have "ep_le w w'"
    by (auto simp: after_loop_def bindR_eq_Inr split: option.splits caller.splits)
  then show ?thesis using assms(2) by (rule ep_le_inv)
qed

interpretation erot_ep: response_contract "erot_invoke P" ep_inv for P
proof
  show "erot_invoke P rh eid r w = Inr w' \<Longrightarrow> ep_inv w \<Longrightarrow> ep_inv w'" for rh eid r w w'
    by (rule erot_invoke_ep)
  show "ep_inv w \<Longrightarrow> ep_inv (upd_entry key stop_entry w)" for w :: world and key
    by (erule ep_le_inv [rotated]) (simp add: ep_le_same upd_entry_def)
  show "ep_inv w \<Longrightarrow> ep_inv (w\<lparr>handlers := AList.delete key (handlers w)\<rparr>)" for w :: world and key
    by (erule ep_le_inv [rotated]) (simp add: ep_le_same)
  show "free_id eid i w = Inr w' \<Longrightarrow> ep_inv w \<Longrightarrow> ep_inv w'" for eid i and w w' :: world
    by (erule ep_le_inv [rotated]) (auto intro!: ep_le_same dest!: handlers_free_id)
  show "runRegisteredRequest P' eid w = Inr (rc, w') \<Longrightarrow> ep_inv w \<Longrightarrow> ep_inv w'"
    for P' eid rc and w w' :: world
  proof (erule ep_le_inv [rotated])
    assume run: "runRegisteredRequest P' eid w = Inr (rc, w')"
    note M = world_more [OF runRegisteredRequest_frame(3) [OF run]]
    show "ep_le w w'" by (rule ep_le_quiet [OF runRegisteredRequest_quiet [OF run] M(1,2)])
  qed
  show "ep_inv w \<Longrightarrow> ep_inv (w\<lparr>removeRequestContainer := c\<rparr>)" for w :: world and c
    by (erule ep_le_inv [rotated]) (simp add: ep_le_same)
qed

section \<open>Discovering\<close>

lemma sift_up_set: "sift_up v h c = Inr c' \<Longrightarrow> h < length c \<Longrightarrow> set c' \<subseteq> insert v (set c)"
proof (induction v h c rule: sift_up.induct)
  case (1 v h c)
  let ?p = "(h - 1) div 2"
  show ?case
  proof (cases "h = 0")
    case True
    with 1(2) have "c' = c[0 := v]" by (subst (asm) sift_up.simps) auto
    then show ?thesis by (simp add: set_update_subset_insert)
  next
    case False
    with 1(2) obtain lt where less: "info_less (c ! ?p) v = Inr lt"
      and rest: "(if lt then sift_up v ?p (c[h := c ! ?p]) else Inr (c[h := v])) = Inr c'"
      by (subst (asm) sift_up.simps) (auto simp: bindR_eq_Inr)
    have p: "?p < length c" using 1(3) by linarith
    show ?thesis
    proof (cases lt)
      case True
      with rest 1(1) [OF False less True] p have "set c' \<subseteq> insert v (set (c[h := c ! ?p]))" by simp
      moreover have "set (c[h := c ! ?p]) \<subseteq> set c"
        using set_update_subset_insert [of c h "c ! ?p"] p by auto
      ultimately show ?thesis by blast
    next
      case False
      with rest have "c' = c[h := v]" by simp
      then show ?thesis by (simp add: set_update_subset_insert)
    qed
  qed
qed

lemma pq_push_set: "pq_push v c = Inr c' \<Longrightarrow> set c' \<subseteq> insert v (set c)"
  using sift_up_set [of v "length c" "c @ [v]" c'] by (auto simp: pq_push_def)

lemma recorded_eids_insert: "set m' \<subseteq> insert (u, q) (set m) \<Longrightarrow>
    recorded_eids m' \<subseteq> info_eid ` set q \<union> recorded_eids m"
  by (fastforce simp: recorded_eids_def)

lemma set_update_sub: "set (AList.update k v xs) \<subseteq> insert (k, v) (set xs)"
  by (induction xs) auto

lemma subset_insert_chain: "A \<subseteq> B \<union> M \<Longrightarrow> B \<subseteq> insert e C \<Longrightarrow> C \<subseteq> M \<Longrightarrow> A \<subseteq> insert e M"
  by blast

lemma record_infos_eids:
  "record_infos P infos m = Inr m' \<Longrightarrow> recorded_eids m' \<subseteq> fst ` set infos \<union> recorded_eids m"
proof (induction P infos m rule: record_infos.induct)
  case (2 P eid uuid mediumType networkId infos m)
  let ?x = "\<lparr>info_eid = eid, info_medium = mediumType\<rparr>"
  show ?case
  proof (cases "map_of m uuid")
    case None
    with 2(3) obtain q where q: "pq_push ?x [] = Inr q"
      and rest: "record_infos P infos (hash_emplace (uuid_order P) uuid q m) = Inr m'"
      by (auto simp: bindR_eq_Inr)
    have sub: "set (hash_emplace (uuid_order P) uuid q m) \<subseteq> insert (uuid, q) (set m)"
      by (auto simp: set_hash_emplace)
    have "info_eid ` set q \<subseteq> insert eid {}" using pq_push_set [OF q] by auto
    from subset_insert_chain [OF recorded_eids_insert [OF sub] this empty_subsetI]
    have "recorded_eids (hash_emplace (uuid_order P) uuid q m) \<subseteq> insert eid (recorded_eids m)" .
    with 2(1) [OF None q rest] show ?thesis by auto
  next
    case (Some queue)
    with 2(3) obtain q where q: "pq_push ?x queue = Inr q"
      and rest: "record_infos P infos (AList.update uuid q m) = Inr m'"
      by (auto simp: bindR_eq_Inr)
    have sub: "info_eid ` set queue \<subseteq> recorded_eids m"
      using map_of_SomeD [OF Some] by (force simp: recorded_eids_def)
    have "info_eid ` set q \<subseteq> insert eid (info_eid ` set queue)" using pq_push_set [OF q] by auto
    with sub have "recorded_eids (AList.update uuid q m) \<subseteq> insert eid (recorded_eids m)"
      by (intro subset_insert_chain [OF recorded_eids_insert [OF set_update_sub]])
    with 2(2) [OF Some q rest] show ?thesis by auto
  qed
qed simp

lemma handleMctpEndpoints_ep:
  assumes "handleMctpEndpoints P infos w = Inr w'" and "ep_inv w"
    and "\<forall>eid\<in>fst ` set infos. eidToSockMap (socks w) eid \<noteq> None"
  shows "ep_inv w'"
proof -
  from assms(1) obtain m where m: "record_infos P infos (mctpInfoMap w) = Inr m"
    by (auto simp: handleMctpEndpoints_eq bindR_eq_Inr)
  let ?w1 = "w\<lparr>mctpInfoMap := m, queuedMctpInfos := queuedMctpInfos w @ [infos]\<rparr>"
  have inv: "ep_inv ?w1"
  proof -
    let ?all = "fst ` set infos \<union> (recorded_eids (mctpInfoMap w) \<union> queued_eids (queuedMctpInfos w))"
    have "queued_eids (queuedMctpInfos w @ [infos]) = queued_eids (queuedMctpInfos w) \<union> fst ` set infos"
      by (auto simp: queued_eids_def)
    with record_infos_eids [OF m]
    have sub: "recorded_eids m \<union> queued_eids (queuedMctpInfos w @ [infos]) \<subseteq> ?all" by blast
    have all: "\<forall>eid\<in>?all. eidToSockMap (socks w) eid \<noteq> None"
      using assms(2,3) unfolding ep_inv_def by blast
    have "\<forall>eid\<in>recorded_eids m \<union> queued_eids (queuedMctpInfos w @ [infos]).
        eidToSockMap (socks w) eid \<noteq> None"
      by (intro ballI bspec [OF all] subsetD [OF sub])
    with assms(2) show ?thesis by (simp add: ep_inv_def)
  qed
  show ?thesis
  proof (cases "\<exists>c a t cur eids. setErotTimeHandle w = Suspended c a t cur eids")
    case True
    with assms(1) m inv show ?thesis by (auto simp: handleMctpEndpoints_eq Let_def)
  next
    case False
    let ?w2 = "?w1\<lparr>setErotTimeHandle := NoCoro, log := log w @ [IO_get_elapsed]\<rparr>"
    from False assms(1) m obtain t s w3 where task: "task_loop P t ?w2 = Inr (Some s, w3)"
      and w': "w' = suspend EndpointsTask t s w3"
      by (cases "setErotTimeHandle w")
        (auto simp: handleMctpEndpoints_eq handleMctpEndpointsTask_def Let_def bindR_eq_Inr
          split: option.splits sum.splits)
    have "ep_le ?w1 ?w2" by (simp add: ep_le_def)
    then have inv2: "ep_inv ?w2" using inv by (rule ep_le_inv)
    from task_loop_ep [OF task inv2] w' have "ep_le ?w2 w'" by simp
    then show ?thesis using inv2 by (rule ep_le_inv)
  qed
qed

lemma top_eids_recorded: "top_eids m = Inr eids \<Longrightarrow> set eids \<subseteq> recorded_eids m"
proof (induction m arbitrary: eids rule: top_eids.induct)
  case (2 uuid queue rest)
  then obtain x es where "pq_top queue = Inr x" "top_eids rest = Inr es" "eids = info_eid x # es"
    by (auto simp: bindR_eq_Inr)
  with 2(1) [of x es] show ?case
    by (auto simp: recorded_eids_def pq_top_def split: list.splits)
qed simp

lemma handleTimeChange_ep:
  assumes "handleTimeChange P result now elapsed w = Inr w'" and "ep_inv w"
  shows "ep_inv w'"
proof (cases "w' = w")
  case True
  with assms(2) show ?thesis by simp
next
  case False
  with assms(1) obtain eids s w1 where top: "top_eids (mctpInfoMap w) = Inr eids" and
    set: "setTimeOnErots P (word_of_int elapsed) eids w = Inr (s, w1)" and
    w': "w' = (case s of Some x \<Rightarrow> suspend TimeChange (word_of_int elapsed) x w1
        | None \<Rightarrow> w1\<lparr>setErotTimeHandle := NoCoro\<rparr>)\<lparr>erotTimeSyncLast := now\<rparr>"
    by (auto simp: handleTimeChange_def bindR_eq_Inr Let_def split: if_splits coro.splits)
  have "ep_le w w1"
    using assms(2) top_eids_recorded [OF top] by (intro setTimeOnErots_ep [OF set]) (auto simp: ep_inv_def)
  moreover have "ep_le w1 w'"
    unfolding w' by (cases s) (auto simp: ep_le_def suspend_def split: prod.splits)
  ultimately show ?thesis using assms(2) by (blast intro: ep_le_inv ep_le_trans)
qed

text \<open>Discovery extends the tables and reports only what it has put there.\<close>

definition grown :: "sock_state \<Rightarrow> mctp_info list \<times> sock_state \<Rightarrow> bool" where
  "grown s r \<longleftrightarrow> registered_all r \<and> params_ok (snd r)
     \<and> (\<forall>eid. eidToSockMap s eid \<noteq> None \<longrightarrow> eidToSockMap (snd r) eid \<noteq> None)"

lemma grown_start: "params_ok s \<Longrightarrow> grown s ([], s)"
  by (simp add: grown_def registered_all_def)

lemma populate_grown:
  assumes "grown s r"
  shows "grown s (populateMctpInfo interfaces r)"
proof -
  obtain infos k where r: "r = (infos, k)" by (metis surj_pair)
  have "eidToSockMap k eid \<noteq> None \<longrightarrow> eidToSockMap (snd (populateMctpInfo interfaces (infos, k))) eid \<noteq> None"
    for eid
    by (rule populateMctpInfo_cases [of interfaces infos k]) (simp_all add: eidToSockMap_register)
  with assms populateMctpInfo_keeps [of r interfaces] r show ?thesis by (auto simp: grown_def)
qed

lemma grown_ep:
  assumes "grown (socks w) (infos, s)" and "ep_inv w"
    and "handleMctpEndpoints P infos (w\<lparr>socks := s\<rparr>) = Inr w'"
  shows "ep_inv w'"
proof (rule handleMctpEndpoints_ep [OF assms(3)])
  show "ep_inv (w\<lparr>socks := s\<rparr>)" using assms(1,2) by (auto simp: ep_inv_def grown_def)
  show "\<forall>eid\<in>fst ` set infos. eidToSockMap (socks (w\<lparr>socks := s\<rparr>)) eid \<noteq> None"
    using assms(1) by (fastforce simp: grown_def registered_all_def)
qed

lemma discoverEndpoints_ep:
  assumes "discoverEndpoints (erot_handlers P) interfaces w = Inr w'" and "ep_inv w"
  shows "ep_inv w'"
proof -
  obtain infos s where p: "populateMctpInfo interfaces ([], socks w) = (infos, s)" by (metis surj_pair)
  with assms(1) have h: "handleMctpEndpoints P infos (w\<lparr>socks := s\<rparr>) = Inr w'"
    by (auto simp: discoverEndpoints_def bindR_eq_Inr)
  have "params_ok (socks w)" using assms(2) by (simp add: ep_inv_def)
  from populate_grown [OF grown_start [OF this], of interfaces]
  show ?thesis unfolding p by (rule grown_ep [OF _ assms(2) h])
qed

lemma MctpDiscovery_ep:
  assumes "MctpDiscovery (erot_handlers P) subtree getAll w = Inr w'" and "ep_inv w"
  shows "ep_inv w'"
proof (cases "\<exists>tree. subtree = Some tree \<and> tree \<noteq> []")
  case True
  then obtain tree where tree: "subtree = Some tree" "tree \<noteq> []" by blast
  obtain infos s where p: "fetch_objects getAll tree ([], socks w) = (infos, s)" by (metis surj_pair)
  with assms(1) tree have h: "handleMctpEndpoints P infos (w\<lparr>socks := s\<rparr>) = Inr w'"
    by (auto simp: MctpDiscovery_def bindR_eq_Inr)
  have "grown (socks w) (fetch_objects getAll tree ([], socks w))"
    using assms(2) by (intro fetch_objects_keeps [where I = "grown (socks w)"])
      (auto intro: populate_grown grown_start simp: ep_inv_def)
  then show ?thesis unfolding p by (rule grown_ep [OF _ assms(2) h])
next
  case False
  with assms show ?thesis
    by (auto simp: MctpDiscovery_def bindR_eq_Inr intro: handleMctpEndpoints_ep
        split: option.splits if_splits)
qed

section \<open>Every reachable state\<close>

lemma handleReceivedMsg_ep:
  assumes "handleReceivedMsg P (erot_invoke P) ev w = Inr w'" and "ep_inv w"
  shows "ep_inv w'"
proof -
  have exit: "ep_inv (w\<lparr>log := l\<rparr>)" for l
    using assms(2) ep_le_inv [of w "w\<lparr>log := l\<rparr>"] by (simp add: ep_le_def)
  from erot_ep.handleReceivedMsg_keeps [OF assms exit] show ?thesis .
qed

lemma retry_tick_ep: "ep_inv w \<Longrightarrow> ep_inv (retry_tick P key w)"
  by (erule ep_le_inv [rotated], rule ep_le_same)
    (auto simp: retry_tick_def upd_entry_def split: option.splits prod.splits)

lemma erot_step_ep: "erot_step P w ev w' \<Longrightarrow> ep_inv w \<Longrightarrow> ep_inv w'"
  by (induction rule: erot_step.induct)
    (auto intro: handleReceivedMsg_ep erot_ep.instanceIdExpiryCallBack_keeps
      erot_ep.removeRequestEntry_keeps discoverEndpoints_ep handleTimeChange_ep retry_tick_ep)

lemma reachable_ep: "erot_reachable P w \<Longrightarrow> ep_inv w"
proof (induction rule: erot_reachable.induct)
  case (start subtree getAll w)
  have "ep_inv world_init"
    by (simp add: world_init_def ep_inv_def params_ok_init recorded_eids_def queued_eids_def)
  with start show ?case by (rule MctpDiscovery_ep)
next
  case (step w ev w')
  then show ?case by (blast intro: erot_step_ep)
qed

text \<open>
  C3: the endpoint tables are well formed in every reachable state. Every endpoint that is recorded
  for an ERoT or waits in the queue has an entry in the socket handler's table, with an address and
  a socket type other than 0; setting the time on any of them leaves the table as it is.
\<close>

theorem reachable_endpoints_have_parameters:
  assumes "erot_reachable P w"
    and "eid \<in> recorded_eids (mctpInfoMap w) \<union> queued_eids (queuedMctpInfos w)"
  shows "has_params (socks w) eid
    \<and> (setTimeOnErots P t [eid] w = Inr (s, w') \<longrightarrow> eidToSockMap (socks w') = eidToSockMap (socks w))"
proof -
  from reachable_ep [OF assms(1)] have inv: "ep_inv w" .
  with assms(2) have known: "eidToSockMap (socks w) eid \<noteq> None" by (auto simp: ep_inv_def)
  then have "has_params (socks w) eid" using inv by (auto simp: ep_inv_def intro: has_params_known)
  moreover have "eidToSockMap (socks w') = eidToSockMap (socks w)"
    if "setTimeOnErots P t [eid] w = Inr (s, w')"
    using setTimeOnErots_ep [OF that] known by (simp add: ep_le_def)
  ultimately show ?thesis by blast
qed

theorem reachable_endpoints_have_parameters_witness:
  "has_params (socks sample_waiting) 9"
proof -
  have "9 \<in> recorded_eids (mctpInfoMap sample_waiting) \<union> queued_eids (queuedMctpInfos sample_waiting)"
    by (simp add: sample_waiting_def recorded_eids_def)
  from reachable_endpoints_have_parameters [OF sample_reachable this] show ?thesis by blast
qed

end
