(* ===== verification/ErotSequence.thy ===== *)
theory ErotSequence
  imports TimeDelivery ErotEndpoints
begin

text \<open>
  A discovery task from its first request to its end: every endpoint of a list that answers is served
  once, in the order of the list, with the time the task was started with.
\<close>

section \<open>One answer\<close>

text \<open>The answer to the one request of the table, \<open>n\<close> times in succession.\<close>

fun answered :: "platform \<Rightarrow> bytes \<Rightarrow> u64 \<Rightarrow> nat \<Rightarrow> world \<Rightarrow> exn + world" where
  "answered P msg len 0 w = Inr w"
| "answered P msg len (Suc n) w =
     (case handlers w of
        [(key, e)] \<Rightarrow> bindR (handleResponse P (erot_invoke P) key msg len w) (answered P msg len n)
      | _ \<Rightarrow> Inl AssertFailed)"

definition ready :: "world \<Rightarrow> bool" where
  "ready w \<longleftrightarrow> sys_inv w \<and> progress_inv w \<and> removeRequestContainer w = []"

abbreviation sent_request :: "platform \<Rightarrow> retry_request \<Rightarrow> io list" where
  "sent_request P rq \<equiv> [send_io P rq, IO_retry_timer_start, IO_expiry_timer_start]"

lemma single_handler:
  assumes "distinct (map fst (handlers w))" and "keys w = {key}"
  shows "\<exists>e. handlers w = [(key, e)]"
proof -
  have "length (handlers w) = card (fst ` set (handlers w))"
    using assms(1) by (metis distinct_card length_map set_map)
  with assms(2) have "length (handlers w) = Suc 0" by (simp add: keys_def)
  then obtain x where "handlers w = [x]" by (auto simp: length_Suc_conv)
  with assms(2) show ?thesis by (cases x) (simp add: keys_def)
qed

lemma ready_handler:
  assumes "ready w" and "setErotTimeHandle w = Suspended c a t eid eids"
  obtains key e where "handlers w = [(key, e)]" "e_handler e = a" "key_eid key = eid"
    "unat (key_instanceId key) < maxInstanceIds" "\<forall>x. held (ids w) x = entry_ids {key} x"
proof -
  from assms have inv: "sys_inv w" and p: "progress_inv w" and c: "removeRequestContainer w = []"
    by (simp_all add: ready_def)
  from p have ok: "table_ok {} w" and wait: "chain_waits {} w" unfolding progress_inv_def c by simp_all
  from wait assms(2) obtain key where k: "keys w = {key}" "handler_at w key = Some a" "key_eid key = eid"
    by (auto simp: chain_waits_def)
  note R = sys_inv_req [OF inv]
  from single_handler [OF req_inv_distinct [OF R] k(1)] obtain e where h: "handlers w = [(key, e)]" ..
  with k have "e_handler e = a" by (simp add: handler_at_def)
  moreover have "unat (key_instanceId key) < maxInstanceIds" using R k(1) by (simp add: req_inv_def)
  moreover have "held (ids w) x = entry_ids {key} x" for x using ok k(1) by (simp add: table_ok_def)
  ultimately show thesis using that h k(3) by blast
qed

text \<open>What the response path does up to the call of the handler.\<close>

definition answered_state :: "world \<Rightarrow> (u8 \<rightharpoonup> 32 word) \<Rightarrow> world" where
  "answered_state w m = w\<lparr>handlers := [], ids := m\<rparr>"

lemma handleResponse_single:
  assumes "handlers w = [(key, e)]" and "unat (key_instanceId key) < maxInstanceIds"
  obtains m where "held m = (held (ids w))(key_eid key := held (ids w) (key_eid key) - {key_instanceId key})"
    and "handleResponse P (erot_invoke P) key msg len w =
      bindR (erot_invoke P (e_handler e) (key_eid key) (Some (msg, len)) (answered_state w m))
        (\<lambda>w2. bindR (runRegisteredRequest P (key_eid key) w2) (\<lambda>(rc, w3). Inr w3))"
proof -
  let ?w0 = "upd_entry key stop_entry w"
  from free_id_ok [OF assms(2)] obtain w1 where f: "free_id (key_eid key) (key_instanceId key) ?w0 = Inr w1"
    by blast
  from handlers_free_id [OF f] obtain m where m: "w1 = ?w0\<lparr>ids := m\<rparr>"
    "held m = (held (ids w))(key_eid key := held (ids w) (key_eid key) - {key_instanceId key})" by auto
  have "w1\<lparr>handlers := AList.delete key (handlers w1)\<rparr> = answered_state w m"
    using assms(1) by (simp add: m(1) upd_entry_def answered_state_def)
  with f assms(1) have "handleResponse P (erot_invoke P) key msg len w =
      bindR (erot_invoke P (e_handler e) (key_eid key) (Some (msg, len)) (answered_state w m))
        (\<lambda>w2. bindR (runRegisteredRequest P (key_eid key) w2) (\<lambda>(rc, w3). Inr w3))"
    by (simp add: handleResponse_def)
  with m(2) show thesis using that by blast
qed

text \<open>A request for an endpoint that has none joins the table and runs; the descriptors stay.\<close>

lemma registered_joins:
  assumes "registerRequest P eid i type command msg rh w = Inr (rc, w')"
    and "distinct (map fst (handlers w))" and "eid \<notin> key_eid ` keys w"
  shows "keys w' = insert (RequestKey eid i type command) (keys w)"
    and "distinct (map fst (handlers w'))" and "socketInfoMap (socks w') = socketInfoMap (socks w)"
proof -
  obtain fd s where s: "getSocket eid (socks w) = (fd, s)" by (metis surj_pair)
  let ?key = "RequestKey eid i type command"
  let ?e = "\<lparr>e_request = \<lparr>rq_fd = fd, rq_eid = eid, requestMsg = msg, numRetries = numCommandRetries,
    retry_timer = False\<rparr>, e_handler = rh, e_timer = False\<rparr>"
  let ?wa = "w\<lparr>socks := s, handlers := hash_emplace (key_order P) ?key ?e (handlers w)\<rparr>"
  from assms s have run: "runRegisteredRequest P eid ?wa = Inr (rc, w')" by (simp add: registerRequest_def)
  have fresh: "?key \<notin> keys w" using assms(3) by force
  have d: "distinct (map fst (handlers ?wa))" using assms(2) by simp
  have "keys ?wa = insert ?key (keys w)" using fresh by (simp add: keys_def set_hash_emplace)
  with keys_run [OF run d] show "keys w' = insert ?key (keys w)" by simp
  show "distinct (map fst (handlers w'))" using runRegisteredRequest_result(1) [OF d run] d by simp
  have "socketInfoMap s = socketInfoMap (socks w)" using s by (auto simp: getSocket_def split: option.splits)
  with runRegisteredRequest_frame(2) [OF run] show "socketInfoMap (socks w') = socketInfoMap (socks w)"
    by simp
qed

lemma next_request:
  assumes "reliable P" and "distinct (map fst (handlers w))" and "eid \<notin> key_eid ` keys w"
    and "held (ids w) eid = {}"
  shows "\<exists>i rq w'. erots_loop P t (eid # eids) w = Inr (Some (next_awaitable w, eid, eids), w')
    \<and> log w' = log w @ sent_request P rq \<and> rq_eid rq = eid \<and> requestMsg rq = addExtTimestamp_request i t
    \<and> distinct (map fst (handlers w')) \<and> keys w' = insert (RequestKey eid i 1 0x13) (keys w)
    \<and> RequestKey eid i 1 0x13 \<in> running w' eid \<and> socketInfoMap (socks w') = socketInfoMap (socks w)"
proof -
  obtain x m where g: "getInstanceId eid (ids w) = (x, m)" by (metis surj_pair)
  have "x \<noteq> Inl e" for e
    using iid.alloc_full [of eid "ids w" e m] g assms(4) by (auto simp: maxInstanceIds_def)
  then obtain i where x: "x = Inr i" by (cases x) auto
  have i: "unat i < 32" using getInstanceId_Inr(1) [OF g [unfolded x]] by (simp add: maxInstanceIds_def)
  let ?w0 = "w\<lparr>ids := m, next_awaitable := Suc (next_awaitable w)\<rparr>"
  let ?q = "addExtTimestamp_request i t"
  obtain fd s where "getSocket eid (socks w) = (fd, s)" by (metis surj_pair)
  then have "\<exists>w'. registerRequest P eid i 1 0x13 ?q (next_awaitable w) ?w0 = Inr (0, w')"
    by (simp add: registerRequest_def run_reliable [OF assms(1)])
  then obtain w' where reg: "registerRequest P eid i 1 0x13 ?q (next_awaitable w) ?w0 = Inr (0, w')" ..
  have start: "setTimeOnErot_start P eid t w = Inr (Awaits (next_awaitable w), w')"
    using g x reg by (simp add: setTimeOnErot_start_def await_suspend_def request_key_built [OF i])
  have k0: "keys ?w0 = keys w" by (rule keys_cong) simp
  have pre: "distinct (map fst (handlers ?w0))" "eid \<notin> key_eid ` keys ?w0" using assms(2,3) k0 by simp_all
  from registered_idle [OF reg pre] obtain rq where
    e: "map_of (handlers w') (RequestKey eid i 1 0x13)
      = Some \<lparr>e_request = rq, e_handler = next_awaitable w, e_timer = True\<rparr>"
    and rq: "requestMsg rq = ?q" "rq_eid rq = eid"
    "log w' = log w @ sent_request P rq" by auto
  from e have "RequestKey eid i 1 0x13 \<in> running w' eid" by (simp add: running_def)
  with start rq registered_joins [OF reg pre] k0 show ?thesis
    by (intro exI [of _ i] exI [of _ rq] exI [of _ w']) simp
qed

lemma first_erot_alone:
  assumes "reliable P" and "handlers w = []" and "held (ids w) eid = {}"
  shows "\<exists>i rq w'. erots_loop P t (eid # eids) w = Inr (Some (next_awaitable w, eid, eids), w')
    \<and> log w' = log w @ sent_request P rq \<and> rq_eid rq = eid \<and> requestMsg rq = addExtTimestamp_request i t
    \<and> distinct (map fst (handlers w')) \<and> keys w' = {RequestKey eid i 1 0x13} \<and> RequestKey eid i 1 0x13 \<in> running w' eid
    \<and> socketInfoMap (socks w') = socketInfoMap (socks w)"
proof -
  have "keys w = {}" using assms(2) by (simp add: keys_def)
  with next_request [OF assms(1) _ _ assms(3), of t eids] assms(2) show ?thesis by simp
qed

lemma answer_sends_next:
  assumes "reliable P" and "ready w" and "setErotTimeHandle w = Suspended EndpointsTask a t eid (eid2 # eids)"
    and "setTimeOnErot_finish (Some (msg, len)) = Inr 0"
  shows "\<exists>i rq a' w'. answered P msg len 1 w = Inr w' \<and> ready w'
    \<and> setErotTimeHandle w' = Suspended EndpointsTask a' t eid2 eids
    \<and> log w' = log w @ sent_request P rq \<and> rq_eid rq = eid2 \<and> requestMsg rq = addExtTimestamp_request i t
    \<and> queuedMctpInfos w' = queuedMctpInfos w \<and> socketInfoMap (socks w') = socketInfoMap (socks w)"
proof -
  from ready_handler [OF assms(2,3)] obtain key e where h: "handlers w = [(key, e)]"
    and a: "e_handler e = a" and k: "key_eid key = eid"
    and i: "unat (key_instanceId key) < maxInstanceIds" and ids: "\<forall>x. held (ids w) x = entry_ids {key} x" .
  from handleResponse_single [OF h i, of P msg len] obtain m where
    m: "held m = (held (ids w))(key_eid key := held (ids w) (key_eid key) - {key_instanceId key})" and
    run: "handleResponse P (erot_invoke P) key msg len w =
      bindR (erot_invoke P a eid (Some (msg, len)) (answered_state w m))
        (\<lambda>w2. bindR (runRegisteredRequest P eid w2) (\<lambda>(rc, w3). Inr w3))" by (auto simp: a k)
  let ?w2 = "answered_state w m"
  have free: "held (ids ?w2) x = {}" for x
    by (auto simp: answered_state_def m ids entry_ids_def)
  have h2: "handlers ?w2 = []" "setErotTimeHandle ?w2 = Suspended EndpointsTask a t eid (eid2 # eids)"
    "log ?w2 = log w" "socks ?w2 = socks w" using assms(3) by (simp_all add: answered_state_def)
  from first_erot_alone [OF assms(1) h2(1) free, of t eid2 eids] obtain j rq w3 where
    loop: "erots_loop P t (eid2 # eids) ?w2 = Inr (Some (next_awaitable ?w2, eid2, eids), w3)"
    and l: "log w3 = log w @ sent_request P rq" "rq_eid rq = eid2"
      "requestMsg rq = addExtTimestamp_request j t"
    and d3: "distinct (map fst (handlers w3))" and k3: "keys w3 = {RequestKey eid2 j 1 0x13}" "RequestKey eid2 j 1 0x13 \<in> running w3 eid2"
    and s3: "socketInfoMap (socks w3) = socketInfoMap (socks w)" by (auto simp: h2)
  let ?w4 = "suspend EndpointsTask t (next_awaitable ?w2, eid2, eids) w3"
  have inv: "erot_invoke P a eid (Some (msg, len)) ?w2 = Inr ?w4"
    using assms(4) loop
    by (simp add: erot_invoke_def h2(2) setTimeOnErots_resume_eq report_def after_loop_def)
  have hs: "handlers ?w4 = handlers w3" by (simp add: suspend_def)
  have "runRegisteredRequest P eid ?w4 = Inr (0, ?w4)"
  proof -
    from run_reliable [OF assms(1)] obtain w5 where r5: "runRegisteredRequest P eid ?w4 = Inr (0, w5)" by blast
    note k4 = keys_cong [OF hs] running_cong [OF hs]
    have "distinct (map fst (handlers ?w4))" using d3 hs by simp
    from this r5 show ?thesis
    proof (cases rule: runRegisteredRequest_cases)
      case (run key' e')
      then have "key' \<in> keys ?w4" by (simp add: keys_map_of)
      then have "key' = RequestKey eid2 j 1 0x13" unfolding k4 k3(1) by simp
      with run(2) have "eid = eid2" by simp
      with run(1) k3(2) show ?thesis unfolding k4 by blast
    qed (use r5 in simp_all)
  qed
  with run inv have resp: "handleResponse P (erot_invoke P) key msg len w = Inr ?w4" by simp
  note F = erots_loop_frame [OF loop]
  from assms(2) have inv0: "sys_inv w" and prog: "progress_inv w" and c: "removeRequestContainer w = []"
    by (simp_all add: ready_def)
  have "sys_inv ?w4" by (rule erot.handleResponse_keeps [OF resp inv0])
  moreover have "\<not> stray key w" using h by (simp add: stray_def keys_def)
  from handleResponse_progress [OF resp assms(1) inv0 prog this] have "progress_inv ?w4" .
  moreover have "removeRequestContainer ?w4 = []" using F c by (simp add: suspend_def answered_state_def)
  ultimately have "ready ?w4" by (simp add: ready_def)
  moreover have "answered P msg len 1 w = Inr ?w4" using h resp by simp
  ultimately show ?thesis using l s3 F by (intro exI [of _ j] exI [of _ rq] exI [of _ "next_awaitable ?w2"] exI [of _ ?w4])
      (simp add: suspend_def same_queue_def answered_state_def)
qed

section \<open>Property\<close>

lemma answers_in_order:
  assumes "reliable P" and "ready w" and "setErotTimeHandle w = Suspended EndpointsTask a t eid eids"
    and "queuedMctpInfos w = [infos]"
  shows "\<exists>(rqs :: retry_request list) w'. answered P (header_bytes h @ [0]) 1 (Suc (length eids)) w = Inr w'
    \<and> map rq_eid rqs = eids \<and> (\<forall>rq\<in>set rqs. \<exists>i. requestMsg rq = addExtTimestamp_request i t)
    \<and> log w' = log w @ concat (map (sent_request P) rqs)
        @ map (IO_close \<circ> snd) (socketInfoMap (socks w))
    \<and> setErotTimeHandle w' = Finished \<and> queuedMctpInfos w' = [] \<and> handlers w' = []
    \<and> socketInfoMap (socks w') = []"
  using assms(2-4)
proof (induction eids arbitrary: w a eid)
  case Nil
  from ready_handler [OF Nil.prems(1,2)] obtain key e where h: "handlers w = [(key, e)]"
    "e_handler e = a" "key_eid key = eid" "unat (key_instanceId key) < maxInstanceIds" by metis
  then have "{k \<in> keys w. key_eid k = eid} = {key}"
    and "map_option e_handler (map_of (handlers w) key) = Some a" by (auto simp: keys_def)
  from last_answer [OF Nil.prems(2,3) this(1) h(4) this(2), of P h] obtain w' where
    w': "handleResponse P (erot_invoke P) key (header_bytes h @ [0]) 1 w = Inr w'"
    "setErotTimeHandle w' = Finished" "queuedMctpInfos w' = []" "keys w' = keys w - {key}"
    "socketInfoMap (socks w') = []" "log w' = log w @ map (IO_close \<circ> snd) (socketInfoMap (socks w))"
    by blast
  from w'(4) h(1) have "handlers w' = []" by (simp add: keys_def)
  with h(1) w' show ?case by (intro exI [of _ "[]"] exI [of _ w']) simp
next
  case (Cons eid2 eids)
  from answer_sends_next [OF assms(1) Cons.prems(1,2) success_finish [of h]] obtain i rq a' w1 where
    w1: "answered P (header_bytes h @ [0]) 1 1 w = Inr w1" "ready w1"
      "setErotTimeHandle w1 = Suspended EndpointsTask a' t eid2 eids"
    and s: "log w1 = log w @ sent_request P rq" "rq_eid rq = eid2"
      "requestMsg rq = addExtTimestamp_request i t"
    and q: "queuedMctpInfos w1 = queuedMctpInfos w" "socketInfoMap (socks w1) = socketInfoMap (socks w)"
    by blast
  from Cons.IH [OF w1(2,3)] q Cons.prems(3) obtain rqs :: "retry_request list" and w' where
    ih: "answered P (header_bytes h @ [0]) 1 (Suc (length eids)) w1 = Inr w'" "map rq_eid rqs = eids"
      "\<forall>rq\<in>set rqs. \<exists>i. requestMsg rq = addExtTimestamp_request i t"
      "log w' = log w1 @ concat (map (sent_request P) rqs)
        @ map (IO_close \<circ> snd) (socketInfoMap (socks w1))"
    and fin: "setErotTimeHandle w' = Finished" "queuedMctpInfos w' = []" "handlers w' = []"
      "socketInfoMap (socks w') = []" by auto
  from w1(1) have "answered P (header_bytes h @ [0]) 1 (Suc (length (eid2 # eids))) w
      = answered P (header_bytes h @ [0]) 1 (Suc (length eids)) w1"
    by (auto simp: bindR_eq_Inr split: list.splits)
  with ih fin s q show ?case by (intro exI [of _ "rq # rqs"] exI [of _ w']) auto
qed

definition pair_object :: "string \<Rightarrow> interface_map" where
  "pair_object obj = (if obj = ''a''
     then endpoint_interfaces ''u'' 5 0 [0, 0x6D] 9 [0x7F] (media_prefix @ ''PCIe'') [(''NetworkId'', V_uint64 1)]
     else endpoint_interfaces ''v'' 5 0 [0, 0x6E] 10 [0x7F] (media_prefix @ ''PCIe'') [(''NetworkId'', V_uint64 1)])"

definition pair_infos :: "mctp_info list" where
  "pair_infos = [(9, ''u'', media_prefix @ ''PCIe'', 1), (10, ''v'', media_prefix @ ''PCIe'', 1)]"

definition pair_socks :: sock_state where
  "pair_socks = sock_init\<lparr>eidToSockMap := [9 \<mapsto> (5, 0, [0, 0x6D]), 10 \<mapsto> (5, 0, [0, 0x6E])]\<rparr>"

lemma pair_fetched:
  "fetch_objects (\<lambda>svc obj intf. map_of (pair_object obj) intf) [(''a'', [(''s'', [])]), (''b'', [(''s'', [])])]
     ([], sock_init) = (pair_infos, pair_socks)"
proof -
  have f: "fetch_endpoint (\<lambda>svc obj intf. map_of (pair_object obj) intf) obj ''s'' r
      = populateMctpInfo (pair_object obj) r" for obj r
    by (simp add: fetch_endpoint_def pair_object_def endpoint_interfaces_def interface_names)
  show ?thesis
    by (simp add: f) (simp add: pair_object_def populate_complete to_int_def pair_infos_def pair_socks_def
      registerMctpEndpoint_def sock_init_def)
qed

lemma pair_recorded: "\<exists>m. record_infos P pair_infos [] = Inr m"
  by (simp add: pair_infos_def pq_push_def sift_up.simps hash_emplace_def)

lemma pair_discovery:
  "\<exists>w. MctpDiscovery (erot_handlers (kind_platform DaemonRequest))
      (Some [(''a'', [(''s'', [])]), (''b'', [(''s'', [])])])
      (\<lambda>svc obj intf. map_of (pair_object obj) intf) world_init = Inr w
    \<and> setErotTimeHandle w = Suspended EndpointsTask 0 1000 9 [10] \<and> queuedMctpInfos w = [pair_infos]
    \<and> removeRequestContainer w = [] \<and> eidToSockMap (socks w) = eidToSockMap pair_socks"
proof -
  let ?P = "kind_platform DaemonRequest"
  obtain m where m: "record_infos ?P pair_infos [] = Inr m" using pair_recorded by blast
  let ?w = "world_init\<lparr>socks := pair_socks, mctpInfoMap := m, queuedMctpInfos := [pair_infos],
    setErotTimeHandle := NoCoro, log := [IO_get_elapsed]\<rparr>"
  have eids: "map fst pair_infos = [9, 10]" by (simp add: pair_infos_def)
  obtain so l where act: "activateSockets ?P [9, 10] (socks ?w) (log ?w) = Inr (0, so, l)"
    by (simp add: pair_socks_def sock_params_def initSocket_def Daemon_initSocket_def run_defs
        sun_path_size_def registerEndpoint_def)
  from activateSockets_params [OF act] have so: "eidToSockMap so = eidToSockMap pair_socks"
    by (simp add: pair_socks_def)
  let ?w1 = "?w\<lparr>socks := so, log := l\<rparr>"
  have "handlers ?w1 = []" "held (ids ?w1) 9 = {}"
    by (simp_all add: world_init_def held_def ids_at_def)
  from first_erot_alone [where t = 1000 and eids = "[10]", OF sample_reliable this] obtain w2 where
    loop: "erots_loop ?P 1000 [9, 10] ?w1 = Inr (Some (0, 9, [10]), w2)" by (auto simp: world_init_def)
  note F = erots_loop_frame [OF loop]
  have task: "task_loop ?P 1000 ?w = Inr (Some (0, 9, [10]), w2)"
    by (subst task_loop.simps) (simp add: setTimeOnErots_def eids act [simplified] loop [simplified])
  have "MctpDiscovery (erot_handlers ?P) (Some [(''a'', [(''s'', [])]), (''b'', [(''s'', [])])])
      (\<lambda>svc obj intf. map_of (pair_object obj) intf) world_init
    = Inr (suspend EndpointsTask 1000 (0, 9, [10]) w2)"
    using pair_fetched m task
    by (simp add: MctpDiscovery_def handleMctpEndpoints_eq handleMctpEndpointsTask_def world_init_def
        kind_platform_def Let_def)
  with F erots_loop_ep [OF loop] so show ?thesis
    by (auto simp: suspend_def same_queue_def world_init_def ep_le_def)
qed

text \<open>
  Every endpoint of a discovered list is served once, in order, with all that is sent. On a platform whose calls succeed,
  a discovery task that has sent the first endpoint of its only list its request, and is answered
  with success each time, sends each of the other endpoints exactly one request, in the order of the
  list and with the time it was started with, arms the two timers for each, and when the last one
  has answered closes the sockets and ends with an empty queue and an empty table, having sent and
  called nothing else.
\<close>

theorem list_served_in_order:
  assumes "reliable P" and "orderly_reachable P w" and "removeRequestContainer w = []"
    and "setErotTimeHandle w = Suspended EndpointsTask a t eid eids" and "queuedMctpInfos w = [infos]"
  shows "\<exists>(rqs :: retry_request list) w'. answered P (header_bytes h @ [0]) 1 (Suc (length eids)) w = Inr w'
    \<and> map rq_eid rqs = eids \<and> (\<forall>rq\<in>set rqs. \<exists>i. requestMsg rq = addExtTimestamp_request i t)
    \<and> log w' = log w
        @ concat (map (\<lambda>rq. [send_io P rq, IO_retry_timer_start, IO_expiry_timer_start]) rqs)
        @ map (IO_close \<circ> snd) (socketInfoMap (socks w))
    \<and> setErotTimeHandle w' = Finished \<and> queuedMctpInfos w' = [] \<and> handlers w' = []
    \<and> socketInfoMap (socks w') = []"
proof -
  have "ready w"
    using orderly_progress [OF assms(2,1)] reachable_sys_inv [OF orderly_erot_reachable [OF assms(2)]] assms(3)
    by (simp add: ready_def)
  from answers_in_order [OF assms(1) this assms(4,5)] show ?thesis .
qed

theorem list_served_in_order_witness:
  "\<exists>w (rqs :: retry_request list) w'. answered (kind_platform DaemonRequest)
      (header_bytes (addExtTimestamp_header 0) @ [0]) 1 2 w = Inr w'
    \<and> map rq_eid rqs = [10] \<and> setErotTimeHandle w' = Finished \<and> handlers w' = []"
proof -
  from pair_discovery obtain w where w: "MctpDiscovery (erot_handlers (kind_platform DaemonRequest))
      (Some [(''a'', [(''s'', [])]), (''b'', [(''s'', [])])])
      (\<lambda>svc obj intf. map_of (pair_object obj) intf) world_init = Inr w"
    "setErotTimeHandle w = Suspended EndpointsTask 0 1000 9 [10]" "queuedMctpInfos w = [pair_infos]"
    "removeRequestContainer w = []" by blast
  from list_served_in_order [OF sample_reliable orderly_reachable.start [OF w(1)] w(4,2,3),
      of "addExtTimestamp_header 0"]
  obtain rqs :: "retry_request list" and w' where
    "answered (kind_platform DaemonRequest) (header_bytes (addExtTimestamp_header 0) @ [0]) 1
      (Suc (length [10::u8])) w = Inr w'"
    "map rq_eid rqs = [10]" "setErotTimeHandle w' = Finished" "handlers w' = []"
    by (elim exE conjE) (rule that, assumption+)
  moreover have "Suc (length [10::u8]) = 2" by simp
  ultimately show ?thesis by metis
qed

end
