(* ===== verification/ErotQueue.thy ===== *)
theory ErotQueue
  imports ErotSequence
begin

text \<open>
  A discovery task and whatever its endpoints do: each answers, correctly or not, or stays silent until
  its request expires, after any number of retries. Every endpoint of every queued list is sent its
  request, in order, and the task ends.
\<close>

section \<open>What a history adds\<close>

text \<open>The requests started: sent, with the retry timer armed next. A retry is sent without that.\<close>

primrec started :: "io list \<Rightarrow> io list" where
  "started [] = []"
| "started (c # l) = (if l \<noteq> [] \<and> hd l = IO_retry_timer_start then [c] else []) @ started l"

definition creates_log :: "io \<Rightarrow> bool" where
  "creates_log c = (case c of IO_create_log arguments resolution \<Rightarrow> True | _ \<Rightarrow> False)"

text \<open>The error log of a completion code: its text follows a name and a comma.\<close>

definition logs_text :: "io \<Rightarrow> string \<times> string \<Rightarrow> bool" where
  "logs_text c e = (case c of
     IO_create_log arguments resolution \<Rightarrow>
       resolution = snd e \<and> (\<exists>name. arguments = name @ '','' @ fst e)
   | _ \<Rightarrow> False)"

definition logged :: "u8 \<Rightarrow> (string \<times> string) list" where
  "logged rc = (if rc = 0 then [] else case error_text rc of None \<Rightarrow> [] | Some e \<Rightarrow> [e])"

definition adds :: "platform \<Rightarrow> retry_request list \<Rightarrow> (string \<times> string) list \<Rightarrow> world \<Rightarrow> world \<Rightarrow> bool" where
  "adds P rqs errs w w' \<longleftrightarrow> (\<exists>l. log w' = log w @ l \<and> (l \<noteq> [] \<longrightarrow> hd l \<noteq> IO_retry_timer_start)
     \<and> started l = map (send_io P) rqs \<and> list_all2 logs_text (filter creates_log l) errs)"

lemma started_append:
  "l' \<noteq> [] \<longrightarrow> hd l' \<noteq> IO_retry_timer_start \<Longrightarrow> started (l @ l') = started l @ started l'"
  by (induction l) (auto simp: hd_append)

lemma started_none: "IO_retry_timer_start \<notin> set l \<Longrightarrow> started l = []"
  by (induction l) (auto dest: hd_in_set)

lemma adds_refl: "log w' = log w \<Longrightarrow> adds P [] [] w w'"
  by (simp add: adds_def)

lemma adds_trans:
  assumes "adds P rqs errs w w'" and "adds P rqs' errs' w' w''"
  shows "adds P (rqs @ rqs') (errs @ errs') w w''"
proof -
  from assms obtain l l' where l: "log w' = log w @ l" "l \<noteq> [] \<longrightarrow> hd l \<noteq> IO_retry_timer_start"
      "started l = map (send_io P) rqs" "list_all2 logs_text (filter creates_log l) errs"
    and l': "log w'' = log w' @ l'" "l' \<noteq> [] \<longrightarrow> hd l' \<noteq> IO_retry_timer_start"
      "started l' = map (send_io P) rqs'" "list_all2 logs_text (filter creates_log l') errs'"
    unfolding adds_def by blast
  have "(l @ l') \<noteq> [] \<longrightarrow> hd (l @ l') \<noteq> IO_retry_timer_start" using l(2) l'(2) by (cases l) auto
  with l l' show ?thesis unfolding adds_def
    by (intro exI [of _ "l @ l'"]) (simp add: started_append list_all2_appendI)
qed

lemma adds_quiet:
  assumes "log w' = log w @ l" and "\<forall>c\<in>set l. c \<noteq> IO_retry_timer_start \<and> \<not> creates_log c"
  shows "adds P [] [] w w'"
proof -
  have "started l = []" "filter creates_log l = []" "l \<noteq> [] \<longrightarrow> hd l \<noteq> IO_retry_timer_start"
    using assms(2) by (auto intro: started_none)
  with assms(1) show ?thesis by (auto simp: adds_def)
qed

lemma send_io_kind: "send_io P rq \<noteq> IO_retry_timer_start" "\<not> creates_log (send_io P rq)"
  by (simp_all add: send_io_def creates_log_def split: transport.splits)

lemma adds_sent: "log w' = log w @ sent_request P rq \<Longrightarrow> adds P [rq] [] w w'"
  by (simp add: adds_def send_io_kind) (simp add: creates_log_def)

lemma adds_report: "adds P [] (logged rc) w (report P eid rc w)"
proof (cases "rc = 0")
  case True
  then show ?thesis by (simp add: report_def logged_def adds_refl)
next
  case rc: False
  show ?thesis
  proof (cases "error_text rc")
    case None
    then have "log (report P eid rc w) = log w @ [IO_get_managed_objects]"
      using rc by (simp add: report_def createErrorLog_def Let_def)
    then show ?thesis using None rc
      by (auto simp: logged_def creates_log_def intro: adds_quiet)
  next
    case (Some e)
    then obtain name where "log (report P eid rc w)
        = log w @ [IO_get_managed_objects, IO_create_log (name @ '','' @ fst e) (snd e)]"
      using rc by (cases e) (auto simp: report_def createErrorLog_def Let_def)
    then show ?thesis unfolding adds_def using Some rc
      by (intro exI [of _ "[IO_get_managed_objects, IO_create_log (name @ '','' @ fst e) (snd e)]"])
        (simp add: logged_def creates_log_def logs_text_def)
  qed
qed

lemma adds_close: "adds P [] [] w (close_sockets w)"
proof (rule adds_quiet)
  show "log (close_sockets w) = log w @ map (IO_close \<circ> snd) (socketInfoMap (socks w))"
    by (simp add: close_sockets_def deactivateSockets_def)
qed (auto simp: creates_log_def)

section \<open>Sending the next request\<close>

text \<open>A request started for an endpoint that has none joins the table and runs.\<close>

definition request_started :: "platform \<Rightarrow> u64 \<Rightarrow> u8 \<Rightarrow> retry_request \<Rightarrow> world \<Rightarrow> world \<Rightarrow> bool" where
  "request_started P t eid rq w w' \<longleftrightarrow> adds P [rq] [] w w' \<and> rq_eid rq = eid
     \<and> (\<exists>i. requestMsg rq = addExtTimestamp_request i t)
     \<and> (\<exists>k. keys w' = insert k (keys w) \<and> key_eid k = eid \<and> k \<in> running w' eid)
     \<and> removeRequestContainer w' = removeRequestContainer w"

lemma start_next:
  assumes "reliable P" and "distinct (map fst (handlers w))" and "eid \<notin> key_eid ` keys w"
    and "held (ids w) eid = {}"
  shows "\<exists>rq w'. erots_loop P t (eid # eids) w = Inr (Some (next_awaitable w, eid, eids), w')
    \<and> request_started P t eid rq w w'"
proof -
  from next_request [OF assms, of t eids] obtain i rq w' where
    loop: "erots_loop P t (eid # eids) w = Inr (Some (next_awaitable w, eid, eids), w')" and
    rq: "log w' = log w @ sent_request P rq" "rq_eid rq = eid" "requestMsg rq = addExtTimestamp_request i t"
      "keys w' = insert (RequestKey eid i 1 0x13) (keys w)" "RequestKey eid i 1 0x13 \<in> running w' eid" by blast
  with erots_loop_frame [OF loop] have "request_started P t eid rq w w'"
    by (auto simp: request_started_def intro: adds_sent)
  with loop show ?thesis by blast
qed

section \<open>Opening the sockets\<close>

definition addresses_fit :: "sock_state \<Rightarrow> bool" where
  "addresses_fit s \<longleftrightarrow> (\<forall>eid type protocol path.
     eidToSockMap s eid = Some (type, protocol, path) \<longrightarrow> length path \<le> sun_path_size)"

lemma activate_fits:
  assumes "reliable P" and "addresses_fit s"
  shows "\<exists>s' l'. activateSockets P eids s l = Inr (0, s', l @ l') \<and> addresses_fit s'
    \<and> (\<forall>c\<in>set l'. c \<noteq> IO_retry_timer_start \<and> \<not> creates_log c)"
  using assms(2)
proof (induction eids arbitrary: s l)
  case (Cons eid eids)
  obtain ty pr path s1 where sp: "sock_params eid s = ((ty, pr, path), s1)" by (metis surj_pair)
  then have fit: "length path \<le> sun_path_size" "addresses_fit s1" using Cons.prems
    by (auto simp: sock_params_def addresses_fit_def split: option.splits if_splits)
  have up: "addresses_fit (registerEndpoint eid fd k) = addresses_fit k" for fd k
    by (simp add: addresses_fit_def registerEndpoint_def)
  show ?case
  proof (cases "map_of (socketInfoMap s1) path")
    case None
    have pos: "sys P h c \<ge> 0" for h c using assms(1) by (simp add: reliable_def)
    have "\<exists>fd s2 l2. initSocket P ty pr path s1 l = Inr (fd, s2, l @ l2) \<and> addresses_fit s2
      \<and> (\<forall>c\<in>set l2. c \<noteq> IO_retry_timer_start \<and> \<not> creates_log c)"
      using fit pos
      by (auto simp: initSocket_def Daemon_initSocket_def InKernel_initSocket_def syscall_def Let_def
          addresses_fit_def creates_log_def not_less [symmetric] split: transport.splits)
    then obtain fd s2 l2 where init: "initSocket P ty pr path s1 l = Inr (fd, s2, l @ l2)"
      "addresses_fit s2" "\<forall>c\<in>set l2. c \<noteq> IO_retry_timer_start \<and> \<not> creates_log c" by blast
    obtain s3 where s3: "s3 = (if fd < 0 then s2 else registerEndpoint eid fd s2)" "addresses_fit s3"
      using init(2) up by simp
    from Cons.IH [OF s3(2), of "l @ l2"] init s3(1) sp None show ?thesis
      by (auto simp: ball_Un intro: exI [of _ "l2 @ _"])
  next
    case (Some fd)
    from Cons.IH [of "registerEndpoint eid fd s1" l] fit(2) sp Some show ?thesis by (simp add: up)
  qed
qed simp

section \<open>The chain moves on\<close>

abbreviation queue_eids :: "mctp_info list list \<Rightarrow> u8 list" where
  "queue_eids q \<equiv> concat (map (map fst) q)"

text \<open>The endpoints the task has still to send a request.\<close>

definition endpoints_due :: "world \<Rightarrow> u8 list" where
  "endpoints_due w = (case setErotTimeHandle w of
     Suspended c a t eid eids \<Rightarrow> eids @ queue_eids (tl (queuedMctpInfos w)) | _ \<Rightarrow> [])"

text \<open>
  From \<open>w\<close>, with the endpoints \<open>todo\<close> still to serve, the task has gone on to \<open>w'\<close>: it is over, or
  waits for the first of them with the others due.
\<close>

fun moved_on :: "platform \<Rightarrow> u64 \<Rightarrow> u8 list \<Rightarrow> world \<Rightarrow> world \<Rightarrow> bool" where
  "moved_on P t [] w w' \<longleftrightarrow> setErotTimeHandle w' = Finished \<and> queuedMctpInfos w' = []
     \<and> handlers w' = handlers w \<and> socketInfoMap (socks w') = [] \<and> adds P [] [] w w'
     \<and> removeRequestContainer w' = removeRequestContainer w"
| "moved_on P t (eid # todo) w w' \<longleftrightarrow>
     (\<exists>a eids rq. setErotTimeHandle w' = Suspended EndpointsTask a t eid eids \<and> endpoints_due w' = todo
        \<and> queuedMctpInfos w' \<noteq> [] \<and> request_started P t eid rq w w')"

text \<open>An endpoint that can be sent a request: it has none in the table and no identifier in use.\<close>

definition free_for :: "u8 list \<Rightarrow> world \<Rightarrow> bool" where
  "free_for todo w \<longleftrightarrow> distinct (map fst (handlers w))
     \<and> (todo \<noteq> [] \<longrightarrow> hd todo \<notin> key_eid ` keys w \<and> held (ids w) (hd todo) = {})"

lemma free_for_cong:
  "handlers w' = handlers w \<Longrightarrow> ids w' = ids w \<Longrightarrow> free_for todo w' = free_for todo w"
  by (simp add: free_for_def keys_def)

lemma request_started_from:
  assumes "request_started P t eid rq w' w''" and "handlers w' = handlers w" and "adds P [] [] w w'"
    and "removeRequestContainer w' = removeRequestContainer w"
  shows "request_started P t eid rq w w''"
  using assms(1) assms(4) adds_trans [OF assms(3), of "[rq]" "[]" w''] keys_cong [OF assms(2)]
  by (auto simp: request_started_def)

lemma erots_start:
  assumes "reliable P" and "free_for eids w" and "eids \<noteq> []"
  shows "\<exists>rq w'. erots_loop P t eids w = Inr (Some (next_awaitable w, hd eids, tl eids), w')
    \<and> request_started P t (hd eids) rq w w' \<and> addresses_fit (socks w') = addresses_fit (socks w)
    \<and> same_queue w w'"
proof -
  from assms(3) obtain eid rest where eids: "eids = eid # rest" by (cases eids) auto
  from assms(2) have "distinct (map fst (handlers w))" "eid \<notin> key_eid ` keys w" "held (ids w) eid = {}"
    by (simp_all add: free_for_def eids)
  from start_next [OF assms(1) this, of t rest] obtain rq w' where
    loop: "erots_loop P t (eid # rest) w = Inr (Some (next_awaitable w, eid, rest), w')"
    and rq: "request_started P t eid rq w w'" by blast
  from erots_loop_ep [OF loop] have "addresses_fit (socks w') = addresses_fit (socks w)"
    by (simp add: addresses_fit_def ep_le_def)
  with loop rq erots_loop_frame [OF loop] show ?thesis unfolding eids by auto
qed

lemma setTimeOnErots_start:
  assumes "reliable P" and "free_for eids w" and "addresses_fit (socks w)" and "eids \<noteq> []"
  shows "\<exists>a rq w'. setTimeOnErots P t eids w = Inr (Some (a, hd eids, tl eids), w')
    \<and> request_started P t (hd eids) rq w w' \<and> addresses_fit (socks w') \<and> same_queue w w'"
proof -
  from activate_fits [OF assms(1,3), of eids "log w"] obtain s l where
    act: "activateSockets P eids (socks w) (log w) = Inr (0, s, log w @ l)" and s: "addresses_fit s"
    and l: "\<forall>c\<in>set l. c \<noteq> IO_retry_timer_start \<and> \<not> creates_log c" by blast
  let ?w1 = "w\<lparr>socks := s, log := log w @ l\<rparr>"
  have "free_for eids ?w1" using assms(2) free_for_cong [of ?w1 w] by simp
  from erots_start [OF assms(1) this assms(4), of t] obtain rq w' where
    loop: "erots_loop P t eids ?w1 = Inr (Some (next_awaitable ?w1, hd eids, tl eids), w')"
    and rq: "request_started P t (hd eids) rq ?w1 w'" and fit: "addresses_fit (socks w')"
    and q: "same_queue ?w1 w'" using s by auto
  have "adds P [] [] w ?w1" by (rule adds_quiet [OF _ l]) simp
  from request_started_from [OF rq _ this] have "request_started P t (hd eids) rq w w'" by simp
  moreover have "same_queue w w'" using q by (simp add: same_queue_def)
  ultimately show ?thesis using act loop fit assms(4) by (auto simp: setTimeOnErots_def)
qed

text \<open>The task's loop over the queue: lists without endpoints are passed over.\<close>

lemma task_starts:
  assumes "reliable P" and "addresses_fit (socks w)" and "free_for (queue_eids (queuedMctpInfos w)) w"
  shows "\<exists>s w'. task_loop P t w = Inr (s, w')
    \<and> (case queue_eids (queuedMctpInfos w) of
         [] \<Rightarrow> s = None \<and> w' = w\<lparr>queuedMctpInfos := []\<rparr>
       | eid # todo \<Rightarrow> \<exists>a eids rq. s = Some (a, eid, eids) \<and> queuedMctpInfos w' \<noteq> []
           \<and> eids @ queue_eids (tl (queuedMctpInfos w')) = todo
           \<and> request_started P t eid rq w w' \<and> addresses_fit (socks w'))"
  using assms(2,3)
proof (induction "queuedMctpInfos w" arbitrary: w)
  case Nil
  then show ?case by (subst task_loop.simps) simp
next
  case (Cons infos q)
  note q = Cons.hyps(2) [symmetric]
  show ?case
  proof (cases infos)
    case Nil
    let ?w1 = "w\<lparr>queuedMctpInfos := q\<rparr>"
    have "free_for (queue_eids q) ?w1"
      using Cons.prems(2) free_for_cong [of ?w1 w] by (simp add: q Nil)
    with Cons.hyps(1) [of ?w1] Cons.prems(1) obtain s w' where
      ih: "task_loop P t ?w1 = Inr (s, w')" "(case queue_eids q of
         [] \<Rightarrow> s = None \<and> w' = ?w1\<lparr>queuedMctpInfos := []\<rparr>
       | eid # todo \<Rightarrow> \<exists>a eids rq. s = Some (a, eid, eids) \<and> queuedMctpInfos w' \<noteq> []
           \<and> eids @ queue_eids (tl (queuedMctpInfos w')) = todo
           \<and> request_started P t eid rq ?w1 w' \<and> addresses_fit (socks w'))" by auto
    have "task_loop P t w = task_loop P t ?w1"
      by (subst task_loop.simps) (simp add: q Nil setTimeOnErots_def)
    moreover have "request_started P t eid rq w w'" if "request_started P t eid rq ?w1 w'" for eid rq
      by (rule request_started_from [OF that]) (simp_all add: adds_refl)
    moreover have "queue_eids (queuedMctpInfos w) = queue_eids q" by (simp add: q Nil)
    ultimately show ?thesis using ih by (simp split: list.splits del: concat_eq_Nil_conv) blast
  next
    case (Cons i js)
    have "free_for (map fst infos) w" using Cons.prems(2) by (simp add: q Cons free_for_def)
    from setTimeOnErots_start [OF assms(1) this Cons.prems(1), of t] obtain a rq w' where
      "setTimeOnErots P t (map fst infos) w = Inr (Some (a, fst i, map fst js), w')"
      "request_started P t (fst i) rq w w'" "addresses_fit (socks w')" "same_queue w w'"
      by (auto simp: Cons)
    then show ?thesis
      by (subst task_loop.simps) (auto simp: q Cons same_queue_def)
  qed
qed

lemma suspend_started:
  "request_started P t eid rq w (suspend c t' x w') = request_started P t eid rq w w'"
  using keys_cong [of "suspend c t' x w'" w'] running_cong [of "suspend c t' x w'" w']
  by (simp add: request_started_def adds_def suspend_def split: prod.splits)

lemma suspend_frame [simp]:
  "queuedMctpInfos (suspend c t x w) = queuedMctpInfos w" "socks (suspend c t x w) = socks w"
  by (simp_all add: suspend_def split: prod.splits)

lemma suspend_handle: "setErotTimeHandle (suspend c t (a, eid, eids) w) = Suspended c a t eid eids"
  by (simp add: suspend_def)

text \<open>A resumed chain goes on to the next endpoint of its list, of the queue, or ends.\<close>

lemma loop_moves:
  assumes "reliable P" and "addresses_fit (socks w)"
    and "free_for (eids @ queue_eids (tl (queuedMctpInfos w))) w" and "queuedMctpInfos w \<noteq> []"
  shows "\<exists>w'. bindR (erots_loop P t eids w) (after_loop P EndpointsTask t) = Inr w'
    \<and> moved_on P t (eids @ queue_eids (tl (queuedMctpInfos w))) w w' \<and> addresses_fit (socks w')"
proof (cases eids)
  case Nil
  let ?w1 = "close_sockets w"
  let ?w2 = "?w1\<lparr>queuedMctpInfos := tl (queuedMctpInfos w)\<rparr>"
  have q1: "queuedMctpInfos ?w1 = queuedMctpInfos w"
    using close_sockets_frame(5) [of w] by (simp add: same_queue_def)
  have s1: "addresses_fit (socks ?w2)" "socketInfoMap (socks ?w1) = []"
    using assms(2) by (simp_all add: close_sockets_def deactivateSockets_def clearMctpEndpoints_def addresses_fit_def)
  have h: "handlers ?w2 = handlers w" "ids ?w2 = ids w"
    "removeRequestContainer ?w2 = removeRequestContainer w" by (simp_all add: close_sockets_frame)
  have a: "adds P [] [] w ?w2" using adds_close [of P w] by (simp add: adds_def)
  have "free_for (queue_eids (queuedMctpInfos ?w2)) ?w2"
    using assms(3) free_for_cong [OF h(1,2)] by (simp add: Nil)
  from task_starts [OF assms(1) s1(1) this, of t] obtain s w' where
    task: "task_loop P t ?w2 = Inr (s, w')"
    and c: "(case queue_eids (tl (queuedMctpInfos w)) of
         [] \<Rightarrow> s = None \<and> w' = ?w2\<lparr>queuedMctpInfos := []\<rparr>
       | eid # todo \<Rightarrow> \<exists>a eids rq. s = Some (a, eid, eids) \<and> queuedMctpInfos w' \<noteq> []
           \<and> eids @ queue_eids (tl (queuedMctpInfos w')) = todo
           \<and> request_started P t eid rq ?w2 w' \<and> addresses_fit (socks w'))" by auto
  have run: "bindR (erots_loop P t eids w) (after_loop P EndpointsTask t)
      = (case s of Some x \<Rightarrow> Inr (suspend EndpointsTask t x w')
         | None \<Rightarrow> Inr (w'\<lparr>setErotTimeHandle := Finished\<rparr>))"
    using task q1 by (simp add: Nil after_loop_def)
  show ?thesis
  proof (cases "queue_eids (tl (queuedMctpInfos w))")
    case Nil2: Nil
    from c have s: "s = None" and w': "w' = ?w2\<lparr>queuedMctpInfos := []\<rparr>"
      unfolding Nil2 by simp_all
    have "moved_on P t [] w (w'\<lparr>setErotTimeHandle := Finished\<rparr>)"
      using h s1 a by (simp add: w' adds_def)
    moreover have "addresses_fit (socks (w'\<lparr>setErotTimeHandle := Finished\<rparr>))" using s1 by (simp add: w')
    ultimately show ?thesis using run s by (simp add: Nil Nil2 del: concat_eq_Nil_conv)
  next
    case (Cons eid todo)
    from c obtain b eids' rq where s: "s = Some (b, eid, eids')" and
      q: "queuedMctpInfos w' \<noteq> []" "eids' @ queue_eids (tl (queuedMctpInfos w')) = todo" and
      rq: "request_started P t eid rq ?w2 w'" and fit: "addresses_fit (socks w')" unfolding Cons by auto
    let ?w3 = "suspend EndpointsTask t (b, eid, eids') w'"
    from request_started_from [OF rq h(1) a h(3)] have "request_started P t eid rq w ?w3"
      by (simp add: suspend_started)
    with q have "moved_on P t (eid # todo) w ?w3" by (auto simp: suspend_handle endpoints_due_def)
    with run s fit show ?thesis by (simp add: Nil Cons del: moved_on.simps)
  qed
next
  case (Cons eid rest)
  have "free_for eids w" using assms(3) by (simp add: Cons free_for_def)
  from erots_start [OF assms(1) this, of t] obtain rq w1 where
    loop: "erots_loop P t eids w = Inr (Some (next_awaitable w, eid, rest), w1)"
    and rq: "request_started P t eid rq w w1" and fit: "addresses_fit (socks w1)"
    and q: "same_queue w w1" using assms(2) by (auto simp: Cons)
  let ?w3 = "suspend EndpointsTask t (next_awaitable w, eid, rest) w1"
  have "queuedMctpInfos ?w3 = queuedMctpInfos w" using q by (simp add: same_queue_def)
  with rq assms(4) have "moved_on P t (eid # rest @ queue_eids (tl (queuedMctpInfos w))) w ?w3"
    by (auto simp: suspend_handle endpoints_due_def suspend_started)
  with loop fit show ?thesis by (simp add: after_loop_def Cons del: moved_on.simps)
qed

lemma invoke_moves:
  assumes "reliable P" and "setErotTimeHandle w = Suspended EndpointsTask a t eid eids"
    and "setTimeOnErot_finish r = Inr rc" and "addresses_fit (socks w)" and "free_for (endpoints_due w) w"
    and "queuedMctpInfos w \<noteq> []"
  shows "\<exists>w'. erot_invoke P a e r w = Inr w' \<and> moved_on P t (endpoints_due w) (report P eid rc w) w'
    \<and> addresses_fit (socks w')"
proof -
  let ?w1 = "report P eid rc w"
  have q: "queuedMctpInfos ?w1 = queuedMctpInfos w"
    using report_frame(6) [of w P eid rc] by (simp add: same_queue_def)
  have p: "endpoints_due w = eids @ queue_eids (tl (queuedMctpInfos ?w1))" by (simp add: endpoints_due_def assms(2) q)
  have "free_for (endpoints_due w) ?w1" using assms(5) free_for_cong [of ?w1 w] by (simp add: report_frame)
  with assms(4,6) q have "\<exists>w'. bindR (erots_loop P t eids ?w1) (after_loop P EndpointsTask t) = Inr w'
    \<and> moved_on P t (endpoints_due w) ?w1 w' \<and> addresses_fit (socks w')"
    unfolding p by (intro loop_moves [OF assms(1)]) (simp_all add: report_frame)
  then show ?thesis
    using assms(2,3) by (simp add: erot_invoke_def setTimeOnErots_resume_eq del: moved_on.simps)
qed

section \<open>What an endpoint does\<close>

lemma ready_sys_inv: "ready w \<Longrightarrow> sys_inv w"
  by (simp add: ready_def)

text \<open>
  The request of the table after its end: the response, or the expiry with the removal it has
  deferred. Before it, its retry timer may have been dispatched any number of times (\<open>retry_fires\<close>).
\<close>

definition request_ends :: "platform \<Rightarrow> RequestKey \<Rightarrow> response \<Rightarrow> world \<Rightarrow> exn + world" where
  "request_ends P key r w = (case r of
     Some (msg, len) \<Rightarrow> handleResponse P (erot_invoke P) key msg len w
   | None \<Rightarrow> bindR (instanceIdExpiryCallBack (erot_invoke P) key w) (removeRequestEntry P key))"

text \<open>The one request of the table is retried and ends, again and again.\<close>

fun served :: "platform \<Rightarrow> (nat \<times> response) list \<Rightarrow> world \<Rightarrow> exn + world" where
  "served P [] w = Inr w"
| "served P ((n, r) # rs) w =
     (case handlers w of
        [(key, e)] \<Rightarrow> bindR (request_ends P key r ((retry_fires P key ^^ n) w)) (served P rs)
      | _ \<Rightarrow> Inl AssertFailed)"

lemma run_settled:
  assumes "reliable P" and "distinct (map fst (handlers w))"
    and "\<forall>k\<in>keys w. key_eid k = eid \<longrightarrow> k \<in> running w eid"
  shows "runRegisteredRequest P eid w = Inr (0, w)"
proof -
  from run_reliable [OF assms(1)] obtain w' where r: "runRegisteredRequest P eid w = Inr (0, w')" by blast
  from assms(2) r show ?thesis
  proof (cases rule: runRegisteredRequest_cases)
    case (run key e)
    then have "key \<in> running w eid" using assms(3) by (auto simp: keys_map_of)
    with run(1) show ?thesis by blast
  qed (use r in simp_all)
qed

text \<open>What is left of the table after the chain has moved on.\<close>

lemma moved_on_table:
  assumes "moved_on P t todo v w" and "k \<in> keys w" and "k \<notin> keys v"
  shows "k \<in> running w (key_eid k)"
proof (cases todo)
  case Nil
  with assms keys_cong [of w v] show ?thesis by simp
next
  case (Cons eid rest)
  with assms show ?thesis by (auto simp: request_started_def)
qed

lemma moved_on_keys:
  assumes "moved_on P t todo v w"
  shows "keys v \<subseteq> keys w" and "todo = [] \<Longrightarrow> keys w = keys v"
  using assms by (cases todo; auto simp: request_started_def keys_def)+

definition stepped :: "platform \<Rightarrow> u64 \<Rightarrow> u8 \<Rightarrow> u8 list \<Rightarrow> world \<Rightarrow> world \<Rightarrow> bool" where
  "stepped P t rc todo w w' \<longleftrightarrow> (case todo of
     [] \<Rightarrow> setErotTimeHandle w' = Finished \<and> queuedMctpInfos w' = [] \<and> handlers w' = []
       \<and> socketInfoMap (socks w') = [] \<and> adds P [] (logged rc) w w'
   | eid # rest \<Rightarrow> \<exists>a eids rq. setErotTimeHandle w' = Suspended EndpointsTask a t eid eids
       \<and> endpoints_due w' = rest \<and> queuedMctpInfos w' \<noteq> [] \<and> adds P [rq] (logged rc) w w'
       \<and> rq_eid rq = eid \<and> (\<exists>i. requestMsg rq = addExtTimestamp_request i t))"

lemma moved_on_stepped:
  assumes "moved_on P t todo v w1" and "adds P [] (logged rc) w v"
    and "log w' = log w1" and "setErotTimeHandle w' = setErotTimeHandle w1"
    and "queuedMctpInfos w' = queuedMctpInfos w1" and "socks w' = socks w1"
    and "todo = [] \<Longrightarrow> handlers w' = []"
  shows "stepped P t rc todo w w'"
proof (cases todo)
  case Nil
  have "adds P [] [] v w'" using assms(1,3) by (simp add: Nil adds_def)
  from adds_trans [OF assms(2) this] assms Nil show ?thesis by (simp add: stepped_def)
next
  case (Cons eid rest)
  with assms(1) obtain a eids rq where s: "setErotTimeHandle w1 = Suspended EndpointsTask a t eid eids"
    "endpoints_due w1 = rest" "queuedMctpInfos w1 \<noteq> []" and rq: "adds P [rq] [] v w1" "rq_eid rq = eid"
    "\<exists>i. requestMsg rq = addExtTimestamp_request i t" by (auto simp: request_started_def)
  have "adds P [rq] [] v w'" using rq(1) assms(3) by (simp add: adds_def)
  from adds_trans [OF assms(2) this] s rq assms(4,5) show ?thesis
    by (auto simp: stepped_def Cons endpoints_due_def)
qed

lemma retry_fires_ready:
  assumes "ready w"
  shows "ready (retry_fires P key w)" and "requester.more (retry_fires P key w) = requester.more w"
    and "socks (retry_fires P key w) = socks w" and "adds P [] [] w (retry_fires P key w)"
    and "map fst (handlers (retry_fires P key w)) = map fst (handlers w)"
proof -
  let ?w = "retry_fires P key w"
  have "ready ?w \<and> requester.more ?w = requester.more w \<and> socks ?w = socks w \<and> adds P [] [] w ?w
    \<and> map fst (handlers ?w) = map fst (handlers w)"
  proof (cases "map_of (handlers w) key")
    case None
    then show ?thesis using assms by (simp add: retry_fires_def adds_refl)
  next
    case (Some e)
    obtain rq l where c: "RetryTimer_callback P (e_request e) (log w) = (rq, l)" by (metis surj_pair)
    with Some have t: "retry_tick P key w = upd_entry key (\<lambda>e. e\<lparr>e_request := rq\<rparr>) (w\<lparr>log := l\<rparr>)"
      by (simp add: retry_tick_def)
    have "adds P [] [] w (retry_tick P key w)"
      by (rule adds_quiet [OF retry_tick_entry(2) [OF Some]])
        (auto simp: send_io_kind split: if_splits)
    moreover have "removeRequestContainer (retry_tick P key w) = removeRequestContainer w" by (simp add: t)
    then have "ready (retry_tick P key w)" using assms
      by (simp add: ready_def retry_tick_sys_inv retry_tick_progress)
    moreover have "map fst (handlers (retry_tick P key w)) = map fst (handlers w)"
      by (simp add: t upd_entry_def)
    moreover have "requester.more (retry_tick P key w) = requester.more w" "socks (retry_tick P key w) = socks w"
      by (simp_all add: t)
    ultimately show ?thesis using Some assms by (simp add: retry_fires_def adds_refl)
  qed
  then show "ready ?w" "requester.more ?w = requester.more w" "socks ?w = socks w" "adds P [] [] w ?w"
    "map fst (handlers ?w) = map fst (handlers w)" by simp_all
qed

lemma fires_ready:
  assumes "ready w"
  shows "ready ((retry_fires P key ^^ n) w) \<and> requester.more ((retry_fires P key ^^ n) w) = requester.more w
    \<and> socks ((retry_fires P key ^^ n) w) = socks w \<and> adds P [] [] w ((retry_fires P key ^^ n) w)
    \<and> map fst (handlers ((retry_fires P key ^^ n) w)) = map fst (handlers w)"
proof (induction n)
  case 0
  then show ?case using assms by (simp add: adds_refl)
next
  case (Suc n)
  let ?v = "(retry_fires P key ^^ n) w"
  from Suc have v: "ready ?v" "adds P [] [] w ?v" by simp_all
  note R = retry_fires_ready [OF v(1), of P key]
  from adds_trans [OF v(2) R(4)] have "adds P [] [] w (retry_fires P key ?v)" by simp
  with R Suc show ?case by simp
qed

text \<open>The one request of the table is answered, whatever the answer says.\<close>

lemma answer_step:
  assumes "reliable P" and "ready w" and "handlers w = [(key, e)]"
    and "setErotTimeHandle w = Suspended EndpointsTask a t eid eids" and "queuedMctpInfos w \<noteq> []"
    and "setTimeOnErot_finish (Some (msg, len)) = Inr rc" and "addresses_fit (socks w)"
  shows "\<exists>w'. handleResponse P (erot_invoke P) key msg len w = Inr w' \<and> ready w'
    \<and> stepped P t rc (endpoints_due w) w w' \<and> addresses_fit (socks w')"
proof -
  from ready_handler [OF assms(2,4)] assms(3) have h: "e_handler e = a" and k: "key_eid key = eid"
    and i: "unat (key_instanceId key) < maxInstanceIds" and ids: "\<forall>x. held (ids w) x = entry_ids {key} x"
    by (auto elim: ready_handler [OF assms(2,4)])
  from handleResponse_single [OF assms(3) i, of P msg len] obtain m where
    m: "held m = (held (ids w))(key_eid key := held (ids w) (key_eid key) - {key_instanceId key})" and
    run: "handleResponse P (erot_invoke P) key msg len w =
      bindR (erot_invoke P a eid (Some (msg, len)) (answered_state w m))
        (\<lambda>w2. bindR (runRegisteredRequest P eid w2) (\<lambda>(rc, w3). Inr w3))" by (auto simp: h k)
  let ?v = "answered_state w m"
  have v: "handlers ?v = []" "setErotTimeHandle ?v = Suspended EndpointsTask a t eid eids"
    "log ?v = log w" "socks ?v = socks w" "queuedMctpInfos ?v = queuedMctpInfos w"
    "removeRequestContainer ?v = removeRequestContainer w" "endpoints_due ?v = endpoints_due w"
    using assms(4) by (simp_all add: answered_state_def endpoints_due_def)
  have "held (ids ?v) x = {}" for x by (auto simp: answered_state_def m ids entry_ids_def)
  then have "free_for (endpoints_due ?v) ?v" using v by (simp add: free_for_def keys_def)
  from invoke_moves [OF assms(1) v(2) assms(6) _ this] assms(5,7) v(4,5) obtain w1 where
    inv: "erot_invoke P a eid (Some (msg, len)) ?v = Inr w1" and
    mv: "moved_on P t (endpoints_due w) (report P eid rc ?v) w1" and fit: "addresses_fit (socks w1)"
    by (auto simp: v(7))
  let ?r = "report P eid rc ?v"
  have kr: "keys ?r = {}" using v(1) by (simp add: keys_def report_frame)
  have "req_inv ?v" by (simp add: req_inv_def v(1) keys_def running_def)
  then have sys: "sys_inv ?v"
    by (rule requester_op_inv [OF ready_sys_inv [OF assms(2)]]) (simp_all add: handler_at_def answered_state_def)
  have d: "distinct (map fst (handlers w1))"
    using erot_invoke_inv [OF inv sys] by (intro req_inv_distinct sys_inv_req)
  have "runRegisteredRequest P eid w1 = Inr (0, w1)"
    by (rule run_settled [OF assms(1) d]) (use moved_on_table [OF mv] kr in auto)
  with run inv have resp: "handleResponse P (erot_invoke P) key msg len w = Inr w1" by simp
  have "\<not> stray key w" using assms(3) by (simp add: stray_def keys_def)
  with handleResponse_progress [OF resp assms(1)] erot.handleResponse_keeps [OF resp] assms(2)
  have "sys_inv w1" "progress_inv w1" by (simp_all add: ready_def)
  moreover have "removeRequestContainer w1 = []"
    using mv assms(2) v(6) by (cases "endpoints_due w") (auto simp: request_started_def ready_def report_frame)
  moreover have "adds P [] (logged rc) w ?r" using adds_report [of P rc ?v eid] by (simp add: adds_def v(3))
  have "stepped P t rc (endpoints_due w) w w1"
    by (rule moved_on_stepped [OF mv \<open>adds P [] (logged rc) w ?r\<close>]) (use mv v(1) in \<open>auto simp: report_frame\<close>)
  ultimately show ?thesis using resp fit by (auto simp: ready_def)
qed

lemma silent_finish: "setTimeOnErot_finish None = Inr (cc_val ErrGeneral)"
  by (simp add: setTimeOnErot_finish_def awaitable_rc_def)

text \<open>The one request of the table expires, and its entry is removed.\<close>

lemma silent_step:
  assumes "reliable P" and "ready w" and "handlers w = [(key, e)]"
    and "setErotTimeHandle w = Suspended EndpointsTask a t eid eids" and "queuedMctpInfos w \<noteq> []"
    and "addresses_fit (socks w)" and "endpoints_due w \<noteq> [] \<longrightarrow> hd (endpoints_due w) \<noteq> eid"
  shows "\<exists>w'. request_ends P key None w = Inr w' \<and> ready w'
    \<and> stepped P t (cc_val ErrGeneral) (endpoints_due w) w w' \<and> addresses_fit (socks w')"
proof -
  let ?rc = "cc_val ErrGeneral"
  from ready_handler [OF assms(2,4)] assms(3) have h: "e_handler e = a" and k: "key_eid key = eid"
    and i: "unat (key_instanceId key) < maxInstanceIds" and ids: "\<forall>x. held (ids w) x = entry_ids {key} x"
    by (auto elim: ready_handler [OF assms(2,4)])
  have sys: "sys_inv w" and prog: "progress_inv w" and none: "removeRequestContainer w = []"
    using assms(2) by (simp_all add: ready_def)
  let ?v = "upd_entry key stop_entry w"
  have v: "keys ?v = {key}" "setErotTimeHandle ?v = Suspended EndpointsTask a t eid eids"
    "log ?v = log w" "socks ?v = socks w" "queuedMctpInfos ?v = queuedMctpInfos w"
    "removeRequestContainer ?v = []" "endpoints_due ?v = endpoints_due w" "ids ?v = ids w"
    using assms(3,4) none by (simp_all add: upd_entry_def endpoints_due_def keys_def)
  have sysv: "sys_inv ?v" by (rule erot.stop_keeps [OF sys])
  have "distinct (map fst (handlers ?v))" by (rule req_inv_distinct [OF sys_inv_req [OF sysv]])
  then have "free_for (endpoints_due ?v) ?v"
    using assms(7) ids unfolding free_for_def v(1,7,8) by (auto simp: k entry_ids_def)
  from invoke_moves [OF assms(1) v(2) silent_finish _ this, of eid] assms(5,6) v(4,5) obtain w1 where
    inv: "erot_invoke P a eid None ?v = Inr w1" and
    mv: "moved_on P t (endpoints_due w) (report P eid ?rc ?v) w1" and fit: "addresses_fit (socks w1)"
    by (auto simp: v(7))
  let ?r = "report P eid ?rc ?v"
  have kr: "keys ?r = {key}" using keys_cong [of ?r ?v] v(1) by (simp add: report_frame)
  have c1: "removeRequestContainer w1 = []"
    using mv v(6) by (cases "endpoints_due w") (auto simp: request_started_def report_frame)
  let ?w2 = "w1\<lparr>removeRequestContainer := [key]\<rparr>"
  have ex: "instanceIdExpiryCallBack (erot_invoke P) key w = Inr ?w2"
    using assms(3) inv c1 by (simp add: instanceIdExpiryCallBack_def h k)
  note sys2 = erot.instanceIdExpiryCallBack_keeps [OF ex sys]
  note prog2 = expiry_progress [OF ex assms(1) sys prog]
  from free_id_ok [OF i] obtain w3 where f: "free_id (key_eid key) (key_instanceId key) ?w2 = Inr w3" by blast
  from handlers_free_id [OF f] obtain m where m: "w3 = ?w2\<lparr>ids := m\<rparr>" by auto
  let ?w4 = "w3\<lparr>handlers := AList.delete key (handlers w3), removeRequestContainer := []\<rparr>"
  let ?d = "w1\<lparr>handlers := AList.delete key (handlers w1)\<rparr>"
  have hd4: "handlers ?w4 = handlers ?d" by (simp add: m)
  have d1: "distinct (map fst (handlers w1))"
    using erot_invoke_inv [OF inv sysv] by (intro req_inv_distinct sys_inv_req)
  have k4: "keys ?w4 = keys w1 - {key}" "running ?w4 x = running w1 x - {key}" for x
    using keys_cong [OF hd4] running_cong [OF hd4] by (simp_all add: keys_delete running_delete)
  have "\<forall>x\<in>keys ?w4. key_eid x = eid \<longrightarrow> x \<in> running ?w4 eid"
    unfolding k4 using moved_on_table [OF mv] kr by auto
  with d1 have "runRegisteredRequest P eid ?w4 = Inr (0, ?w4)"
    by (intro run_settled [OF assms(1)]) (simp_all add: m)
  moreover have "remove1 key (removeRequestContainer w3) = []" by (simp add: m)
  ultimately have rem: "removeRequestEntry P key ?w2 = Inr ?w4"
    using f by (simp add: removeRequestEntry_def k)
  have "sys_inv ?w4" by (rule erot.removeRequestEntry_keeps [OF rem sys2])
  moreover have "progress_inv ?w4" by (rule removal_progress [OF rem assms(1) sys2 prog2]) simp
  moreover have "adds P [] (logged ?rc) w ?r"
    using adds_report [of P ?rc ?v eid] by (simp add: adds_def v(3))
  have "stepped P t ?rc (endpoints_due w) w ?w4"
  proof (rule moved_on_stepped [OF mv \<open>adds P [] (logged ?rc) w ?r\<close>])
    assume "endpoints_due w = []"
    with moved_on_keys(2) [OF mv] kr k4(1) have "keys ?w4 = {}" by simp
    then show "handlers ?w4 = []" by (simp add: keys_def)
  qed (simp_all add: m)
  ultimately show ?thesis using ex rem fit by (auto simp: ready_def request_ends_def m)
qed

lemma request_step:
  assumes "reliable P" and "ready w" and "setErotTimeHandle w = Suspended EndpointsTask a t eid eids"
    and "queuedMctpInfos w \<noteq> []" and "setTimeOnErot_finish r = Inr rc" and "addresses_fit (socks w)"
    and "r = None \<and> endpoints_due w \<noteq> [] \<longrightarrow> hd (endpoints_due w) \<noteq> eid"
  shows "\<exists>w'. served P ((n, r) # rs) w = served P rs w' \<and> ready w'
    \<and> stepped P t rc (endpoints_due w) w w' \<and> addresses_fit (socks w')"
proof -
  from ready_handler [OF assms(2,3)] obtain key e where h: "handlers w = [(key, e)]" by metis
  let ?v = "(retry_fires P key ^^ n) w"
  note F = fires_ready [where P = P and key = key and n = n, OF assms(2)]
  note M = world_more [of ?v w]
  from F have v: "ready ?v" "setErotTimeHandle ?v = Suspended EndpointsTask a t eid eids"
    "queuedMctpInfos ?v \<noteq> []" "addresses_fit (socks ?v)" "endpoints_due ?v = endpoints_due w"
    using M assms(3,4,6) by (simp_all add: endpoints_due_def)
  from F have "map fst (handlers ?v) = [key]" by (simp add: h)
  then obtain e' where hv: "handlers ?v = [(key, e')]" by (cases "handlers ?v") auto
  have "\<exists>w'. request_ends P key r ?v = Inr w' \<and> ready w' \<and> stepped P t rc (endpoints_due ?v) ?v w'
      \<and> addresses_fit (socks w')"
  proof (cases r)
    case None
    with assms(5) have "rc = cc_val ErrGeneral" by (simp add: silent_finish)
    with silent_step [OF assms(1) v(1) hv v(2,3,4)] assms(7) None v(5) show ?thesis by simp
  next
    case (Some x)
    obtain msg len where x: "x = (msg, len)" by (metis surj_pair)
    with answer_step [OF assms(1) v(1) hv v(2,3) _ v(4), of msg len rc] assms(5) Some show ?thesis
      by (simp add: request_ends_def)
  qed
  then obtain w' where w': "request_ends P key r ?v = Inr w'" "ready w'" "addresses_fit (socks w')"
    and s: "stepped P t rc (endpoints_due w) ?v w'" by (auto simp: v(5))
  have "adds P rqs errs w w'" if "adds P rqs errs ?v w'" for rqs errs
    using adds_trans [of P "[]" "[]" w ?v rqs errs w'] F that by simp
  then have "stepped P t rc (endpoints_due w) w w'"
    using s by (fastforce simp: stepped_def split: list.splits)
  with w' h show ?thesis by (intro exI [of _ w']) simp
qed

lemma served_all:
  assumes "reliable P" and "list_all2 (\<lambda>(n, r) rc. setTimeOnErot_finish r = Inr rc) rs rcs"
    and "ready w" and "setErotTimeHandle w = Suspended EndpointsTask a t eid eids"
    and "queuedMctpInfos w \<noteq> []" and "addresses_fit (socks w)"
    and "length rs = Suc (length (endpoints_due w))"
    and "None \<in> snd ` set rs \<longrightarrow> distinct_adj (eid # endpoints_due w)"
  shows "\<exists>rqs w'. served P rs w = Inr w' \<and> ready w' \<and> map rq_eid rqs = endpoints_due w
    \<and> (\<forall>rq\<in>set rqs. \<exists>i. requestMsg rq = addExtTimestamp_request i t)
    \<and> adds P rqs (concat (map logged rcs)) w w' \<and> setErotTimeHandle w' = Finished
    \<and> queuedMctpInfos w' = [] \<and> handlers w' = [] \<and> socketInfoMap (socks w') = []"
  using assms(2-)
proof (induction rs rcs arbitrary: w a eid eids rule: list_all2_induct)
  case (Cons x rs rc rcs)
  obtain n r where x: "x = (n, r)" by (metis surj_pair)
  from Cons.hyps(1) have fin: "setTimeOnErot_finish r = Inr rc" by (simp add: x)
  have "r = None \<and> endpoints_due w \<noteq> [] \<longrightarrow> hd (endpoints_due w) \<noteq> eid"
    using Cons.prems(6) by (cases "endpoints_due w") (auto simp: x)
  from request_step [OF assms(1) Cons.prems(1,2,3) fin Cons.prems(4) this, of n rs] obtain w1 where
    w1: "served P (x # rs) w = served P rs w1" "ready w1" "addresses_fit (socks w1)"
    and s: "stepped P t rc (endpoints_due w) w w1" by (auto simp: x)
  show ?case
  proof (cases "endpoints_due w")
    case Nil
    with Cons.prems(5) Cons.hyps(2) have "rs = []" "rcs = []" by auto
    with w1 s Nil show ?thesis by (intro exI [of _ "[]"] exI [of _ w1]) (simp add: stepped_def)
  next
    case (Cons eid2 due)
    with s obtain a2 eids2 rq where h: "setErotTimeHandle w1 = Suspended EndpointsTask a2 t eid2 eids2"
      and d: "endpoints_due w1 = due" and q: "queuedMctpInfos w1 \<noteq> []"
      and rq: "adds P [rq] (logged rc) w w1" "rq_eid rq = eid2"
        "\<exists>i. requestMsg rq = addExtTimestamp_request i t" by (auto simp: stepped_def)
    have "length rs = Suc (length (endpoints_due w1))"
      "None \<in> snd ` set rs \<longrightarrow> distinct_adj (eid2 # endpoints_due w1)"
      using Cons.prems(5,6) by (simp_all add: Cons d)
    from Cons.IH [OF w1(2) h q w1(3) this] obtain rqs w' where
      ih: "served P rs w1 = Inr w'" "ready w'" "map rq_eid rqs = due"
        "\<forall>rq\<in>set rqs. \<exists>i. requestMsg rq = addExtTimestamp_request i t"
        "adds P rqs (concat (map logged rcs)) w1 w'"
      and fin: "setErotTimeHandle w' = Finished" "queuedMctpInfos w' = []" "handlers w' = []"
        "socketInfoMap (socks w') = []" by (auto simp: d)
    from adds_trans [OF rq(1) ih(5)] ih fin rq(2,3) w1(1) Cons show ?thesis
      by (intro exI [of _ "rq # rqs"] exI [of _ w']) simp
  qed
qed simp

section \<open>Property\<close>

text \<open>
  C5: whatever its endpoints do, a discovery task serves every queued endpoint once, in order, and
  ends. Take a platform whose calls succeed and a task that waits for an endpoint, with others to
  come in its list and in the lists queued behind it. Let each endpoint, when its turn has come, fire its
  retry timer any number of times and then either answer, correctly or not, or stay silent until the
  request expires and its entry is removed (then no endpoint may directly follow itself). Then each
  endpoint still due is started exactly one request, in the order of the lists and with the time the
  task was started with; every code that calls for an error log is logged once, in order, with its
  text; and the task ends with an empty queue, an empty table, every identifier free and every socket
  of the daemon closed.
\<close>

theorem every_queued_endpoint_is_served:
  assumes "reliable P" and "orderly_reachable P w" and "removeRequestContainer w = []"
    and "setErotTimeHandle w = Suspended EndpointsTask a t eid eids" and "addresses_fit (socks w)"
    and "list_all2 (\<lambda>(n, r) rc. setTimeOnErot_finish r = Inr rc) rs rcs"
    and "length rs = Suc (length (endpoints_due w))"
    and "None \<in> snd ` set rs \<longrightarrow> distinct_adj (eid # endpoints_due w)"
  shows "\<exists>rqs l w'. served P rs w = Inr w' \<and> log w' = log w @ l \<and> started l = map (send_io P) rqs
    \<and> map rq_eid rqs = endpoints_due w \<and> (\<forall>rq\<in>set rqs. \<exists>i. requestMsg rq = addExtTimestamp_request i t)
    \<and> list_all2 logs_text (filter creates_log l) (concat (map logged rcs))
    \<and> setErotTimeHandle w' = Finished \<and> queuedMctpInfos w' = [] \<and> handlers w' = []
    \<and> removeRequestContainer w' = [] \<and> (\<forall>x. held (ids w') x = {}) \<and> socketInfoMap (socks w') = []"
proof -
  note sys = reachable_sys_inv [OF orderly_erot_reachable [OF assms(2)]]
  with orderly_progress [OF assms(2,1)] assms(3) have r: "ready w" by (simp add: ready_def)
  from sys assms(4) have "queuedMctpInfos w \<noteq> []" by (auto simp: sys_inv_def chain_ok_def)
  from served_all [OF assms(1,6) r assms(4) this assms(5,7,8)] obtain rqs w' where
    run: "served P rs w = Inr w'" "ready w'" "map rq_eid rqs = endpoints_due w"
      "\<forall>rq\<in>set rqs. \<exists>i. requestMsg rq = addExtTimestamp_request i t" and
    l: "adds P rqs (concat (map logged rcs)) w w'" and
    fin: "setErotTimeHandle w' = Finished" "queuedMctpInfos w' = []" "handlers w' = []"
      "socketInfoMap (socks w') = []" by blast
  from run(2) fin(3) have "removeRequestContainer w' = []" "held (ids w') x = {}" for x
    by (simp_all add: ready_def progress_inv_def table_ok_def keys_def entry_ids_def)
  with run fin l show ?thesis unfolding adds_def by blast
qed

theorem every_queued_endpoint_is_served_witness:
  "\<exists>w w' l. served (kind_platform DaemonRequest)
      [(2, None), (0, Some (header_bytes (addExtTimestamp_header 0) @ [0], 1))] w = Inr w'
    \<and> log w' = log w @ l \<and> length (started l) = 1 \<and> length (filter creates_log l) = 1
    \<and> setErotTimeHandle w' = Finished"
proof -
  let ?P = "kind_platform DaemonRequest"
  let ?rs = "[(2, None), (0, Some (header_bytes (addExtTimestamp_header 0) @ [0], 1))]"
  from pair_discovery obtain w where w: "MctpDiscovery (erot_handlers ?P)
      (Some [(''a'', [(''s'', [])]), (''b'', [(''s'', [])])])
      (\<lambda>svc obj intf. map_of (pair_object obj) intf) world_init = Inr w"
    "setErotTimeHandle w = Suspended EndpointsTask 0 1000 9 [10]" "queuedMctpInfos w = [pair_infos]"
    "removeRequestContainer w = []" "eidToSockMap (socks w) = eidToSockMap pair_socks" by blast
  have fit: "addresses_fit (socks w)" by (simp add: addresses_fit_def w(5) pair_socks_def sun_path_size_def)
  have due: "endpoints_due w = [10]" by (simp add: endpoints_due_def w(2,3))
  have codes: "list_all2 (\<lambda>(n, r) rc. setTimeOnErot_finish r = Inr rc) ?rs [cc_val ErrGeneral, 0]"
    by (simp only: list_all2_Cons list_all2_Nil silent_finish success_finish prod.case)
  have len: "length ?rs = Suc (length (endpoints_due w))" by (simp add: due)
  have adj: "None \<in> snd ` set ?rs \<longrightarrow> distinct_adj (9 # endpoints_due w)" by (simp add: due)
  from every_queued_endpoint_is_served [OF sample_reliable orderly_reachable.start [OF w(1)] w(4,2) fit codes len adj]
  obtain rqs l w' where run: "served ?P ?rs w = Inr w'" "log w' = log w @ l" "setErotTimeHandle w' = Finished"
    and s: "started l = map (send_io ?P) rqs" "map rq_eid rqs = endpoints_due w"
    and logs: "list_all2 logs_text (filter creates_log l) (concat (map logged [cc_val ErrGeneral, 0]))"
    by (elim exE conjE) (rule that, assumption+)
  have "length (started l) = length (endpoints_due w)" unfolding s(1) s(2) [symmetric] by simp
  then have "length (started l) = 1" by (simp add: due)
  moreover have "length (filter creates_log l) = 1"
    using list_all2_lengthD [OF logs] by (simp add: logged_def error_text_def)
  moreover note run
  ultimately show ?thesis by blast
qed

end
