(* ===== verification/BusMessages.thy ===== *)
theory BusMessages
  imports TimeSystem
begin

text \<open>
  The D-Bus messages behind the calls of the time manager (\<open>utils.hpp\<close>, \<open>utils.cpp\<close>, \<open>manager.cpp\<close>,
  \<open>bmc_epoch.cpp\<close>): addressee, member and the arguments in the order they are appended; and the query
  the ERoT time manager sends it for the time.
\<close>

section \<open>Messages\<close>

datatype arg =
    A_string string
  | A_bool bool
  | A_int32 "32 word"
  | A_int64 u64
  | A_strings "string list"
  | A_data add_data
  | A_variant string

record message =
  msg_service :: string
  msg_path :: string
  msg_interface :: string
  msg_member :: string
  msg_args :: "arg list"

definition new_method_call :: "string \<Rightarrow> string \<Rightarrow> string \<Rightarrow> string \<Rightarrow> arg list \<Rightarrow> message" where
  "new_method_call service path intf member args =
     \<lparr>msg_service = service, msg_path = path, msg_interface = intf, msg_member = member, msg_args = args\<rparr>"

section \<open>Names\<close>

definition mapperBusname :: string where
  "mapperBusname = ''xyz.openbmc_project.ObjectMapper''"

definition mapperPath :: string where
  "mapperPath = ''/xyz/openbmc_project/object_mapper''"

definition mapperInterface :: string where
  "mapperInterface = ''xyz.openbmc_project.ObjectMapper''"

definition systemdTimeService :: string where
  "systemdTimeService = ''org.freedesktop.timedate1''"

definition systemdTimePath :: string where
  "systemdTimePath = ''/org/freedesktop/timedate1''"

definition systemdTimeInterface :: string where
  "systemdTimeInterface = ''org.freedesktop.timedate1''"

definition methodSetNtp :: string where
  "methodSetNtp = ''SetNTP''"

definition methodSetTime :: string where
  "methodSetTime = ''SetTime''"

definition propertiesIntf :: string where
  "propertiesIntf = ''org.freedesktop.DBus.Properties''"

definition loggingIntf :: string where
  "loggingIntf = ''xyz.openbmc_project.Logging.Create''"

text \<open>What the time manager owns on the bus.\<close>

definition objmgrpath :: string where
  "objmgrpath = ''/xyz/openbmc_project/time''"

definition objpathBmc :: string where
  "objpathBmc = ''/xyz/openbmc_project/time/bmc''"

definition busname :: string where
  "busname = ''xyz.openbmc_project.Time.Manager''"

section \<open>The message of each call\<close>

definition getService_message :: "string \<Rightarrow> string \<Rightarrow> message" where
  "getService_message path intf =
     new_method_call mapperBusname mapperPath mapperInterface ''GetObject''
       [A_string path, A_strings [intf]]"

definition getSubTree_message :: "string \<Rightarrow> string list \<Rightarrow> 32 word \<Rightarrow> message" where
  "getSubTree_message root interfaces depth =
     new_method_call mapperBusname mapperPath mapperInterface ''GetSubTree''
       [A_string root, A_int32 depth, A_strings interfaces]"

definition getProperty_message :: "string \<Rightarrow> string \<Rightarrow> string \<Rightarrow> string \<Rightarrow> message" where
  "getProperty_message service path intf propertyName =
     new_method_call service path propertiesIntf ''Get'' [A_string intf, A_string propertyName]"

definition setProperty_message :: "string \<Rightarrow> string \<Rightarrow> string \<Rightarrow> string \<Rightarrow> string \<Rightarrow> message" where
  "setProperty_message service path intf propertyName v =
     new_method_call service path propertiesIntf ''Set''
       [A_string intf, A_string propertyName, A_variant v]"

definition setNtp_message :: "bool \<Rightarrow> message" where
  "setNtp_message isNtp =
     new_method_call systemdTimeService systemdTimePath systemdTimeInterface methodSetNtp
       [A_bool isNtp, A_bool False]"

text \<open>The time, not relative to the present one and without asking a user.\<close>

definition setTime_message :: "int \<Rightarrow> message" where
  "setTime_message usec =
     new_method_call systemdTimeService systemdTimePath systemdTimeInterface methodSetTime
       [A_int64 (word_of_int usec), A_bool False, A_bool False]"

definition addEventLog_message :: "string \<Rightarrow> string \<Rightarrow> add_data \<Rightarrow> message" where
  "addEventLog_message messageId severity addData =
     new_method_call ''xyz.openbmc_project.Logging'' ''/xyz/openbmc_project/logging'' loggingIntf ''Create''
       [A_string messageId, A_string severity, A_data addData]"

fun message_of :: "call \<Rightarrow> message" where
  "message_of (GetObject path intf) = getService_message path intf"
| "message_of (GetSubTree root intf) = getSubTree_message root [intf] 0"
| "message_of (GetProperty service path intf property) = getProperty_message service path intf property"
| "message_of (SetProperty service path intf property v) =
     setProperty_message service path intf property v"
| "message_of (SetNTP b) = setNtp_message b"
| "message_of (SetTime usec) = setTime_message usec"
| "message_of (CreateLog messageId severity addData) = addEventLog_message messageId severity addData"

text \<open>The query of \<open>ErotTimeManager::handleMctpEndpointsTask\<close>.\<close>

definition elapsed_message :: message where
  "elapsed_message =
     new_method_call ''xyz.openbmc_project.Time.Manager'' ''/xyz/openbmc_project/time/bmc''
       ''org.freedesktop.DBus.Properties'' ''Get''
       [A_string ''xyz.openbmc_project.Time.EpochTime'', A_string ''Elapsed'']"

section \<open>Lemmas\<close>

lemmas message_defs = getService_message_def getSubTree_message_def getProperty_message_def
  setProperty_message_def setNtp_message_def setTime_message_def addEventLog_message_def
  new_method_call_def mapperBusname_def mapperPath_def mapperInterface_def propertiesIntf_def
  systemdTimeService_def systemdTimePath_def systemdTimeInterface_def loggingIntf_def
  methodSetNtp_def methodSetTime_def objmgrpath_def objpathBmc_def busname_def

text \<open>The ERoT time manager asks the very object and bus name the time manager owns.\<close>

lemma elapsed_query:
  "elapsed_message = message_of (GetProperty busname objpathBmc
     ''xyz.openbmc_project.Time.EpochTime'' ''Elapsed'')"
  by (simp add: message_defs elapsed_message_def)

text \<open>
  A write of \<open>Elapsed\<close>: the 64 bits written go to timedated, as an absolute time set without
  interaction, and, once it has accepted them, a log entry to the logging service.
\<close>

lemma set_elapsed_messages:
  assumes "set_elapsed B val e = (r, e')" and "int64 (sint val * 1000)"
  shows "\<exists>ts. map message_of (calls (epoch_manager e')) = map message_of (calls (epoch_manager e))
    @ \<lparr>msg_service = ''org.freedesktop.timedate1'', msg_path = ''/org/freedesktop/timedate1'',
        msg_interface = ''org.freedesktop.timedate1'', msg_member = ''SetTime'',
        msg_args = [A_int64 val, A_bool False, A_bool False]\<rparr>
    # (if accepts B (calls (epoch_manager e)) (SetTime (sint val)) then
        [\<lparr>msg_service = ''xyz.openbmc_project.Logging'', msg_path = ''/xyz/openbmc_project/logging'',
          msg_interface = ''xyz.openbmc_project.Logging.Create'', msg_member = ''Create'',
          msg_args = [A_string timeUpdated, A_string informational, A_data (time_log ts)]\<rparr>]
       else [])"
  using assms
  by (intro exI [of _ "timestamp (duration_cast_down 1000000000 (sint val * 1000))"])
    (auto simp: set_elapsed_def setTime_def addEventLog_def message_defs Let_def
      split: prod.splits if_splits)

end
