(* ===== verification/ErotMain.thy ===== *)
theory ErotMain
  imports ErotEndpoints
begin

text \<open>
  The edges of the ERoT program: the construction and destruction of the manager with its timer
  (\<open>erot_time_manager.cpp\<close>), the start of the program (\<open>oem/nvidia/main.cpp\<close>), the owner of a socket's
  descriptor and the dump of messages (\<open>oem/nvidia/utils.hpp\<close>, \<open>utils.cpp\<close>).
\<close>

section \<open>The manager's timer\<close>

record erot_timer =
  create_result :: int
  settime_result :: int

text \<open>
  The constructor: the descriptor of the timer, and which descriptors it has opened. It throws
  when the timer cannot be created or armed; the destructor of the object then does not run.
\<close>

definition ErotTimeManager_new :: "erot_timer \<Rightarrow> (exn + int) \<times> int list" where
  "ErotTimeManager_new T =
     (let timerFd = create_result T
      in if timerFd = -1 then (Inl RuntimeError, [])
         else if settime_result T \<noteq> 0 then (Inl RuntimeError, [timerFd])
         else (Inr timerFd, [timerFd]))"

definition ErotTimeManager_destroy :: "int \<Rightarrow> int list \<Rightarrow> int list" where
  "ErotTimeManager_destroy timerFd fds = remove1 timerFd fds"

section \<open>The program\<close>

text \<open>The start of the program: the manager, then discovery, which calls the manager's handler.\<close>

definition erot_start ::
    "platform \<Rightarrow> erot_timer \<Rightarrow> (string \<times> (string \<times> string list) list) list option
      \<Rightarrow> (string \<Rightarrow> string \<Rightarrow> string \<Rightarrow> property_map option) \<Rightarrow> exn + world" where
  "erot_start P T subtree getAll =
     bindR (fst (ErotTimeManager_new T)) (\<lambda>timerFd.
       MctpDiscovery (erot_handlers P) subtree getAll world_init)"

lemma erot_start_reachable: "erot_start P T subtree getAll = Inr w \<Longrightarrow> erot_reachable P w"
  by (auto simp: erot_start_def bindR_eq_Inr intro: erot_reachable.start)

lemma ErotTimeManager_new_result:
  "(\<exists>fd. fst (ErotTimeManager_new T) = Inr fd) \<longleftrightarrow> create_result T \<noteq> -1 \<and> settime_result T = 0"
  "fst (ErotTimeManager_new T) = Inr fd \<Longrightarrow>
     ErotTimeManager_destroy fd (snd (ErotTimeManager_new T)) = []"
  by (auto simp: ErotTimeManager_new_def ErotTimeManager_destroy_def Let_def split: if_splits)

section \<open>Descriptors of sockets\<close>

definition CustomFD_destroy :: "int \<Rightarrow> io list" where
  "CustomFD_destroy fd = (if 0 \<le> fd then [IO_close fd] else [])"

lemma deactivateSockets_destroys:
  assumes "\<forall>fd\<in>snd ` set (socketInfoMap s). 0 \<le> fd"
  shows "snd (deactivateSockets s l) = l @ concat (map (CustomFD_destroy \<circ> snd) (socketInfoMap s))"
proof -
  have "map (IO_close \<circ> snd) m = concat (map (CustomFD_destroy \<circ> snd) m)"
    if "\<forall>fd\<in>snd ` set m. 0 \<le> fd" for m :: "(bytes \<times> int) list"
    using that by (induction m) (auto simp: CustomFD_destroy_def)
  with assms show ?thesis by (simp add: deactivateSockets_def)
qed

section \<open>Dumping messages\<close>

definition hex_digit :: "nat \<Rightarrow> char" where
  "hex_digit n = (if n < 10 then char_of (48 + n) else char_of (87 + n))"

definition hex_bytes :: "bytes \<Rightarrow> string" where
  "hex_bytes buffer =
     concat (map (\<lambda>byte. [hex_digit (unat byte div 16), hex_digit (unat byte mod 16), CHR '' '']) buffer)"

text \<open>A log line: the message with its named fields; an empty buffer is not logged.\<close>

type_synonym log_line = "string \<times> (string \<times> string) list"

definition printBuffer :: "bool \<Rightarrow> bytes \<Rightarrow> log_line option" where
  "printBuffer isTx buffer =
     (if buffer = [] then None
      else if isTx then Some (''Tx: {TX}'', [(''TX'', hex_bytes buffer)])
      else Some (''Rx: {RX}'', [(''RX'', hex_bytes buffer)]))"

definition printBuffer_eid :: "bool \<Rightarrow> bytes \<Rightarrow> u8 \<Rightarrow> log_line option" where
  "printBuffer_eid isTx buffer eid =
     (if buffer = [] then None
      else if isTx then
        Some (''Tx to EID {EID}: {TX}'', [(''EID'', to_string (unat eid)), (''TX'', hex_bytes buffer)])
      else
        Some (''Rx from EID {EID}: {RX}'', [(''EID'', to_string (unat eid)), (''RX'', hex_bytes buffer)]))"

definition hex_val :: "char \<Rightarrow> nat" where
  "hex_val c = (let n = of_char c in if n < 58 then n - 48 else n - 87)"

fun read_hex :: "string \<Rightarrow> bytes option" where
  "read_hex [] = Some []"
| "read_hex (a # b # c # rest) =
     map_option (\<lambda>bs. word_of_nat (16 * hex_val a + hex_val b) # bs) (read_hex rest)"
| "read_hex _ = None"

lemma hex_val_digit: "n < 16 \<Longrightarrow> hex_val (hex_digit n) = n"
  by (auto simp: hex_val_def hex_digit_def Let_def)

text \<open>A dumped message can be read back.\<close>

lemma read_hex_bytes: "read_hex (hex_bytes buffer) = Some buffer"
proof (induction buffer)
  case (Cons byte buffer)
  have lt: "unat byte < 256" using unsigned_less [of byte, where ?'a = nat] by simp
  have "hex_val (hex_digit (unat byte div 16)) = unat byte div 16"
    "hex_val (hex_digit (unat byte mod 16)) = unat byte mod 16"
    using lt by (auto intro!: hex_val_digit simp: less_mult_imp_div_less)
  moreover have "16 * (unat byte div 16) + unat byte mod 16 = unat byte" by simp
  ultimately have "word_of_nat (16 * hex_val (hex_digit (unat byte div 16))
      + hex_val (hex_digit (unat byte mod 16))) = byte"
    by (simp only: word_unat_eq_iff) simp
  with Cons show ?case by (simp add: hex_bytes_def)
qed (simp add: hex_bytes_def)

end
