(* ===== verification/Processes.thy ===== *)
theory Processes
  imports TimeSystem ErotMain
begin

text \<open>
  The two \<open>main\<close> functions statement by statement (\<open>main.cpp\<close>, \<open>oem/nvidia/main.cpp\<close>): the objects they
  make, the library calls between them, and how they end. Both are lists of steps for the same
  runner, which knows what C++ does on a return, an \<open>exit\<close>, an exception and an abort.
\<close>

section \<open>Running a \<open>main\<close>\<close>

datatype object =
    Bus | EventLoop | ObjectManager | TimeManager | EpochObject
  | SockManager | IdManager | ReqHandler | SockHandler | ErotManager | DiscoveryObject

datatype step =
    Make object
  | EventDefault     \<comment> \<open>\<open>sd_event_default\<close>, whose result is not looked at\<close>
  | AttachEvent
  | RequestName
  | RunLoop
  | DetachEvent
  | ExitIfFailed int \<comment> \<open>\<open>exit\<close>, if the loop returned a code other than 0\<close>
  | Exit int
  | Return int

text \<open>What a call in a step does: it returns, throws, aborts (\<open>assert\<close>) or has no defined behaviour.\<close>

datatype verdict = Yields int | Throws | Aborts | GoesWrong

definition raised :: "exn \<Rightarrow> verdict" where
  "raised e =
     (if e = AssertFailed then Aborts else if e = UndefinedBehaviour then GoesWrong else Throws)"

fun verdict_of :: "exn + 'a \<Rightarrow> verdict" where
  "verdict_of (Inl e) = raised e"
| "verdict_of (Inr x) = Yields 0"

datatype act = Did step | Destroyed object

datatype ending = Returned int | ExitedWith int | Uncaught | Aborted | Undefined

text \<open>
  The objects made so far are on a stack. A return, or an exception when the block has a handler
  (\<open>caught\<close> is the handler's exit code), destroys them, the last one first; \<open>exit\<close>, an uncaught
  exception and an abort destroy none. \<open>rc\<close> is the code the event loop has returned.
\<close>

fun run_main ::
    "int option \<Rightarrow> (step \<Rightarrow> verdict) \<Rightarrow> step list \<Rightarrow> object list \<Rightarrow> int \<Rightarrow> act list \<times> ending" where
  "run_main caught env [] made rc = (map Destroyed made, Returned 0)"
| "run_main caught env (s # rest) made rc =
     (case s of
        Return c \<Rightarrow> (map Destroyed made, Returned c)
      | Exit c \<Rightarrow> ([], ExitedWith c)
      | ExitIfFailed c \<Rightarrow>
          if rc \<noteq> 0 then ([], ExitedWith c) else run_main caught env rest made rc
      | _ \<Rightarrow>
          (case env s of
             Yields n \<Rightarrow>
               (let (acts, e) = run_main caught env rest
                      (case s of Make obj \<Rightarrow> obj # made | _ \<Rightarrow> made) (if s = RunLoop then n else rc)
                in (Did s # acts, e))
           | Throws \<Rightarrow>
               (case caught of
                  Some c \<Rightarrow> (map Destroyed made, Returned c)
                | None \<Rightarrow> ([], Uncaught))
           | Aborts \<Rightarrow> ([], Aborted)
           | GoesWrong \<Rightarrow> ([], Undefined)))"

section \<open>The time manager\<close>

text \<open>
  The two constructors are the model's; the loop, which runs the manager's callbacks, is a
  parameter, and so are the library's other calls. A callback may abort: \<open>onPropertyChanged\<close> asserts
  the name of its property.
\<close>

definition manager_steps :: "step list" where
  "manager_steps = [Make Bus, EventDefault, Make EventLoop, AttachEvent, Make ObjectManager,
     Make TimeManager, Make EpochObject, RequestName, RunLoop, DetachEvent, Return 0]"

definition manager_env ::
    "bus \<Rightarrow> timer_calls \<Rightarrow> (epoch \<Rightarrow> verdict) \<Rightarrow> (step \<Rightarrow> verdict) \<Rightarrow> step \<Rightarrow> verdict" where
  "manager_env B T loop env s =
     (case s of
        Make TimeManager \<Rightarrow> verdict_of (Manager B)
      | Make EpochObject \<Rightarrow> verdict_of (bindR (Manager B) (\<lambda>m. fst (BmcEpoch T m)))
      | RunLoop \<Rightarrow>
          (case bindR (Manager B) (\<lambda>m. bindR (fst (BmcEpoch T m)) (\<lambda>u. Inr (snd (BmcEpoch T m)))) of
             Inl e \<Rightarrow> raised e
           | Inr epoch \<Rightarrow> loop epoch)
      | Make EventLoop \<Rightarrow> Yields 0
      | EventDefault \<Rightarrow> Yields 0
      | _ \<Rightarrow> env s)"

definition manager_process ::
    "bus \<Rightarrow> timer_calls \<Rightarrow> (epoch \<Rightarrow> verdict) \<Rightarrow> (step \<Rightarrow> verdict) \<Rightarrow> act list \<times> ending" where
  "manager_process B T loop env = run_main (Some (-1)) (manager_env B T loop env) manager_steps [] 0"

section \<open>The ERoT time manager\<close>

definition EXIT_FAILURE :: int where
  "EXIT_FAILURE = 1"

definition EXIT_SUCCESS :: int where
  "EXIT_SUCCESS = 0"

definition erot_steps :: "step list" where
  "erot_steps = [Make EventLoop, Make Bus, Make SockManager, Make IdManager, Make ReqHandler,
     Make SockHandler, Make ErotManager, Make DiscoveryObject, AttachEvent, RunLoop,
     ExitIfFailed EXIT_FAILURE, Exit EXIT_SUCCESS, Return 0]"

definition erot_env ::
    "platform \<Rightarrow> erot_timer \<Rightarrow> (string \<times> (string \<times> string list) list) list option
      \<Rightarrow> (string \<Rightarrow> string \<Rightarrow> string \<Rightarrow> property_map option) \<Rightarrow> (world \<Rightarrow> verdict)
      \<Rightarrow> (step \<Rightarrow> verdict) \<Rightarrow> step \<Rightarrow> verdict" where
  "erot_env P T subtree getAll loop env s =
     (case s of
        Make ErotManager \<Rightarrow> verdict_of (fst (ErotTimeManager_new T))
      | Make DiscoveryObject \<Rightarrow> verdict_of (erot_start P T subtree getAll)
      | RunLoop \<Rightarrow>
          (case erot_start P T subtree getAll of
             Inl e \<Rightarrow> raised e
           | Inr w \<Rightarrow> loop w)
      | _ \<Rightarrow> env s)"

text \<open>No handler surrounds the block.\<close>

definition erot_process ::
    "platform \<Rightarrow> erot_timer \<Rightarrow> (string \<times> (string \<times> string list) list) list option
      \<Rightarrow> (string \<Rightarrow> string \<Rightarrow> string \<Rightarrow> property_map option) \<Rightarrow> (world \<Rightarrow> verdict)
      \<Rightarrow> (step \<Rightarrow> verdict) \<Rightarrow> act list \<times> ending" where
  "erot_process P T subtree getAll loop env =
     run_main None (erot_env P T subtree getAll loop env) erot_steps [] 0"

section \<open>Lemmas\<close>

definition objects_made :: "act list \<Rightarrow> object list" where
  "objects_made acts = concat (map (\<lambda>a. case a of Did (Make obj) \<Rightarrow> [obj] | _ \<Rightarrow> []) acts)"

definition objects_destroyed :: "act list \<Rightarrow> object list" where
  "objects_destroyed acts = concat (map (\<lambda>a. case a of Destroyed obj \<Rightarrow> [obj] | _ \<Rightarrow> []) acts)"

lemma objects_nil [simp]: "objects_made [] = []" "objects_destroyed [] = []"
  by (simp_all add: objects_made_def objects_destroyed_def)

lemma objects_did [simp]:
  "objects_made (Did s # acts) = (case s of Make obj \<Rightarrow> [obj] | _ \<Rightarrow> []) @ objects_made acts"
  "objects_destroyed (Did s # acts) = objects_destroyed acts"
  by (simp_all add: objects_made_def objects_destroyed_def split: step.splits)

lemma objects_destruction [simp]:
  "objects_made (map Destroyed objs) = []" "objects_destroyed (map Destroyed objs) = objs"
  by (induction objs) (simp_all add: objects_made_def objects_destroyed_def)

text \<open>A return destroys every object made, in the opposite order; every other ending destroys none.\<close>

lemma run_main_destroys:
  "run_main caught env steps made rc = (acts, e) \<Longrightarrow>
     objects_destroyed acts = (case e of Returned c \<Rightarrow> rev (objects_made acts) @ made | _ \<Rightarrow> [])"
proof (induction caught env steps made rc arbitrary: acts e rule: run_main.induct)
  case (2 caught env s rest made rc)
  then show ?case
    by (cases s; cases "env s") (auto split: if_splits option.splits prod.splits ending.splits)
qed auto

text \<open>Whichever calls throw or abort, the ERoT time manager never returns, hence destroys nothing.\<close>

lemma erot_process_never_returns:
  assumes "erot_process P T subtree getAll loop env = (acts, e)"
  shows "e \<noteq> Returned c" and "objects_destroyed acts = []"
    and "e = ExitedWith c \<Longrightarrow> \<exists>w n. erot_start P T subtree getAll = Inr w \<and> loop w = Yields n
      \<and> c = (if n \<noteq> 0 then EXIT_FAILURE else EXIT_SUCCESS)"
proof -
  show r: "e \<noteq> Returned c" for c
    using assms by (auto simp: erot_process_def erot_steps_def split: verdict.splits if_splits prod.splits)
  with run_main_destroys assms show "objects_destroyed acts = []"
    by (fastforce simp: erot_process_def split: ending.splits)
  assume "e = ExitedWith c"
  with assms obtain n where "erot_env P T subtree getAll loop env RunLoop = Yields n"
    "c = (if n \<noteq> 0 then EXIT_FAILURE else EXIT_SUCCESS)"
    "erot_env P T subtree getAll loop env (Make DiscoveryObject) \<noteq> Throws"
    "erot_env P T subtree getAll loop env (Make DiscoveryObject) \<noteq> Aborts"
    "erot_env P T subtree getAll loop env (Make DiscoveryObject) \<noteq> GoesWrong"
    by (auto simp: erot_process_def erot_steps_def split: verdict.splits if_splits prod.splits)
  then show "\<exists>w n. erot_start P T subtree getAll = Inr w \<and> loop w = Yields n
      \<and> c = (if n \<noteq> 0 then EXIT_FAILURE else EXIT_SUCCESS)"
    by (auto simp: erot_env_def raised_def split: sum.splits if_splits)
qed

text \<open>The time manager returns 0 when nothing goes wrong, -1 when a step throws, or is aborted.\<close>

lemma manager_process_ends:
  assumes "manager_process B T loop env = (acts, e)"
  shows "e \<in> {Returned 0, Returned (-1), Aborted, Undefined}"
    and "e = Returned c \<Longrightarrow> objects_destroyed acts = rev (objects_made acts)"
    and "Did RunLoop \<in> set acts \<Longrightarrow> \<exists>epoch n. manager_main B T = Inr epoch \<and> loop epoch = Yields n"
proof -
  show "e \<in> {Returned 0, Returned (-1), Aborted, Undefined}" using assms
    by (auto simp: manager_process_def manager_steps_def split: verdict.splits prod.splits)
  show "e = Returned c \<Longrightarrow> objects_destroyed acts = rev (objects_made acts)"
    using assms run_main_destroys by (fastforce simp: manager_process_def)
  assume "Did RunLoop \<in> set acts"
  with assms obtain n where "manager_env B T loop env RunLoop = Yields n"
    by (auto simp: manager_process_def manager_steps_def split: verdict.splits prod.splits)
  then show "\<exists>epoch n. manager_main B T = Inr epoch \<and> loop epoch = Yields n"
    by (auto simp: manager_env_def manager_main_def bindR_def raised_def
        split: sum.splits prod.splits if_splits)
qed

text \<open>A property of another name, announced by the settings service, aborts the time manager.\<close>

lemma manager_process_aborts:
  assumes "manager_main B T = Inr epoch" and "\<And>s. env s = Yields 0"
    and "loop epoch = verdict_of (onPropertyChanged B key v b m)" and "key \<noteq> propertyTimeMode"
  shows "snd (manager_process B T loop env) = Aborted"
proof -
  from assms(1) have "verdict_of (Manager B) = Yields 0"
    "verdict_of (bindR (Manager B) (\<lambda>m. fst (BmcEpoch T m))) = Yields 0"
    "bindR (Manager B) (\<lambda>m. bindR (fst (BmcEpoch T m)) (\<lambda>u. Inr (snd (BmcEpoch T m)))) = Inr epoch"
    by (auto simp: manager_main_def bindR_def split: sum.splits prod.splits)
  with assms(2-4) show ?thesis
    by (simp add: manager_process_def manager_steps_def manager_env_def onPropertyChanged_def raised_def)
qed

end
