(* ===== verification/HmcTimeSync.thy ===== *)
theory HmcTimeSync
  imports BmcEpoch
begin

text \<open>
  The one-shot program that pushes the clock to the HMC (\<open>oem/nvidia/hmc_time_sync.cpp\<close>): a Redfish
  PATCH tried up to ten times. libcurl and the clock are parameters: what they answer in each attempt
  is the function \<open>E\<close>; what the program asks of them is the list of events it returns.
\<close>

section \<open>The program\<close>

definition maxAttempts :: nat where
  "maxAttempts = 10"

definition retryDelaySec :: nat where
  "retryDelaySec = 5"

definition connectTimeoutSec :: int where
  "connectTimeoutSec = 2"

definition transferTimeoutSec :: int where
  "transferTimeoutSec = 5"

text \<open>What the clock, in nanoseconds, and libcurl answer in one attempt; code 0 is \<open>CURLE_OK\<close>.\<close>

record attempt =
  now_ns :: int
  curl_available :: bool
  curl_code :: int
  http_code :: int

record curl_request =
  curl_url :: string
  curl_customrequest :: string
  curl_postfields :: string
  curl_header :: string
  curl_connecttimeout :: int
  curl_timeout :: int
  curl_verifypeer :: int
  curl_verifyhost :: int
  curl_nosignal :: int

datatype hmc_event =
    Curl_init
  | Curl_perform curl_request
  | Curl_cleanup
  | Sleep nat

definition hmcDateTimeUrl :: "string \<Rightarrow> string" where
  "hmcDateTimeUrl host = ''http://'' @ host @ ''/redfish/v1/Managers/HGX_BMC_0''"

definition currentUtcDateTime :: "int \<Rightarrow> string" where
  "currentUtcDateTime now = timestamp (duration_cast_down 1000000000 now)"

definition discardWrite :: "u64 \<Rightarrow> u64 \<Rightarrow> u64" where
  "discardWrite sz nmemb = sz * nmemb"

definition body_open :: string where
  "body_open = ''{'' @ [CHR 0x22] @ ''DateTime'' @ [CHR 0x22] @ '': '' @ [CHR 0x22]"

definition body_close :: string where
  "body_close = [CHR 0x22] @ ''}''"

definition patchHmcTime :: "string \<Rightarrow> attempt \<Rightarrow> bool \<times> hmc_event list" where
  "patchHmcTime host A =
     (let body = body_open @ currentUtcDateTime (now_ns A) @ body_close
      in if \<not> curl_available A then (False, [Curl_init])
         else
           (let ev = [Curl_init,
                  Curl_perform \<lparr>curl_url = hmcDateTimeUrl host, curl_customrequest = ''PATCH'',
                    curl_postfields = body, curl_header = ''Content-Type: application/json'',
                    curl_connecttimeout = connectTimeoutSec, curl_timeout = transferTimeoutSec,
                    curl_verifypeer = 0, curl_verifyhost = 0, curl_nosignal = 1\<rparr>,
                  Curl_cleanup]
            in if curl_code A \<noteq> 0 then (False, ev)
               else if http_code A < 200 \<or> 300 \<le> http_code A then (False, ev)
               else (True, ev)))"

function hmc_loop :: "string \<Rightarrow> (nat \<Rightarrow> attempt) \<Rightarrow> nat \<Rightarrow> int \<times> hmc_event list" where
  "hmc_loop host E a =
     (if maxAttempts < a then (1, [])
      else
        (case patchHmcTime host (E a) of
           (True, ev) \<Rightarrow> (0, ev)
         | (False, ev) \<Rightarrow>
             (let pause = (if a < maxAttempts then [Sleep retryDelaySec] else []);
                  (rc, ev') = hmc_loop host E (Suc a)
              in (rc, ev @ pause @ ev'))))"
  by pat_completeness auto
termination
  by (relation "measure (\<lambda>(host, E, a). Suc maxAttempts - a)") (auto simp: maxAttempts_def)

declare hmc_loop.simps [simp del]

definition hmc_main :: "string \<Rightarrow> (nat \<Rightarrow> attempt) \<Rightarrow> int \<times> hmc_event list" where
  "hmc_main host E = hmc_loop host E 1"

section \<open>Lemmas\<close>

definition answered_ok :: "attempt \<Rightarrow> bool" where
  "answered_ok A \<longleftrightarrow> curl_available A \<and> curl_code A = 0 \<and> 200 \<le> http_code A \<and> http_code A < 300"

abbreviation patch_events :: "string \<Rightarrow> attempt \<Rightarrow> hmc_event list" where
  "patch_events host A \<equiv> snd (patchHmcTime host A)"

lemma patchHmcTime_ok: "fst (patchHmcTime host A) = answered_ok A"
  by (auto simp: patchHmcTime_def answered_ok_def Let_def)

lemma patchHmcTime_cases:
  obtains ev where "patchHmcTime host A = (answered_ok A, ev)" "patch_events host A = ev"
  using patchHmcTime_ok [of host A] by (cases "patchHmcTime host A") simp

lemma no_sleep_in_patch [simp]: "Sleep n \<notin> set (patch_events host A)"
  by (simp add: patchHmcTime_def Let_def)

text \<open>The failed attempts before the first success, and what the attempts from \<open>a\<close> on do.\<close>

definition failures :: "(nat \<Rightarrow> attempt) \<Rightarrow> nat \<Rightarrow> nat list" where
  "failures E a = takeWhile (\<lambda>i. \<not> answered_ok (E i)) [a..<Suc maxAttempts]"

lemma failures_rec:
  "failures E a = (if maxAttempts < a \<or> answered_ok (E a) then [] else a # failures E (Suc a))"
proof (cases "maxAttempts < a")
  case True
  then show ?thesis by (simp add: failures_def)
next
  case False
  then have "[a..<Suc maxAttempts] = a # [Suc a..<Suc maxAttempts]" by (intro upt_conv_Cons) simp
  with False show ?thesis by (simp add: failures_def del: upt_Suc)
qed

definition attempt_events :: "string \<Rightarrow> (nat \<Rightarrow> attempt) \<Rightarrow> nat \<Rightarrow> hmc_event list" where
  "attempt_events host E i =
     patch_events host (E i) @ (if i < maxAttempts then [Sleep retryDelaySec] else [])"

lemma hmc_loop_spec:
  "a \<le> Suc maxAttempts \<Longrightarrow> hmc_loop host E a =
     (let fs = failures E a; ok = a + length fs
      in (if ok \<le> maxAttempts then 0 else 1,
          concat (map (attempt_events host E) fs)
            @ (if ok \<le> maxAttempts then patch_events host (E ok) else [])))"
proof (induction host E a rule: hmc_loop.induct)
  case (1 host E a)
  obtain ev where p: "patchHmcTime host (E a) = (answered_ok (E a), ev)" "patch_events host (E a) = ev"
    by (rule patchHmcTime_cases)
  show ?case
  proof (cases "maxAttempts < a \<or> answered_ok (E a)")
    case True
    then have "failures E a = []" by (simp add: failures_rec [of E a])
    with True p show ?thesis by (subst hmc_loop.simps) auto
  next
    case False
    then have f: "failures E a = a # failures E (Suc a)" by (simp add: failures_rec [of E a])
    from False p(1) have ih: "hmc_loop host E (Suc a) =
       (let fs = failures E (Suc a); ok = Suc a + length fs
        in (if ok \<le> maxAttempts then 0 else 1,
          concat (map (attempt_events host E) fs)
            @ (if ok \<le> maxAttempts then patch_events host (E ok) else [])))"
      by (intro 1(1) [of False ev]) simp_all
    from False p(1) have "hmc_loop host E a = (let pause = (if a < maxAttempts then [Sleep retryDelaySec] else []);
        (rc, ev') = hmc_loop host E (Suc a) in (rc, ev @ pause @ ev'))"
      by (subst hmc_loop.simps) simp
    moreover have "attempt_events host E a
        = ev @ (if a < maxAttempts then [Sleep retryDelaySec] else [])"
      by (simp add: attempt_events_def p(2))
    ultimately show ?thesis by (simp add: ih f Let_def)
  qed
qed

lemma takeWhile_shorter: "length (takeWhile P xs) < length xs \<longleftrightarrow> (\<exists>x\<in>set xs. \<not> P x)"
  by (induction xs) auto

lemma filter_takeWhile_le: "length (filter P (takeWhile Q xs)) \<le> length (filter P xs)"
  by (induction xs) auto

definition pauses :: "hmc_event list \<Rightarrow> nat" where
  "pauses ev = length (filter (\<lambda>e. \<exists>n. e = Sleep n) ev)"

lemma pauses_simps [simp]:
  "pauses [] = 0"
  "pauses (xs @ ys) = pauses xs + pauses ys"
  "pauses (Sleep n # xs) = Suc (pauses xs)"
  "pauses (patch_events host A) = 0"
  using no_sleep_in_patch [of _ host A] by (auto simp: pauses_def filter_empty_conv)

lemma pauses_attempts:
  "pauses (concat (map (attempt_events host E) is)) = length (filter (\<lambda>i. i < maxAttempts) is)"
  by (induction "is") (simp_all add: attempt_events_def)

section \<open>Properties\<close>

text \<open>
  C34: the program tries at most ten times and reports what happened. It exits 0 exactly if one of
  the ten attempts is answered with a 2xx status, and stops at the first such attempt; otherwise it
  exits 1 after ten. It pauses five seconds after each failed attempt but the tenth, and nowhere else.
\<close>

theorem hmc_main_result:
  "hmc_main host E =
     (let fs = takeWhile (\<lambda>i. \<not> answered_ok (E i)) [1..<11]; ok = Suc (length fs)
      in (if \<exists>i\<in>set [1..<11]. answered_ok (E i) then 0 else 1,
          concat (map (\<lambda>i. patch_events host (E i) @ (if i < 10 then [Sleep 5] else [])) fs)
            @ (if ok \<le> 10 then patch_events host (E ok) else [])))
   \<and> pauses (snd (hmc_main host E)) \<le> 9"
proof -
  let ?fs = "takeWhile (\<lambda>i. \<not> answered_ok (E i)) [1..<11]"
  have f: "failures E 1 = ?fs" by (simp add: failures_def maxAttempts_def del: upt_Suc)
  have ok: "Suc (length ?fs) \<le> 10 \<longleftrightarrow> (\<exists>i\<in>set [1..<11]. answered_ok (E i))"
    using takeWhile_shorter [of "\<lambda>i. \<not> answered_ok (E i)" "[1..<11]"]
    by (simp only: length_upt not_not) linarith
  have ev: "attempt_events host E = (\<lambda>i. patch_events host (E i) @ (if i < 10 then [Sleep 5] else []))"
    by (simp add: attempt_events_def fun_eq_iff maxAttempts_def retryDelaySec_def)
  have spec: "hmc_main host E = (if Suc (length ?fs) \<le> 10 then 0 else 1,
      concat (map (attempt_events host E) ?fs)
        @ (if Suc (length ?fs) \<le> 10 then patch_events host (E (Suc (length ?fs))) else []))"
    using hmc_loop_spec [of 1 host E] f by (simp add: hmc_main_def Let_def maxAttempts_def)
  have "pauses (snd (hmc_main host E)) = length (filter (\<lambda>i. i < 10) ?fs)"
    unfolding spec by (simp add: pauses_attempts maxAttempts_def)
  also have "\<dots> \<le> length (filter (\<lambda>i. i < 10) [1..<11 :: nat])" by (rule filter_takeWhile_le)
  also have "\<dots> = 9" by (simp add: upt_rec)
  finally show ?thesis unfolding spec ev ok by (simp only: Let_def ok snd_conv simp_thms)
qed

text \<open>
  C35: a success names the right time. When the program exits 0, it has sent, and an HMC has answered
  with 2xx, a PATCH to the HMC's address with timeouts of two and five seconds, whose body is the
  JSON object of one member \<open>DateTime\<close>, and that text read back is the second at which the
  successful attempt was made.
\<close>

theorem hmc_success_names_time:
  assumes "fst (hmc_main host E) = 0"
    and "\<forall>i. 0 \<le> now_ns (E i) \<and> now_ns (E i) < 253402300800000000000"
  shows "\<exists>i req ts. i \<in> {1..10} \<and> answered_ok (E i) \<and> Curl_perform req \<in> set (snd (hmc_main host E))
    \<and> curl_url req = hmcDateTimeUrl host \<and> curl_customrequest req = ''PATCH''
    \<and> curl_connecttimeout req = 2 \<and> curl_timeout req = 5
    \<and> curl_postfields req = body_open @ ts @ body_close
    \<and> read_timestamp ts = Some (now_ns (E i) div 1000000000)"
proof -
  let ?fs = "failures E 1" and ?ok = "Suc (length (failures E 1))"
  have spec: "hmc_main host E = (if ?ok \<le> maxAttempts then 0 else 1,
      concat (map (attempt_events host E) ?fs)
        @ (if ?ok \<le> maxAttempts then patch_events host (E ?ok) else []))"
    using hmc_loop_spec [of 1 host E] by (simp add: hmc_main_def Let_def maxAttempts_def)
  with assms(1) have le: "?ok \<le> maxAttempts" by (simp split: if_splits)
  then have "length ?fs < length [1..<Suc maxAttempts]" by (simp del: upt_Suc)
  then have "\<not> \<not> answered_ok (E ([1..<Suc maxAttempts] ! length ?fs))"
    unfolding failures_def by (rule nth_length_takeWhile)
  with le have ok: "answered_ok (E ?ok)" by (simp del: upt_Suc)
  let ?ts = "currentUtcDateTime (now_ns (E ?ok))"
  have n: "0 \<le> now_ns (E ?ok)" "now_ns (E ?ok) < 253402300800000000000" using assms(2) by auto
  have ts: "read_timestamp ?ts = Some (now_ns (E ?ok) div 1000000000)"
  proof -
    have "duration_cast_down 1000000000 (now_ns (E ?ok)) = now_ns (E ?ok) div 1000000000"
      using n by (simp add: duration_cast_down_def)
    moreover have "0 \<le> now_ns (E ?ok) div 1000000000" "now_ns (E ?ok) div 1000000000 < 253402300800"
      using n by (simp_all add: pos_imp_zdiv_nonneg_iff)
    ultimately show ?thesis
      unfolding currentUtcDateTime_def by (simp add: read_timestamp_timestamp calendar_start_def)
  qed
  let ?req = "\<lparr>curl_url = hmcDateTimeUrl host, curl_customrequest = ''PATCH'',
      curl_postfields = body_open @ ?ts @ body_close, curl_header = ''Content-Type: application/json'',
      curl_connecttimeout = 2, curl_timeout = 5, curl_verifypeer = 0, curl_verifyhost = 0,
      curl_nosignal = 1\<rparr>"
  have "Curl_perform ?req \<in> set (patch_events host (E ?ok))"
    using ok by (simp add: patchHmcTime_def answered_ok_def connectTimeoutSec_def
        transferTimeoutSec_def Let_def)
  then have "Curl_perform ?req \<in> set (snd (hmc_main host E))" unfolding spec using le by simp
  with ok ts le show ?thesis
    by (intro exI [of _ ?ok] exI [of _ ?req] exI [of _ ?ts]) (simp add: maxAttempts_def)
qed

definition sample_attempts :: "nat \<Rightarrow> attempt" where
  "sample_attempts i = \<lparr>now_ns = 1487304700000000000 + 5000000000 * int (min i 10), curl_available = True,
     curl_code = (if i = 1 then 7 else 0), http_code = (if i = 2 then 503 else 200)\<rparr>"

theorem hmc_success_names_time_witness:
  "\<exists>i req. i \<in> {1..10} \<and> answered_ok (sample_attempts i)
     \<and> Curl_perform req \<in> set (snd (hmc_main ''172.31.13.251'' sample_attempts))
     \<and> curl_customrequest req = ''PATCH''"
proof -
  have "fst (hmc_main ''172.31.13.251'' sample_attempts) = 0"
  proof -
    have "failures sample_attempts 1 = [1, 2]"
      by (simp add: failures_rec answered_ok_def sample_attempts_def maxAttempts_def)
    then show ?thesis
      unfolding hmc_main_def by (subst hmc_loop_spec) (simp_all add: maxAttempts_def Let_def)
  qed
  moreover have "\<forall>i. 0 \<le> now_ns (sample_attempts i)
      \<and> now_ns (sample_attempts i) < 253402300800000000000"
  proof
    fix i :: nat
    have "min i 10 \<le> 10" by simp
    then show "0 \<le> now_ns (sample_attempts i) \<and> now_ns (sample_attempts i) < 253402300800000000000"
      unfolding sample_attempts_def attempt.simps by linarith
  qed
  ultimately show ?thesis
    using hmc_success_names_time [of "''172.31.13.251''" sample_attempts] by blast
qed

end
