(* ===== verification/Spec2Isabelle.thy ===== *)
theory Spec2Isabelle
  imports RequesterSpec Transports Awaitable ErotQueue BusMessages Processes CoroutineFrames HmcTimeSync
begin

text \<open>
  phosphor-time-manager: a model of its three programs and what holds of it.

  \<^bold>\<open>The programs.\<close>
  \<^item> The time manager (\<open>main.cpp\<close>, \<open>manager.cpp\<close>, \<open>bmc_epoch.cpp\<close>, \<open>settings.cpp\<close>, \<open>utils.cpp\<close>) carries
    the mode (NTP or Manual) between the settings service and systemd-timedated, and offers the
    property \<open>Elapsed\<close>, whose setter has timedated set the clock.
  \<^item> The ERoT time manager (\<open>oem/nvidia\<close>) discovers MCTP endpoints on D-Bus, and sends the time to
    each of them as a vendor-defined message when they appear and when the system time changes.
    \<open>mctp_endpoint_discovery.cpp\<close> reports endpoints to \<open>erot_time_manager.cpp\<close>, whose coroutines
    register requests with the requester (\<open>handler.hpp\<close>, with \<open>instance_id.hpp\<close> and the retry timer
    of \<open>request.hpp\<close>); requests leave through, and responses arrive at, the sockets of
    \<open>socket_handler.cpp\<close>, which hands a response back to the requester, which resumes the coroutine.
  \<^item> The HMC synchronisation (\<open>oem/nvidia/hmc_time_sync.cpp\<close>) pushes the time to another controller.

  \<^bold>\<open>The theories\<close>, in the order of their imports.
  \<^item> \<open>Prelude\<close>: machine integers, \<open>exn\<close> (C++ exceptions, failed assertions and undefined behaviour as
    values), sequencing of fallible operations, and hash tables as association lists whose order
    after an insertion is a parameter.
  \<^item> \<open>InstanceId\<close> (\<open>instance_id.hpp\<close>): the pool of 32 identifiers per endpoint as a 32-bit word.
  \<^item> \<open>VdmMessage\<close> (\<open>types.hpp\<close>, \<open>constants.hpp\<close>, \<open>mctp_vdm_completion_codes.hpp\<close>, keys of \<open>handler.hpp\<close>):
    the bytes of the messages.
  \<^item> \<open>DBusTypes\<close>, \<open>Effects\<close>: D-Bus values; the platform. What the ERoT program asks of the system is
    appended to a history of calls and answered by functions of that history, the fields of the
    record \<open>platform\<close>; nothing is assumed of the answers but their types.
  \<^item> \<open>RetryTimer\<close> (\<open>request.hpp\<close>): the retry count is an 8-bit word.
  \<^item> \<open>SocketHandler\<close> (\<open>socket_manager.hpp\<close>, \<open>socket_handler.hpp\<close>, \<open>initSocket\<close> of \<open>socket_handler.cpp\<close>): both
    transports; open descriptors are read off the history.
  \<^item> \<open>RequestHandler\<close> (\<open>handler.hpp\<close>): the table of requests, for any response handler; the locales
    state what a response handler may do to the requester and what the requester promises it:
    \<open>response_contract\<close> for a property of the whole state, \<open>client_contract\<close> for one of the
    client's own members. \<open>Receive\<close> extends both to the datagrams that arrive.
  \<^item> \<open>RequesterSpec\<close>: what the requester promises, a scheduler without table, timers and identifiers, and
    the simulation of every operation of \<open>RequestHandler\<close> by it.
  \<^item> \<open>MediumQueue\<close> (\<open>erot_time_manager.hpp\<close>): the priority queue of an ERoT's endpoints as the heap
    \<open>std::push_heap\<close> builds.
  \<^item> \<open>Receive\<close> (receiving half of \<open>socket_handler.cpp\<close>): a datagram to a call of the requester.
  \<^item> \<open>CoroutineFrames\<close> (\<open>Coroutine\<close> of \<open>handler.hpp\<close>): the coroutine type on a store of frames.
  \<^item> \<open>Lifetimes\<close> (\<open>erot_time_manager.cpp\<close>): how long the vectors of endpoints live that a coroutine
    takes by reference, and the frame of a task just started. \<open>ErotTimeManager\<close> reads a vector, and keeps
    or destroys a frame, through it.
  \<^item> \<open>ErotTimeManager\<close>: the manager and its coroutines. \<open>world\<close> extends the requester's record, and the
    requester's handlers are numbered awaitables; a chain of coroutines that waits is the value
    \<open>Suspended\<close> of the handle, with the locals its frames still need. The theory interprets the
    requester's locale on these coroutines.
  \<^item> \<open>Discovery\<close> (\<open>mctp_endpoint_discovery.cpp\<close>).
  \<^item> \<open>ErotSystem\<close>: the event loop as a step relation, one step per callback, and its reachable states.
  \<^item> \<open>ErotProperties\<close>, \<open>ErotService\<close>, \<open>ErotResources\<close>, \<open>ErotEndpoints\<close>: what holds of that system;
    \<open>ErotProgress\<close> and \<open>ErotLiveness\<close>: that no chain waits in vain, under the hypotheses \<open>reliable\<close>
    (the platform's calls succeed) and \<open>orderly\<close> (no stray response frees an identifier in use).
  \<^item> \<open>ErotMain\<close> (\<open>main.cpp\<close>, the constructor of \<open>erot_time_manager.cpp\<close>, \<open>utils.hpp\<close>, \<open>utils.cpp\<close>).
  \<^item> \<open>Transports\<close>: the two instances of the ERoT program's templates, one per transport, as one system
    up to descriptors; a lemma per operation, then runs.
  \<^item> \<open>Awaitable\<close> (\<open>SendRecvMctpVdmMsg\<close> of \<open>handler.hpp\<close>, \<open>setTimeOnErot\<close>): the awaited object with its
    pointers into the coroutine's frame, on a store; it agrees with the two functions \<open>ErotTimeManager\<close>
    uses in its place.
  \<^item> \<open>RequestTiming\<close> (constructors of \<open>handler.hpp\<close> and \<open>request.hpp\<close>): the configured times and the
    dispatches of an unanswered request's timers; when they happen is the event loop's choice.
  \<^item> \<open>TimeBus\<close> (\<open>utils.hpp\<close>, \<open>utils.cpp\<close>, \<open>settings.hpp\<close>, \<open>settings.cpp\<close>): D-Bus calls as a history,
    answered by the record \<open>bus\<close>.
  \<^item> \<open>TimeManager\<close> (\<open>manager.cpp\<close>): \<open>manager\<close> holds the mode, the settings path and the calls made.
  \<^item> \<open>Calendar\<close>: \<open>gmtime\<close>, the format of the timestamps and a reader for it; any time from 1570 to
    9999 reads back.
  \<^item> \<open>BmcEpoch\<close> (\<open>bmc_epoch.cpp\<close>, \<open>property_change_listener.hpp\<close>).
  \<^item> \<open>TimeSystem\<close> (\<open>main.cpp\<close>): the time manager between the two services, with signals under way.
    Its specification, the record \<open>mirror\<close>, is two values kept equal by forwarding; the deliveries of
    signals to the manager refine it. A write of \<open>Elapsed\<close> is answered by timedated, which may look at
    the status of the NTP service.
  \<^item> \<open>BusMessages\<close> (\<open>types.hpp\<close> and where the calls are made): the D-Bus message of each call,
    those of a write of \<open>Elapsed\<close> in full.
  \<^item> \<open>TimeDelivery\<close>: the two programs together, from a write of \<open>Elapsed\<close> to the ERoTs.
  \<^item> \<open>ErotSequence\<close>: a discovery task from its first request to its end, one answer after the other.
  \<^item> \<open>ErotQueue\<close>: the same for all queued lists and whatever the endpoints do, retries and expiry included.
  \<^item> \<open>Processes\<close> (both \<open>main.cpp\<close>): the steps of the two programs, run by one runner that
    knows what a return, an \<open>exit\<close>, an exception and an abort leave behind.
  \<^item> \<open>HmcTimeSync\<close>.

  \<^bold>\<open>What is shown.\<close> Of the ERoT program: in every reachable state each endpoint has at most one running
  request, handlers and identifiers are accounted for, recorded and queued endpoints have socket parameters, and
  the open descriptors are those owned; a chain of coroutines unwinds and frees its frames; a
  suspended chain waits on the one live request of the table and has less to do each time it is
  resumed; a manager at rest holds no request and no identifier, and no socket but the one the in-kernel
  build keeps; the requester refines a scheduler that leaves no endpoint idle; the
  builds for the two transports are equivalent; an unanswered request is repeated as often
  as its timers are dispatched, three times at most; a discovery task serves all queued endpoints in order, one request each, whether they answer, refuse or
  stay silent, and then releases everything; a task ends only with an empty queue; time changes
  with any effect are an interval apart and go through the best medium; responses, datagrams, discovery, messages and the
  identifier pool are characterised on every branch. Of the time manager: it refines the mirror, is
  consistent whenever no signal is under way, settles a single change in two deliveries, and obeys the
  README's table for setting the time and its note on a stopping NTP service; every 64-bit value of \<open>Elapsed\<close> has a known outcome. A time written
  through it is what a manager at rest sends to the ERoTs. Of the HMC
  program: exit code, attempts and pauses for every behaviour of the HMC. Theorems of kind \<open>error\<close>
  exhibit executions in which the code goes wrong; the witness of each is a concrete one.

  \<^bold>\<open>Conventions and bounds.\<close> \<open>size_t\<close> has 64 bits, \<open>int\<close> has 32 and the machine is little-endian;
  assertions are enabled; a coroutine that ends by an exception yields the initial value 0 of its
  promise. Loops are recursive functions with termination proofs; no fuel is used: the task loop
  recurses on its queue, the identifier scan on the 32 positions, the HMC loop on the ten attempts.
  Undefined behaviour ends an operation with \<open>UndefinedBehaviour\<close>, and a step of the event loop is a
  callback that returns. One undefinedness is passed over: \<open>setTimeOnErots\<close> flows off its end without
  \<open>co_return\<close>, which \<open>erots_loop\<close> takes for a return. Clocks are integers of any size.

  \<^bold>\<open>Parameters.\<close> D-Bus services, the kernel, the clock, libcurl and the generated conversion of mode
  strings are parameters. Hypotheses about them are named definitions that state documented behaviour
  (\<open>documented_conversion\<close>, \<open>documented_daemons\<close>, \<open>documented_timedated\<close>, \<open>documented_timers\<close>, \<open>reliable_bus\<close>,
  \<open>reliable\<close>), each with an instance that meets it;
  \<open>addresses_fit\<close> asks that socket addresses fit \<open>sun_path\<close>, without which opening one is undefined.

  \<^bold>\<open>Not modelled.\<close> The insides of the bus and the event loop, of which the two \<open>main\<close> functions
  are given which steps throw or abort; the logging calls (but the text of message dumps); the release of event
  sources by the system library; the subscription of the discovery's constructor to new objects, of which
  the body and the handler are modelled; deleted and defaulted members. D-Bus replies of an unexpected type are
  failing calls.
\<close>

end
